(* ===== verification/Gateway_Prelude.thy ===== *)
theory Gateway_Prelude
  imports Main "HOL-Library.Word"
begin

text \<open>
  Shared vocabulary of the development: the machine types of the Rust sources, the clock,
  fallible and panicking computations, and the generic lemmas the component theories share.

  \<^item> \<open>usize\<close>, \<open>u32\<close> and \<open>u64\<close> quantities that the code only compares, adds
    with a check or saturates are natural numbers with the bound written out
    (\<open>checked_add_usize\<close>, \<open>saturating_add_usize\<close>); counters the code lets wrap around are
    words.
  \<^item> \<open>Instant\<close> and \<open>Duration\<close> are counts of nanoseconds. Every function that reads the
    clock takes the instant it reads as an argument.
  \<^item> A Rust function that can panic returns a value of \<open>exec\<close>, so that the absence of
    panics is a theorem and not a convention.
\<close>

section \<open>Machine types\<close>

type_synonym byte = "8 word"
type_synonym u64 = "64 word"
type_synonym instant = nat
type_synonym duration = nat

text \<open>A string literal of the source as bytes.\<close>

definition bytes_of_string :: "string \<Rightarrow> byte list" where
  "bytes_of_string s = map (\<lambda>c. of_nat (of_char c)) s"

definition usize_max :: nat where
  "usize_max = 2 ^ 64 - 1"

definition u32_max :: nat where
  "u32_max = 2 ^ 32 - 1"

definition u64_max :: nat where
  "u64_max = 2 ^ 64 - 1"

definition nanos_per_sec :: nat where
  "nanos_per_sec = 1000000000"

abbreviation from_secs :: "nat \<Rightarrow> duration" where
  "from_secs s \<equiv> s * nanos_per_sec"

abbreviation from_millis :: "nat \<Rightarrow> duration" where
  "from_millis m \<equiv> m * 1000000"

text \<open>\<open>Duration::MAX\<close>: \<open>u64::MAX\<close> seconds and 999999999 nanoseconds.\<close>

definition duration_max :: duration where
  "duration_max = u64_max * nanos_per_sec + 999999999"

definition checked_add_usize :: "nat \<Rightarrow> nat \<Rightarrow> nat option" where
  "checked_add_usize a b = (if a + b \<le> usize_max then Some (a + b) else None)"

definition saturating_add_usize :: "nat \<Rightarrow> nat \<Rightarrow> nat" where
  "saturating_add_usize a b = min (a + b) usize_max"

definition saturating_mul_usize :: "nat \<Rightarrow> nat \<Rightarrow> nat" where
  "saturating_mul_usize a b = min (a * b) usize_max"

definition checked_add_u64 :: "nat \<Rightarrow> nat \<Rightarrow> nat option" where
  "checked_add_u64 a b = (if a + b \<le> u64_max then Some (a + b) else None)"

definition saturating_add_u64 :: "nat \<Rightarrow> nat \<Rightarrow> nat" where
  "saturating_add_u64 a b = min (a + b) u64_max"

text \<open>
  \<open>Instant::checked_sub\<close>. The clock starts at zero, so the subtraction is refused exactly
  when the result would lie before the first representable instant.
\<close>

definition instant_checked_sub :: "instant \<Rightarrow> duration \<Rightarrow> instant option" where
  "instant_checked_sub t d = (if d \<le> t then Some (t - d) else None)"

text \<open>\<open>Instant::saturating_duration_since\<close> is truncated subtraction.\<close>

definition duration_since :: "instant \<Rightarrow> instant \<Rightarrow> duration" where
  "duration_since later earlier = later - earlier"

section \<open>Computations that return, fail or panic\<close>

datatype ('e, 'a) exec = Panics | Fails 'e | Returns 'a

fun bind_exec :: "('e, 'a) exec \<Rightarrow> ('a \<Rightarrow> ('e, 'b) exec) \<Rightarrow> ('e, 'b) exec" where
  "bind_exec Panics f = Panics"
| "bind_exec (Fails e) f = Fails e"
| "bind_exec (Returns a) f = f a"

fun map_err_exec :: "('e \<Rightarrow> 'f) \<Rightarrow> ('e, 'a) exec \<Rightarrow> ('f, 'a) exec" where
  "map_err_exec g Panics = Panics"
| "map_err_exec g (Fails e) = Fails (g e)"
| "map_err_exec g (Returns a) = Returns a"

definition no_panic :: "('e, 'a) exec \<Rightarrow> bool" where
  "no_panic r \<longleftrightarrow> r \<noteq> Panics"

section \<open>Collections of facts\<close>

named_theorems machine_defs "definitions of the machine arithmetic"
named_theorems inv_intros "an operation keeps the invariant of its component"
named_theorems op_simps "what an operation does to the abstract value of its component"

lemmas machine_basic [machine_defs] =
  checked_add_usize_def saturating_add_usize_def saturating_mul_usize_def
  checked_add_u64_def saturating_add_u64_def
  instant_checked_sub_def duration_since_def

lemma bind_exec_Returns_iff:
  "bind_exec r f = Returns b \<longleftrightarrow> (\<exists>a. r = Returns a \<and> f a = Returns b)"
  by (cases r) auto

lemma bind_exec_Panics_iff:
  "bind_exec r f = Panics \<longleftrightarrow> r = Panics \<or> (\<exists>a. r = Returns a \<and> f a = Panics)"
  by (cases r) auto

lemma map_err_exec_iff [simp]:
  "map_err_exec g r = Returns a \<longleftrightarrow> r = Returns a"
  "map_err_exec g r = Panics \<longleftrightarrow> r = Panics"
  by (cases r; simp)+

lemma map_err_exec_Fails_iff:
  "map_err_exec g r = Fails f \<longleftrightarrow> (\<exists>e. r = Fails e \<and> f = g e)"
  by (cases r) auto

section \<open>Lists\<close>

lemma take_append_drop_nth:
  "n \<le> length xs \<Longrightarrow> k < n \<Longrightarrow> take n xs ! k = xs ! k"
  by simp

lemma sorted_dropWhile_eq_filter:
  fixes xs :: "'a list" and f :: "'a \<Rightarrow> 'b::linorder"
  assumes "sorted (map f xs)"
  shows "dropWhile (\<lambda>x. f x \<le> c) xs = filter (\<lambda>x. c < f x) xs"
  using assms
proof (induction xs)
  case Nil
  then show ?case by simp
next
  case (Cons x xs)
  have tail: "filter (\<lambda>y. c < f y) xs = xs" if "c < f x"
    using Cons.prems that by (auto simp: filter_id_conv)
  show ?case
    using Cons by (cases "f x \<le> c") (auto simp: tail)
qed

lemma sorted_map_dropWhile:
  "sorted (map f xs) \<Longrightarrow> sorted (map f (dropWhile P xs))"
  by (metis dropWhile_eq_drop drop_map sorted_wrt_drop)

lemma distinct_map_dropWhile:
  "distinct (map f xs) \<Longrightarrow> distinct (map f (dropWhile P xs))"
  by (metis dropWhile_eq_drop drop_map distinct_drop)

lemma distinct_map_filter_intro: "distinct (map f xs) \<Longrightarrow> distinct (map f (filter P xs))"
  by (induction xs) auto

lemma length_filter_mono:
  "(\<And>x. x \<in> set xs \<Longrightarrow> P x \<Longrightarrow> Q x) \<Longrightarrow> length (filter P xs) \<le> length (filter Q xs)"
  by (induction xs) (auto simp: le_SucI)

lemma length_filter_sum_list:
  "length (filter P xs) = (\<Sum>x\<leftarrow>xs. if P x then 1 else 0)"
  by (induction xs) auto

end
