(* ===== verification/Payload_Buffer.thy ===== *)
theory Payload_Buffer
  imports Gateway_Prelude
begin

text \<open>
  The bounded byte buffer of \<open>crates/payload-buffer/src/buffer.rs\<close>.

  A buffer holds its bytes in a heap vector or in an anonymous mapping. The vector's growth
  and the mapping are the allocator's business, so they are the parameter \<open>allocator\<close>: what
  \<open>Vec::try_reserve\<close>, \<open>Vec::try_reserve_exact\<close> and \<open>MmapMut::map_anon\<close> return.
  \<open>allocator_ok\<close> is what their documentation promises.

  The locale \<open>bounded_bytes\<close> is the contract the protocol layer relies on;
  \<open>PayloadBuffer\<close> interprets it as \<open>pbuf\<close>.
\<close>

section \<open>State\<close>

datatype payload_buffer_error = TooLarge | AllocationFailed

datatype storage = Heap "byte list" nat | Mapped "byte list"

record payload_buffer =
  pb_storage :: storage
  pb_len :: nat
  pb_max_len :: nat

record allocator =
  vec_try_reserve :: "nat \<Rightarrow> nat \<Rightarrow> nat \<Rightarrow> nat option"
  vec_try_reserve_exact :: "nat \<Rightarrow> nat option"
  mmap_anon :: "nat \<Rightarrow> byte list option"

definition allocator_ok :: "allocator \<Rightarrow> bool" where
  "allocator_ok A \<longleftrightarrow>
     (\<forall>cap n extra c. vec_try_reserve A cap n extra = Some c \<longrightarrow> cap \<le> c \<and> n + extra \<le> c) \<and>
     (\<forall>n c. vec_try_reserve_exact A n = Some c \<longrightarrow> n \<le> c) \<and>
     (\<forall>n m. mmap_anon A n = Some m \<longrightarrow> length m = n)"

definition allocator_total :: "allocator \<Rightarrow> bool" where
  "allocator_total A \<longleftrightarrow>
     (\<forall>cap n extra. vec_try_reserve A cap n extra \<noteq> None) \<and>
     (\<forall>n. vec_try_reserve_exact A n \<noteq> None) \<and>
     (\<forall>n. mmap_anon A n \<noteq> None)"

text \<open>An allocator that always succeeds and never over-allocates, for closed examples.\<close>

definition exact_allocator :: allocator where
  "exact_allocator =
     \<lparr> vec_try_reserve = (\<lambda>cap n extra. Some (max cap (n + extra))),
       vec_try_reserve_exact = (\<lambda>n. Some n),
       mmap_anon = (\<lambda>n. Some (replicate n 0)) \<rparr>"

section \<open>Operations\<close>

definition DIRECT_MMAP_THRESHOLD_BYTES :: nat where
  "DIRECT_MMAP_THRESHOLD_BYTES = 2 * 1024 * 1024"

fun allocated_bytes :: "storage \<Rightarrow> nat" where
  "allocated_bytes (Heap bs cap) = cap"
| "allocated_bytes (Mapped m) = length m"

definition pb_new :: "nat \<Rightarrow> payload_buffer" where
  "pb_new max_len = \<lparr> pb_storage = Heap [] 0, pb_len = 0, pb_max_len = max_len \<rparr>"

definition allocate_storage ::
  "allocator \<Rightarrow> nat \<Rightarrow> (payload_buffer_error, storage) exec" where
  "allocate_storage A capacity =
     (if DIRECT_MMAP_THRESHOLD_BYTES \<le> capacity
      then (case mmap_anon A capacity of
              None \<Rightarrow> Fails AllocationFailed
            | Some m \<Rightarrow> Returns (Mapped m))
      else (case vec_try_reserve_exact A capacity of
              None \<Rightarrow> Fails AllocationFailed
            | Some cap \<Rightarrow> Returns (Heap [] cap)))"

definition with_capacity_hint ::
  "allocator \<Rightarrow> nat option \<Rightarrow> nat \<Rightarrow> (payload_buffer_error, payload_buffer) exec" where
  "with_capacity_hint A expected_len max_len =
     (let capacity = (case expected_len of
                        None \<Rightarrow> 0
                      | Some n \<Rightarrow> if n \<le> max_len then n else 0)
      in bind_exec (allocate_storage A capacity)
           (\<lambda>s. Returns \<lparr> pb_storage = s, pb_len = 0, pb_max_len = max_len \<rparr>))"

text \<open>
  \<open>ensure_capacity\<close>. The two copies into the replacement mapping panic when the slices they
  join differ in length or reach past a buffer's end; the first branch that needs a heap vector
  is the source's \<open>unreachable!\<close>.
\<close>

definition ensure_capacity ::
  "allocator \<Rightarrow> payload_buffer \<Rightarrow> nat \<Rightarrow> (payload_buffer_error, payload_buffer) exec" where
  "ensure_capacity A b required =
     (let current = allocated_bytes (pb_storage b) in
      if required \<le> current then Returns b
      else if required < DIRECT_MMAP_THRESHOLD_BYTES
      then (case pb_storage b of
              Mapped m \<Rightarrow> Panics
            | Heap bs cap \<Rightarrow>
                (case vec_try_reserve A cap (length bs) (required - length bs) of
                   None \<Rightarrow> Fails AllocationFailed
                 | Some cap' \<Rightarrow> Returns (b\<lparr>pb_storage := Heap bs cap'\<rparr>)))
      else (let capacity = min (max required (saturating_mul_usize current 2)) (pb_max_len b) in
            case mmap_anon A capacity of
              None \<Rightarrow> Fails AllocationFailed
            | Some replacement \<Rightarrow>
                (case pb_storage b of
                   Heap bs cap \<Rightarrow>
                     (if pb_len b \<le> length replacement \<and> length bs = pb_len b
                      then Returns (b\<lparr>pb_storage := Mapped (bs @ drop (pb_len b) replacement)\<rparr>)
                      else Panics)
                 | Mapped m \<Rightarrow>
                     (if pb_len b \<le> length replacement \<and> pb_len b \<le> length m
                      then Returns (b\<lparr>pb_storage :=
                              Mapped (take (pb_len b) m @ drop (pb_len b) replacement)\<rparr>)
                      else Panics))))"

definition extend_from_slice ::
  "allocator \<Rightarrow> payload_buffer \<Rightarrow> byte list \<Rightarrow> (payload_buffer_error, payload_buffer) exec" where
  "extend_from_slice A b bytes =
     (case checked_add_usize (pb_len b) (length bytes) of
        None \<Rightarrow> Fails TooLarge
      | Some next_len \<Rightarrow>
          (if next_len \<le> pb_max_len b
           then bind_exec (ensure_capacity A b next_len)
             (\<lambda>b'. case pb_storage b' of
                Heap bs cap \<Rightarrow>
                  Returns (b'\<lparr>pb_storage := Heap (bs @ bytes) (max cap (length bs + length bytes)),
                              pb_len := next_len\<rparr>)
              | Mapped m \<Rightarrow>
                  (if next_len \<le> length m
                   then Returns (b'\<lparr>pb_storage :=
                          Mapped (take (pb_len b') m @ bytes @ drop next_len m),
                          pb_len := next_len\<rparr>)
                   else Panics))
           else Fails TooLarge))"

definition pb_is_empty :: "payload_buffer \<Rightarrow> bool" where
  "pb_is_empty b \<longleftrightarrow> pb_len b = 0"

definition as_slice :: "payload_buffer \<Rightarrow> byte list" where
  "as_slice b = (case pb_storage b of Heap bs cap \<Rightarrow> bs | Mapped m \<Rightarrow> take (pb_len b) m)"

text \<open>\<open>freeze\<close>: the frozen bytes and the number of bytes the allocation holds.\<close>

definition freeze :: "payload_buffer \<Rightarrow> byte list \<times> nat" where
  "freeze b =
     (if pb_len b = 0 then ([], 0)
      else (take (pb_len b) (case pb_storage b of Heap bs cap \<Rightarrow> bs | Mapped m \<Rightarrow> m),
            allocated_bytes (pb_storage b)))"

text \<open>The \<open>io::Write\<close> view: the whole slice is written, or the error kind says why not.\<close>

datatype io_error_kind = WriteZero | OutOfMemory

fun buffer_io_error :: "payload_buffer_error \<Rightarrow> io_error_kind" where
  "buffer_io_error TooLarge = WriteZero"
| "buffer_io_error AllocationFailed = OutOfMemory"

definition pb_write ::
  "allocator \<Rightarrow> payload_buffer \<Rightarrow> byte list \<Rightarrow> (io_error_kind, payload_buffer \<times> nat) exec" where
  "pb_write A b bytes =
     bind_exec (map_err_exec buffer_io_error (extend_from_slice A b bytes))
       (\<lambda>b'. Returns (b', length bytes))"

section \<open>Well-formed buffers\<close>

definition pb_inv :: "payload_buffer \<Rightarrow> bool" where
  "pb_inv b \<longleftrightarrow>
     pb_len b \<le> pb_max_len b \<and> pb_max_len b \<le> usize_max \<and>
     (case pb_storage b of
        Heap bs cap \<Rightarrow> length bs = pb_len b \<and> pb_len b \<le> cap
      | Mapped m \<Rightarrow> pb_len b \<le> length m \<and> DIRECT_MMAP_THRESHOLD_BYTES \<le> length m)"

lemma pb_inv_new [inv_intros]: "n \<le> usize_max \<Longrightarrow> pb_inv (pb_new n)"
  by (simp add: pb_inv_def pb_new_def)

lemma pb_new_sel: "pb_len (pb_new m) = 0" "pb_max_len (pb_new m) = m"
  by (simp_all add: pb_new_def)

lemma as_slice_new [op_simps]: "as_slice (pb_new n) = []" "pb_max_len (pb_new n) = n"
  by (simp_all add: as_slice_def pb_new_def)

lemma length_as_slice: "pb_inv b \<Longrightarrow> length (as_slice b) = pb_len b"
  by (auto simp: pb_inv_def as_slice_def split: storage.splits)

lemma pb_is_empty_iff: "pb_inv b \<Longrightarrow> pb_is_empty b \<longleftrightarrow> as_slice b = []"
  using length_as_slice [of b] by (auto simp: pb_is_empty_def)

lemma freeze_bytes: "pb_inv b \<Longrightarrow> fst (freeze b) = as_slice b"
  by (auto simp: pb_inv_def freeze_def as_slice_def split: storage.splits)

lemma freeze_accounts: "pb_inv b \<Longrightarrow> length (fst (freeze b)) \<le> snd (freeze b)"
  by (auto simp: pb_inv_def freeze_def split: storage.splits)

lemma with_capacity_hint_ok:
  assumes "allocator_ok A" "max_len \<le> usize_max"
    and "with_capacity_hint A hint max_len = Returns b"
  shows "pb_inv b \<and> as_slice b = [] \<and> pb_max_len b = max_len"
  using assms
  by (auto simp: with_capacity_hint_def allocate_storage_def allocator_ok_def pb_inv_def
      as_slice_def Let_def bind_exec_Returns_iff split: option.splits if_splits)

lemma ensure_capacity_enough:
  "required \<le> allocated_bytes (pb_storage b) \<Longrightarrow> ensure_capacity A b required = Returns b"
  by (simp add: ensure_capacity_def)

text \<open>
  What \<open>ensure_capacity\<close> promises: it never panics on a well-formed buffer, it fails only when
  the allocator does, and otherwise the bytes are the same and the storage holds the required
  number.
\<close>

definition grown :: "payload_buffer \<Rightarrow> nat \<Rightarrow> payload_buffer \<Rightarrow> bool" where
  "grown b required b' \<longleftrightarrow>
     pb_inv b' \<and> as_slice b' = as_slice b \<and> pb_len b' = pb_len b \<and>
     pb_max_len b' = pb_max_len b \<and> required \<le> allocated_bytes (pb_storage b')"

definition grows :: "allocator \<Rightarrow> payload_buffer \<Rightarrow> nat \<Rightarrow> bool" where
  "grows A b required \<longleftrightarrow>
     (\<exists>b'. ensure_capacity A b required = Returns b' \<and> grown b required b') \<or>
     (ensure_capacity A b required = Fails AllocationFailed \<and> \<not> allocator_total A)"

lemma ensure_capacity_heap:
  assumes ok: "allocator_ok A" and inv: "pb_inv b"
    and fits: "pb_len b \<le> required" "required \<le> pb_max_len b"
    and more: "allocated_bytes (pb_storage b) < required"
    and small: "required < DIRECT_MMAP_THRESHOLD_BYTES"
  shows "grows A b required"
proof -
  obtain bs cap where st: "pb_storage b = Heap bs cap"
    using inv more small by (cases "pb_storage b") (auto simp: pb_inv_def)
  have len: "length bs = pb_len b"
    using inv st by (simp add: pb_inv_def)
  show ?thesis
  proof (cases "vec_try_reserve A cap (length bs) (required - length bs)")
    case None
    then have "\<not> allocator_total A"
      by (auto simp: allocator_total_def)
    with None st more small show ?thesis
      by (simp add: grows_def ensure_capacity_def)
  next
    case (Some cap')
    then have "length bs + (required - length bs) \<le> cap'"
      using ok by (auto simp: allocator_ok_def)
    then have "required \<le> cap'"
      using fits len by simp
    with Some st more small inv fits len show ?thesis
      by (simp add: grows_def grown_def ensure_capacity_def pb_inv_def as_slice_def)
  qed
qed

lemma ensure_capacity_mapped:
  assumes ok: "allocator_ok A" and inv: "pb_inv b"
    and fits: "pb_len b \<le> required" "required \<le> pb_max_len b"
    and more: "allocated_bytes (pb_storage b) < required"
    and large: "DIRECT_MMAP_THRESHOLD_BYTES \<le> required"
  shows "grows A b required"
proof -
  let ?cap = "min (max required (saturating_mul_usize (allocated_bytes (pb_storage b)) 2))
                (pb_max_len b)"
  have cap: "required \<le> ?cap"
    using fits by simp
  show ?thesis
  proof (cases "mmap_anon A ?cap")
    case None
    then have "\<not> allocator_total A"
      by (auto simp: allocator_total_def)
    with None more large show ?thesis
      by (simp add: grows_def ensure_capacity_def Let_def)
  next
    case (Some m)
    then have len: "length m = ?cap"
      using ok by (auto simp: allocator_ok_def)
    define b' where "b' = b\<lparr>pb_storage := Mapped (as_slice b @ drop (pb_len b) m)\<rparr>"
    have "ensure_capacity A b required = Returns b'"
      using Some more large inv fits cap len
      by (auto simp: ensure_capacity_def Let_def pb_inv_def as_slice_def b'_def
          split: storage.splits)
    moreover have "grown b required b'"
      using inv fits cap large len length_as_slice [OF inv]
      unfolding grown_def pb_inv_def b'_def by (simp add: as_slice_def del: min.bounded_iff)
    ultimately show ?thesis
      by (auto simp: grows_def)
  qed
qed

lemma ensure_capacity_grows:
  assumes "allocator_ok A" "pb_inv b" "pb_len b \<le> required" "required \<le> pb_max_len b"
  shows "grows A b required"
proof (cases "required \<le> allocated_bytes (pb_storage b)")
  case True
  then show ?thesis
    using assms by (auto simp: grows_def grown_def ensure_capacity_enough)
next
  case False
  then show ?thesis
    using assms ensure_capacity_heap ensure_capacity_mapped by (meson not_le_imp_less)
qed

section \<open>Appending\<close>

lemma extend_after_growth:
  assumes "grown b (pb_len b + length bytes) b'" and "pb_inv b"
    and "pb_len b + length bytes \<le> pb_max_len b"
    and "ensure_capacity A b (pb_len b + length bytes) = Returns b'"
  shows "\<exists>b''. extend_from_slice A b bytes = Returns b'' \<and> pb_inv b'' \<and>
           as_slice b'' = as_slice b @ bytes \<and> pb_max_len b'' = pb_max_len b"
proof -
  have bound: "pb_len b + length bytes \<le> usize_max"
    using assms(2,3) by (simp add: pb_inv_def)
  show ?thesis
  proof (cases "pb_storage b'")
    case (Heap bs cap)
    then show ?thesis
      using assms bound
      by (auto simp: extend_from_slice_def checked_add_usize_def grown_def pb_inv_def as_slice_def)
  next
    case (Mapped m)
    then have "pb_len b + length bytes \<le> length m" "take (pb_len b) m = as_slice b"
      and "DIRECT_MMAP_THRESHOLD_BYTES \<le> length m"
      using assms(1,2) by (auto simp: grown_def pb_inv_def as_slice_def)
    then show ?thesis
      using assms bound Mapped length_as_slice [of b]
      by (auto simp: extend_from_slice_def checked_add_usize_def grown_def pb_inv_def as_slice_def)
  qed
qed

lemma extend_too_large:
  "pb_inv b \<Longrightarrow> pb_max_len b < pb_len b + length bytes \<Longrightarrow>
   extend_from_slice A b bytes = Fails TooLarge"
  by (auto simp: extend_from_slice_def checked_add_usize_def)

lemma extend_fits:
  assumes "allocator_ok A" "pb_inv b" "pb_len b + length bytes \<le> pb_max_len b"
  shows "(\<exists>b'. extend_from_slice A b bytes = Returns b' \<and> pb_inv b' \<and>
            as_slice b' = as_slice b @ bytes \<and> pb_max_len b' = pb_max_len b) \<or>
         (extend_from_slice A b bytes = Fails AllocationFailed \<and> \<not> allocator_total A)"
proof -
  have "grows A b (pb_len b + length bytes)"
    using assms by (intro ensure_capacity_grows) auto
  then show ?thesis
    unfolding grows_def
  proof (elim disjE exE conjE)
    fix b' assume "ensure_capacity A b (pb_len b + length bytes) = Returns b'"
      and "grown b (pb_len b + length bytes) b'"
    then show ?thesis
      using extend_after_growth assms by blast
  next
    assume "ensure_capacity A b (pb_len b + length bytes) = Fails AllocationFailed"
      and "\<not> allocator_total A"
    then show ?thesis
      using assms by (simp add: extend_from_slice_def checked_add_usize_def pb_inv_def)
  qed
qed

section \<open>The contract of a bounded buffer\<close>

text \<open>
  Several places of the protocol layer append a list of pieces one by one and stop at the first
  error (\<open>parse_event_payload\<close>, \<open>rebuild_frame\<close>, \<open>splice_ranges\<close>).
\<close>

fun append_pieces ::
  "('b \<Rightarrow> byte list \<Rightarrow> ('e, 'b) exec) \<Rightarrow> 'b \<Rightarrow> byte list list \<Rightarrow> ('e, 'b) exec" where
  "append_pieces put b [] = Returns b"
| "append_pieces put b (p # ps) = bind_exec (put b p) (\<lambda>b'. append_pieces put b' ps)"

locale bounded_bytes =
  fixes invar :: "'b \<Rightarrow> bool"
    and contents :: "'b \<Rightarrow> byte list"
    and limit :: "'b \<Rightarrow> nat"
    and env_ok :: "'a \<Rightarrow> bool"
    and env_total :: "'a \<Rightarrow> bool"
    and put :: "'a \<Rightarrow> 'b \<Rightarrow> byte list \<Rightarrow> (payload_buffer_error, 'b) exec"
  assumes put_within:
      "env_ok A \<Longrightarrow> invar b \<Longrightarrow> length (contents b) + length xs \<le> limit b \<Longrightarrow>
         (\<exists>b'. put A b xs = Returns b' \<and> invar b' \<and> contents b' = contents b @ xs \<and>
            limit b' = limit b) \<or>
         (put A b xs = Fails AllocationFailed \<and> \<not> env_total A)"
    and put_beyond:
      "invar b \<Longrightarrow> limit b < length (contents b) + length xs \<Longrightarrow> put A b xs = Fails TooLarge"
    and contents_within: "invar b \<Longrightarrow> length (contents b) \<le> limit b"
begin

lemma put_no_panic:
  assumes "env_ok A" "invar b"
  shows "put A b xs \<noteq> Panics"
proof (cases "length (contents b) + length xs \<le> limit b")
  case True
  then show ?thesis
    using put_within [OF assms True] by auto
next
  case False
  then show ?thesis
    using put_beyond [OF assms(2), of xs A] by simp
qed

lemma put_total:
  assumes "env_ok A" "env_total A" "invar b" "length (contents b) + length xs \<le> limit b"
  obtains b' where "put A b xs = Returns b'" "invar b'" "contents b' = contents b @ xs"
    "limit b' = limit b"
  using put_within [OF assms(1,3,4)] assms(2) by auto

lemma append_pieces_total:
  assumes "env_ok A" "env_total A" "invar b"
    and "length (contents b) + length (concat ps) \<le> limit b"
  shows "\<exists>b'. append_pieces (put A) b ps = Returns b' \<and> invar b' \<and>
           contents b' = contents b @ concat ps \<and> limit b' = limit b"
  using assms(3,4)
proof (induction ps arbitrary: b)
  case Nil
  then show ?case by simp
next
  case (Cons p ps)
  then have "length (contents b) + length p \<le> limit b"
    by simp
  then obtain b1 where "put A b p = Returns b1" "invar b1" "contents b1 = contents b @ p"
      "limit b1 = limit b"
    using put_total [OF assms(1,2) Cons.prems(1)] by metis
  then show ?case
    using Cons.IH [of b1] Cons.prems by auto
qed

lemma append_pieces_no_panic:
  assumes "env_ok A" "invar b"
  shows "append_pieces (put A) b ps \<noteq> Panics"
  using assms(2)
proof (induction ps arbitrary: b)
  case Nil
  then show ?case by simp
next
  case (Cons p ps)
  have "invar b'" if "put A b p = Returns b'" for b'
  proof (cases "length (contents b) + length p \<le> limit b")
    case True
    then show ?thesis
      using put_within [OF assms(1) Cons.prems True] that by auto
  next
    case False
    then show ?thesis
      using put_beyond [OF Cons.prems, of p A] that by simp
  qed
  then show ?case
    using Cons put_no_panic [OF assms(1) Cons.prems]
    by (auto simp: bind_exec_Panics_iff)
qed

end

interpretation pbuf: bounded_bytes pb_inv as_slice pb_max_len allocator_ok allocator_total
  extend_from_slice
proof (unfold_locales)
  show "(\<exists>b'. extend_from_slice A b xs = Returns b' \<and> pb_inv b' \<and>
            as_slice b' = as_slice b @ xs \<and> pb_max_len b' = pb_max_len b) \<or>
         (extend_from_slice A b xs = Fails AllocationFailed \<and> \<not> allocator_total A)"
    if "allocator_ok A" "pb_inv b" "length (as_slice b) + length xs \<le> pb_max_len b" for A b xs
    using that extend_fits by (simp add: length_as_slice)
  show "extend_from_slice A b xs = Fails TooLarge"
    if "pb_inv b" "pb_max_len b < length (as_slice b) + length xs" for A b xs
    using that extend_too_large by (simp add: length_as_slice)
  show "length (as_slice b) \<le> pb_max_len b" if "pb_inv b" for b
    using that length_as_slice [OF that] by (simp add: pb_inv_def)
qed

lemma exact_allocator_ok: "allocator_ok exact_allocator" "allocator_total exact_allocator"
  by (auto simp: allocator_ok_def allocator_total_def exact_allocator_def)

section \<open>Properties\<close>

text \<open>
  C30. Appending to a well-formed buffer never panics. It succeeds with exactly the new bytes
  appended, it reports \<open>TooLarge\<close> exactly when the bytes would pass the configured bound
  (arithmetic overflow included), and it reports \<open>AllocationFailed\<close> only within the bound and
  only because the allocator refused.
\<close>

theorem extend_from_slice_correct:
  assumes "allocator_ok A" "pb_inv b"
  shows "case extend_from_slice A b bytes of
           Panics \<Rightarrow> False
         | Fails TooLarge \<Rightarrow> pb_max_len b < pb_len b + length bytes
         | Fails AllocationFailed \<Rightarrow>
             pb_len b + length bytes \<le> pb_max_len b \<and> \<not> allocator_total A
         | Returns b' \<Rightarrow>
             pb_len b + length bytes \<le> pb_max_len b \<and> pb_inv b' \<and>
             as_slice b' = as_slice b @ bytes \<and> pb_max_len b' = pb_max_len b"
proof (cases "pb_len b + length bytes \<le> pb_max_len b")
  case True
  then show ?thesis
    using extend_fits [OF assms True] by auto
next
  case False
  then show ?thesis
    using extend_too_large [OF assms(2)] by simp
qed

theorem extend_from_slice_correct_witness:
  "extend_from_slice exact_allocator (pb_new 3) [1, 2, 3, 4] = Fails TooLarge \<and>
   (case extend_from_slice exact_allocator (pb_new 3) [1, 2, 3] of
      Returns b \<Rightarrow> pb_inv b \<and> as_slice b = [1, 2, 3] | _ \<Rightarrow> False)"
proof -
  have "pb_inv (pb_new 3)" by (rule pb_inv_new) (simp add: usize_max_def)
  note * = extend_from_slice_correct [OF exact_allocator_ok(1) this]
  have len: "pb_len (pb_new 3) = 0" "pb_max_len (pb_new 3) = 3" "as_slice (pb_new 3) = []"
    by (simp_all add: as_slice_new pb_new_sel)
  show ?thesis
    using * [of "[1, 2, 3, 4]"] * [of "[1, 2, 3]"] exact_allocator_ok(2)
    by (auto simp: len split: exec.splits payload_buffer_error.splits)
qed

text \<open>
  Writing a sequence of pieces and freezing the buffer returns the pieces concatenated,
  whatever mixture of heap and mapped storage the growth went through, as long as their total is
  within the bound and the allocator does not refuse.
\<close>

lemma append_pieces_freeze:
  assumes "allocator_ok A" "allocator_total A" "max_len \<le> usize_max"
    and "length (concat pieces) \<le> max_len"
  shows "\<exists>b. append_pieces (extend_from_slice A) (pb_new max_len) pieces = Returns b \<and>
             pb_inv b \<and> fst (freeze b) = concat pieces"
proof -
  have "length (as_slice (pb_new max_len)) + length (concat pieces) \<le> pb_max_len (pb_new max_len)"
    using assms(4) by (simp add: as_slice_new pb_new_sel)
  from pbuf.append_pieces_total [OF assms(1,2) pb_inv_new [OF assms(3)] this]
  show ?thesis
    by (auto simp: as_slice_new freeze_bytes)
qed

end
