(* ===== verification/Domain_Kinds.thy ===== *)
theory Domain_Kinds
  imports Gateway_Prelude
begin

text \<open>
  The enumerations of requests and providers (\<open>crates/domain/src/kind.rs\<close>,
  \<open>crates/domain/src/routing/credential_id.rs\<close>,
  \<open>crates/protocol/src/api/execution_profile.rs\<close>) and the limits of size and time that depend
  on them (\<open>crates/runtime/src/public_request/execution_limits.rs\<close>).

  Constructors carry a prefix for their enumeration: \<open>PK\<close> provider kind, \<open>PD\<close> protocol dialect,
  \<open>PO\<close> protocol operation, \<open>TM\<close> transport mode, \<open>EP\<close> execution profile. Identifiers (UUIDs in
  the code) are only compared and are natural numbers.
\<close>

section \<open>Identifiers\<close>

type_synonym endpoint_id = nat
type_synonym proxy_id = nat
type_synonym target_id = nat
type_synonym route_id = nat
type_synonym oauth_account_id = nat

datatype routing_credential_id = ProviderCredential nat | OAuthAccount oauth_account_id

fun oauth_account_id_of :: "routing_credential_id \<Rightarrow> oauth_account_id option" where
  "oauth_account_id_of (ProviderCredential _) = None"
| "oauth_account_id_of (OAuthAccount i) = Some i"

fun provider_credential_id_of :: "routing_credential_id \<Rightarrow> nat option" where
  "provider_credential_id_of (ProviderCredential i) = Some i"
| "provider_credential_id_of (OAuthAccount _) = None"

section \<open>Kinds\<close>

datatype provider_kind = PK_OpenAi | PK_Codex | PK_Claude | PK_Grok | PK_Kimi

fun provider_kind_as_str :: "provider_kind \<Rightarrow> string" where
  "provider_kind_as_str PK_OpenAi = ''openai''"
| "provider_kind_as_str PK_Codex = ''codex''"
| "provider_kind_as_str PK_Claude = ''claude''"
| "provider_kind_as_str PK_Grok = ''grok''"
| "provider_kind_as_str PK_Kimi = ''kimi''"

definition provider_kind_from_str :: "string \<Rightarrow> provider_kind option" where
  "provider_kind_from_str v =
     (if v = ''openai'' then Some PK_OpenAi
      else if v = ''codex'' then Some PK_Codex
      else if v = ''claude'' then Some PK_Claude
      else if v = ''grok'' then Some PK_Grok
      else if v = ''kimi'' then Some PK_Kimi
      else None)"

datatype protocol_dialect =
  PD_OpenAiResponses | PD_OpenAiChatCompletions | PD_OpenAiImages | PD_AnthropicMessages

datatype protocol_operation =
    PO_Responses | PO_ResponsesCompact | PO_AlphaSearch | PO_ChatCompletions
  | PO_ImagesGenerations | PO_ImagesEdits | PO_Messages | PO_MessagesCountTokens

fun operation_dialect :: "protocol_operation \<Rightarrow> protocol_dialect" where
  "operation_dialect PO_Responses = PD_OpenAiResponses"
| "operation_dialect PO_ResponsesCompact = PD_OpenAiResponses"
| "operation_dialect PO_AlphaSearch = PD_OpenAiResponses"
| "operation_dialect PO_ChatCompletions = PD_OpenAiChatCompletions"
| "operation_dialect PO_ImagesGenerations = PD_OpenAiImages"
| "operation_dialect PO_ImagesEdits = PD_OpenAiImages"
| "operation_dialect PO_Messages = PD_AnthropicMessages"
| "operation_dialect PO_MessagesCountTokens = PD_AnthropicMessages"

definition allows_stream :: "protocol_operation \<Rightarrow> bool" where
  "allows_stream op \<longleftrightarrow>
     op \<in> {PO_Responses, PO_ChatCompletions, PO_ImagesGenerations, PO_ImagesEdits, PO_Messages}"

datatype transport_mode = TM_Json | TM_Sse

datatype execution_profile = EP_Standard | EP_RemoteCompaction

fun requires_same_dialect :: "execution_profile \<Rightarrow> bool" where
  "requires_same_dialect EP_RemoteCompaction = True"
| "requires_same_dialect EP_Standard = False"

section \<open>Limits\<close>

abbreviation mebibytes :: "nat \<Rightarrow> nat" where
  "mebibytes n \<equiv> n * 1024 * 1024"

definition STANDARD_PUBLIC_REQUEST_BODY_LIMIT_BYTES :: nat where
  "STANDARD_PUBLIC_REQUEST_BODY_LIMIT_BYTES = mebibytes 32"
definition IMAGES_EDIT_REQUEST_BODY_LIMIT_BYTES :: nat where
  "IMAGES_EDIT_REQUEST_BODY_LIMIT_BYTES = mebibytes 64"
definition STANDARD_BUFFERED_RESPONSE_LIMIT_BYTES :: nat where
  "STANDARD_BUFFERED_RESPONSE_LIMIT_BYTES = mebibytes 16"
definition IMAGES_BUFFERED_RESPONSE_LIMIT_BYTES :: nat where
  "IMAGES_BUFFERED_RESPONSE_LIMIT_BYTES = mebibytes 64"
definition IMAGES_SSE_PRECOMMIT_LIMIT_BYTES :: nat where
  "IMAGES_SSE_PRECOMMIT_LIMIT_BYTES = mebibytes 64"
definition IMAGES_MINIMUM_TIMEOUT :: duration where
  "IMAGES_MINIMUM_TIMEOUT = from_secs 180"
definition REMOTE_COMPACTION_SSE_PRECOMMIT_LIMIT_BYTES :: nat where
  "REMOTE_COMPACTION_SSE_PRECOMMIT_LIMIT_BYTES = mebibytes 64"
definition REMOTE_COMPACTION_MINIMUM_TIMEOUT :: duration where
  "REMOTE_COMPACTION_MINIMUM_TIMEOUT = from_secs 300"
definition RESPONSES_COMPACT_MINIMUM_TIMEOUT :: duration where
  "RESPONSES_COMPACT_MINIMUM_TIMEOUT = from_secs 1200"

lemmas limit_defs =
  STANDARD_PUBLIC_REQUEST_BODY_LIMIT_BYTES_def IMAGES_EDIT_REQUEST_BODY_LIMIT_BYTES_def
  STANDARD_BUFFERED_RESPONSE_LIMIT_BYTES_def IMAGES_BUFFERED_RESPONSE_LIMIT_BYTES_def
  IMAGES_SSE_PRECOMMIT_LIMIT_BYTES_def IMAGES_MINIMUM_TIMEOUT_def
  REMOTE_COMPACTION_SSE_PRECOMMIT_LIMIT_BYTES_def REMOTE_COMPACTION_MINIMUM_TIMEOUT_def
  RESPONSES_COMPACT_MINIMUM_TIMEOUT_def

definition is_images :: "protocol_operation \<Rightarrow> bool" where
  "is_images op \<longleftrightarrow> op = PO_ImagesGenerations \<or> op = PO_ImagesEdits"

definition request_body_limit :: "protocol_operation \<Rightarrow> nat" where
  "request_body_limit op =
     (case op of
        PO_ImagesEdits \<Rightarrow> IMAGES_EDIT_REQUEST_BODY_LIMIT_BYTES
      | _ \<Rightarrow> STANDARD_PUBLIC_REQUEST_BODY_LIMIT_BYTES)"

definition buffered_response_limit :: "protocol_operation \<Rightarrow> bool \<Rightarrow> nat" where
  "buffered_response_limit op successful =
     (if successful \<and> is_images op then IMAGES_BUFFERED_RESPONSE_LIMIT_BYTES
      else STANDARD_BUFFERED_RESPONSE_LIMIT_BYTES)"

definition timeout_floor :: "protocol_operation \<Rightarrow> execution_profile \<Rightarrow> duration \<Rightarrow> duration" where
  "timeout_floor op profile configured =
     (case op of
        PO_ResponsesCompact \<Rightarrow> max configured RESPONSES_COMPACT_MINIMUM_TIMEOUT
      | _ \<Rightarrow>
          (if profile = EP_RemoteCompaction then max configured REMOTE_COMPACTION_MINIMUM_TIMEOUT
           else if is_images op then max configured IMAGES_MINIMUM_TIMEOUT
           else configured))"

definition read_timeout :: "protocol_operation \<Rightarrow> execution_profile \<Rightarrow> duration \<Rightarrow> duration" where
  "read_timeout op profile configured = timeout_floor op profile configured"

definition retry_budget_limit :: "protocol_operation \<Rightarrow> execution_profile \<Rightarrow> duration \<Rightarrow> duration" where
  "retry_budget_limit op profile configured = timeout_floor op profile configured"

definition stream_timeout :: "protocol_operation \<Rightarrow> execution_profile \<Rightarrow> duration \<Rightarrow> duration" where
  "stream_timeout op profile configured = timeout_floor op profile configured"

definition stream_precommit_bytes :: "protocol_operation \<Rightarrow> execution_profile \<Rightarrow> nat \<Rightarrow> nat" where
  "stream_precommit_bytes op profile configured =
     (if op = PO_Responses \<and> profile = EP_RemoteCompaction
      then max configured REMOTE_COMPACTION_SSE_PRECOMMIT_LIMIT_BYTES
      else if is_images op then IMAGES_SSE_PRECOMMIT_LIMIT_BYTES
      else configured)"

section \<open>What the limits guarantee\<close>

lemma timeout_floor_ge: "configured \<le> timeout_floor op profile configured"
  by (simp add: timeout_floor_def split: protocol_operation.split)

lemma timeout_floor_le:
  "timeout_floor op profile configured \<le> max configured RESPONSES_COMPACT_MINIMUM_TIMEOUT"
  by (auto simp: timeout_floor_def limit_defs split: protocol_operation.split)

lemma provider_kind_names: "provider_kind_from_str v = Some k \<longleftrightarrow> v = provider_kind_as_str k"
proof
  assume "provider_kind_from_str v = Some k"
  then show "v = provider_kind_as_str k"
    unfolding provider_kind_from_str_def
    by (auto split: if_split_asm simp del: list.inject char.inject)
next
  assume "v = provider_kind_as_str k"
  then show "provider_kind_from_str v = Some k"
    by (cases k) (simp_all add: provider_kind_from_str_def)
qed

end
