(* ===== verification/Protocol_Error.thy ===== *)
theory Protocol_Error
  imports Domain_Kinds
begin

text \<open>
  The errors of the protocol layer and the diagnostics that name a field or a value of a request
  (\<open>crates/protocol/src/error.rs\<close>). Texts are their UTF-8 bytes. A diagnostic repeats what the
  client sent only when that is a short token of harmless characters.
\<close>

datatype protocol_error =
    PE_DuplicateDialect protocol_dialect
  | PE_DuplicateBridge protocol_dialect protocol_dialect
  | PE_Unsupported string
  | PE_SessionBindingLost
  | PE_ContinuationTooLarge nat nat
  | PE_Internal string
  | PE_InvalidPayload string

definition is_ascii_alphanumeric :: "char \<Rightarrow> bool" where
  "is_ascii_alphanumeric c \<longleftrightarrow>
     (let b = of_char c :: nat in 48 \<le> b \<and> b \<le> 57 \<or> 65 \<le> b \<and> b \<le> 90 \<or> 97 \<le> b \<and> b \<le> 122)"

definition diagnostic_token :: "string \<Rightarrow> string option" where
  "diagnostic_token text =
     (if text \<noteq> [] \<and> length text \<le> 64 \<and>
         list_all (\<lambda>c. is_ascii_alphanumeric c \<or> c = CHR ''_'' \<or> c = CHR ''-'') text
      then Some text else None)"

definition unsupported_field :: "string option \<Rightarrow> string \<Rightarrow> protocol_error" where
  "unsupported_field scope field =
     PE_InvalidPayload
       (case (scope, diagnostic_token field) of
          (Some scope, Some field) \<Rightarrow>
            ''unsupported field '' @ [CHR 0x60] @ scope @ ''.'' @ field @ [CHR 0x60]
        | (Some scope, None) \<Rightarrow> ''unsupported field under '' @ [CHR 0x60] @ scope @ [CHR 0x60]
        | (None, Some field) \<Rightarrow> ''unsupported field '' @ [CHR 0x60] @ field @ [CHR 0x60]
        | (None, None) \<Rightarrow> ''request contains an unsupported field'')"

definition unsupported_value :: "string \<Rightarrow> string \<Rightarrow> protocol_error" where
  "unsupported_value label text =
     PE_InvalidPayload
       (case diagnostic_token text of
          None \<Rightarrow> label @ '' is unsupported''
        | Some text \<Rightarrow> label @ '' '' @ [CHR 0x60] @ text @ [CHR 0x60] @ '' is unsupported'')"

fun error_text :: "protocol_error \<Rightarrow> string" where
  "error_text (PE_Unsupported text) = text"
| "error_text (PE_Internal text) = text"
| "error_text (PE_InvalidPayload text) = text"
| "error_text _ = []"

lemma diagnostic_token_cases:
  obtains "diagnostic_token t = None" | "diagnostic_token t = Some t" "length t \<le> 64"
    "\<forall>c \<in> set t. is_ascii_alphanumeric c \<or> c = CHR ''_'' \<or> c = CHR ''-''"
  by (cases "diagnostic_token t") (auto simp: diagnostic_token_def list_all_iff split: if_splits)

text \<open>Two requests whose field is no short harmless token get the same diagnostic: nothing of the
  field is repeated. And the diagnostic is longer than the scope by a constant at most.\<close>

lemma unsupported_field_hides:
  "diagnostic_token f = None \<Longrightarrow> diagnostic_token g = None \<Longrightarrow> unsupported_field scope f = unsupported_field scope g"
  by (simp add: unsupported_field_def)

lemma unsupported_field_bound:
  "length (error_text (unsupported_field scope field)) \<le> (case scope of None \<Rightarrow> 0 | Some s \<Rightarrow> length s) + 85"
  by (cases field rule: diagnostic_token_cases) (auto simp: unsupported_field_def split: option.splits)

lemma unsupported_value_bound:
  "length (error_text (unsupported_value label msg)) \<le> length label + 82"
  by (cases msg rule: diagnostic_token_cases) (auto simp: unsupported_value_def)

end
