(* ===== verification/Sse_Decoder.thy ===== *)
theory Sse_Decoder
  imports Payload_Buffer Protocol_Error
begin

text \<open>
  The incremental SSE frame decoder of \<open>crates/protocol/src/sse/decoder.rs\<close> and the loop that
  drives it over the chunks of an upstream body
  (\<open>process_buffered_frame\<close> and \<open>finish_decoder\<close> of
  \<open>crates/runtime/src/public_request/stream/frame_pipeline.rs\<close>).

  A frame ends after two consecutive line endings, where a line ending is LF, CRLF or a CR that
  another byte follows. The decoder looks for that end in the last three buffered bytes and the
  new input only. The theory shows that this is the same as searching the whole stream
  (\<open>event_end_after_append_correct\<close>), and that the frames a body yields do not depend on how
  the network cut it into chunks (\<open>decode_chunks_spec\<close>).
\<close>

section \<open>The decoder\<close>

record sse_decoder =
  dec_buffer :: payload_buffer
  dec_max_frame_bytes :: nat
  dec_frame_ready :: bool

definition sse_decoder_new :: "nat \<Rightarrow> sse_decoder" where
  "sse_decoder_new max_frame_bytes =
     (let m = max max_frame_bytes 1 in
      \<lparr> dec_buffer = pb_new (saturating_add_usize m 1),
        dec_max_frame_bytes = m,
        dec_frame_ready = False \<rparr>)"

definition buffer_error :: "payload_buffer_error \<Rightarrow> protocol_error" where
  "buffer_error e = PE_Internal ''SSE frame allocation failed''"

definition frame_limit_error :: protocol_error where
  "frame_limit_error = PE_InvalidPayload ''SSE frame exceeded the configured limit''"

definition line_ending_len :: "byte list \<Rightarrow> nat \<Rightarrow> nat option" where
  "line_ending_len bytes index =
     (if index < length bytes then
        (if bytes ! index = 10 then Some 1
         else if bytes ! index = 13 then
           (if index + 1 < length bytes
            then (if bytes ! (index + 1) = 10 then Some 2 else Some 1)
            else None)
         else None)
      else None)"

function find_event_end_from :: "byte list \<Rightarrow> nat \<Rightarrow> nat option" where
  "find_event_end_from bytes index =
     (if index < length bytes then
        (case line_ending_len bytes index of
           None \<Rightarrow> find_event_end_from bytes (Suc index)
         | Some fst_len \<Rightarrow>
             (case line_ending_len bytes (index + fst_len) of
                Some snd_len \<Rightarrow> Some (index + fst_len + snd_len)
              | None \<Rightarrow> find_event_end_from bytes (Suc index)))
      else None)"
  by pat_completeness auto
termination
  by (relation "measure (\<lambda>(bytes, index). length bytes - index)") auto

declare find_event_end_from.simps [simp del]

definition find_event_end :: "byte list \<Rightarrow> nat \<Rightarrow> nat option" where
  "find_event_end bytes start = find_event_end_from bytes (min start (length bytes))"

definition BOUNDARY_BYTES :: nat where "BOUNDARY_BYTES = 3"
definition PREFIX_BYTES :: nat where "PREFIX_BYTES = 4"

definition event_end_after_append :: "byte list \<Rightarrow> byte list \<Rightarrow> nat option" where
  "event_end_after_append buffer input =
     (let tail = drop (length buffer - BOUNDARY_BYTES) buffer;
          prefix = take (min (length input) PREFIX_BYTES) input;
          crossing = (case find_event_end (tail @ prefix) 0 of
                        None \<Rightarrow> None
                      | Some e \<Rightarrow> if length tail \<le> e then Some (e - length tail) else None);
          within_input = find_event_end input 0
      in case (crossing, within_input) of
           (Some l, Some r) \<Rightarrow> Some (min l r)
         | (Some e, None) \<Rightarrow> Some e
         | (None, Some e) \<Rightarrow> Some e
         | (None, None) \<Rightarrow> None)"

definition next_input_limit :: "sse_decoder \<Rightarrow> nat" where
  "next_input_limit d =
     (if dec_frame_ready d then 0
      else saturating_add_usize (dec_max_frame_bytes d - pb_len (dec_buffer d)) 1)"

text \<open>\<open>push\<close> returns the new decoder and the number of bytes it consumed.\<close>

definition push ::
  "allocator \<Rightarrow> sse_decoder \<Rightarrow> byte list \<Rightarrow> (protocol_error, sse_decoder \<times> nat) exec" where
  "push A d chunk =
     (if chunk = [] \<or> dec_frame_ready d then Returns (d, 0)
      else
        (let input = take (min (next_input_limit d) (length chunk)) chunk;
             event_end = event_end_after_append (as_slice (dec_buffer d)) input;
             consumed = (case event_end of Some e \<Rightarrow> e | None \<Rightarrow> length input)
         in if length input < consumed then Panics
            else bind_exec
              (map_err_exec buffer_error
                 (extend_from_slice A (dec_buffer d) (take consumed input)))
              (\<lambda>b. Returns (d\<lparr>dec_buffer := b, dec_frame_ready := event_end \<noteq> None\<rparr>, consumed))))"

definition check_buffer_limit :: "sse_decoder \<Rightarrow> (protocol_error, unit) exec" where
  "check_buffer_limit d =
     (if dec_max_frame_bytes d < pb_len (dec_buffer d) then Fails frame_limit_error
      else Returns ())"

text \<open>\<open>next_frame\<close> and \<open>finish\<close> return the new decoder and the frame they hand out.\<close>

definition take_frame :: "sse_decoder \<Rightarrow> sse_decoder \<times> byte list option" where
  "take_frame d =
     (d\<lparr>dec_buffer := pb_new (saturating_add_usize (dec_max_frame_bytes d) 1),
        dec_frame_ready := False\<rparr>,
      Some (fst (freeze (dec_buffer d))))"

definition next_frame ::
  "sse_decoder \<Rightarrow> (protocol_error, sse_decoder \<times> byte list option) exec" where
  "next_frame d =
     (if \<not> dec_frame_ready d
      then bind_exec (check_buffer_limit d) (\<lambda>_. Returns (d, None))
      else bind_exec (check_buffer_limit d) (\<lambda>_. Returns (take_frame d)))"

definition finish ::
  "sse_decoder \<Rightarrow> (protocol_error, sse_decoder \<times> byte list option) exec" where
  "finish d =
     (if pb_is_empty (dec_buffer d) then Returns (d, None)
      else bind_exec (check_buffer_limit d) (\<lambda>_. Returns (take_frame d)))"

section \<open>The pipeline around the decoder\<close>

text \<open>
  \<open>process_buffered_frame\<close> hands out at most one frame: it asks the decoder for a frame, and
  while there is none feeds it from the buffered chunk. What becomes of a frame
  (\<open>push_frame\<close>) is the caller's; the step only reports it.
\<close>

datatype pipeline_step =
    StepPanics
  | StepFails protocol_error
  | Yields "byte list" sse_decoder "byte list option"
  | Waits sse_decoder

function process_buffered_frame ::
  "allocator \<Rightarrow> sse_decoder \<Rightarrow> byte list option \<Rightarrow> pipeline_step" where
  "process_buffered_frame A d buffered_chunk =
     (case next_frame d of
        Panics \<Rightarrow> StepPanics
      | Fails e \<Rightarrow> StepFails e
      | Returns (d1, Some frame) \<Rightarrow> Yields frame d1 buffered_chunk
      | Returns (d1, None) \<Rightarrow>
          (case buffered_chunk of
             None \<Rightarrow> Waits d1
           | Some chunk \<Rightarrow>
               (case push A d1 (take (min (next_input_limit d1) (length chunk)) chunk) of
                  Panics \<Rightarrow> StepPanics
                | Fails e \<Rightarrow> StepFails e
                | Returns (d2, consumed) \<Rightarrow>
                    process_buffered_frame A d2
                      (if drop consumed chunk = [] then None else Some (drop consumed chunk)))))"
  by pat_completeness auto

definition pipeline_measure :: "sse_decoder \<Rightarrow> byte list option \<Rightarrow> nat" where
  "pipeline_measure d buffered_chunk =
     (case buffered_chunk of
        None \<Rightarrow> 0
      | Some chunk \<Rightarrow> Suc (length chunk) + (if dec_frame_ready d then 0 else 1))"

lemma next_frame_None:
  "next_frame d = Returns (d1, None) \<Longrightarrow>
   d1 = d \<and> \<not> dec_frame_ready d \<and> pb_len (dec_buffer d) \<le> dec_max_frame_bytes d"
  by (auto simp: next_frame_def take_frame_def check_buffer_limit_def split: if_splits)

lemma next_input_limit_pos: "\<not> dec_frame_ready d \<Longrightarrow> 1 \<le> next_input_limit d"
  by (simp add: next_input_limit_def saturating_add_usize_def usize_max_def)

text \<open>A push that consumes nothing has completed a frame.\<close>

lemma push_progress:
  "push A d xs = Returns (d', n) \<Longrightarrow> \<not> dec_frame_ready d \<Longrightarrow> xs \<noteq> [] \<Longrightarrow>
   0 < n \<or> dec_frame_ready d'"
  using next_input_limit_pos [of d]
  by (auto simp: push_def Let_def bind_exec_Returns_iff split: if_splits option.splits)

termination process_buffered_frame
proof (relation "measure (\<lambda>(A, d, c). pipeline_measure d c)", goal_cases)
  case (2 A d c r d1 fr chunk r2 d2 consumed)
  then have "next_frame d = Returns (d, None)" "\<not> dec_frame_ready d" "d1 = d"
    using next_frame_None by auto
  with 2 push_progress [of A d "take (min (next_input_limit d) (length chunk)) chunk" d2 consumed]
    next_input_limit_pos [of d]
  show ?case
    by (cases chunk) (auto simp: pipeline_measure_def)
qed simp

section \<open>Where an event ends\<close>

text \<open>
  \<open>event_end_at xs i e\<close>: the two line endings starting at \<open>i\<close> end at \<open>e\<close>. The search returns
  the end for the least such \<open>i\<close>; ends are monotone in \<open>i\<close>, so it is also the least end.
\<close>

definition event_end_at :: "byte list \<Rightarrow> nat \<Rightarrow> nat \<Rightarrow> bool" where
  "event_end_at xs i e \<longleftrightarrow>
     (\<exists>f s. line_ending_len xs i = Some f \<and> line_ending_len xs (i + f) = Some s \<and> e = i + f + s)"

lemma line_ending_len_bounds:
  "line_ending_len xs i = Some n \<Longrightarrow> 1 \<le> n \<and> n \<le> 2 \<and> i + n \<le> length xs"
  by (auto simp: line_ending_len_def split: if_splits)

lemma line_ending_len_two:
  "line_ending_len xs i = Some 2 \<Longrightarrow> line_ending_len xs (Suc i) = Some 1"
  by (auto simp: line_ending_len_def split: if_splits)

lemma event_end_at_functional: "event_end_at xs i e \<Longrightarrow> event_end_at xs i e' \<Longrightarrow> e = e'"
  by (auto simp: event_end_at_def)

lemma event_end_at_bounds:
  "event_end_at xs i e \<Longrightarrow> i + 2 \<le> e \<and> e \<le> i + 4 \<and> e \<le> length xs"
  by (auto simp: event_end_at_def dest!: line_ending_len_bounds)

lemma event_end_at_mono:
  assumes "event_end_at xs i e" "event_end_at xs j e'" "i \<le> j"
  shows "e \<le> e'"
proof -
  from assms(1) obtain f s where f: "line_ending_len xs i = Some f"
    and s: "line_ending_len xs (i + f) = Some s" and e: "e = i + f + s"
    by (auto simp: event_end_at_def)
  from assms(2) obtain f' s' where f': "line_ending_len xs j = Some f'"
    and s': "line_ending_len xs (j + f') = Some s'" and e': "e' = j + f' + s'"
    by (auto simp: event_end_at_def)
  note b = line_ending_len_bounds [OF f] line_ending_len_bounds [OF s]
    line_ending_len_bounds [OF f'] line_ending_len_bounds [OF s']
  consider "j = i" | "j = Suc i" "f = 2" | "i + f \<le> j"
    using assms(3) b by linarith
  then show ?thesis
  proof cases
    case 1
    then show ?thesis
      using assms event_end_at_functional by blast
  next
    case 2
    then have "f' = 1"
      using f f' line_ending_len_two by fastforce
    then show ?thesis
      using 2 s s' e e' by simp
  next
    case 3
    then show ?thesis
      using b e e' by linarith
  qed
qed

lemma find_event_end_from_Some:
  "find_event_end_from xs i = Some e \<Longrightarrow>
   \<exists>j\<ge>i. event_end_at xs j e \<and> (\<forall>k e'. i \<le> k \<and> k < j \<longrightarrow> \<not> event_end_at xs k e')"
proof (induction xs i rule: find_event_end_from.induct)
  case (1 xs i)
  show ?case
  proof (cases "\<exists>e'. event_end_at xs i e'")
    case True
    then have "event_end_at xs i e"
      using "1.prems" line_ending_len_bounds
      by (fastforce simp: event_end_at_def find_event_end_from.simps [of xs i] split: option.splits)
    then show ?thesis by auto
  next
    case False
    then have next_step: "find_event_end_from xs (Suc i) = Some e" and lt: "i < length xs"
      using "1.prems"
      by (auto simp: event_end_at_def find_event_end_from.simps [of xs i]
          split: option.splits if_splits)
    have "\<exists>j\<ge>Suc i. event_end_at xs j e \<and>
            (\<forall>k e'. Suc i \<le> k \<and> k < j \<longrightarrow> \<not> event_end_at xs k e')"
    proof (cases "line_ending_len xs i")
      case None
      then show ?thesis using "1.IH"(1) lt next_step by blast
    next
      case (Some f)
      then have "line_ending_len xs (i + f) = None"
        using False by (cases "line_ending_len xs (i + f)") (auto simp: event_end_at_def)
      then show ?thesis using "1.IH"(2) lt next_step Some by blast
    qed
    then show ?thesis
      using False by (metis Suc_leD Suc_leI le_eq_less_or_eq)
  qed
qed

lemma find_event_end_from_None:
  "find_event_end_from xs i = None \<Longrightarrow> i \<le> k \<Longrightarrow> \<not> event_end_at xs k e"
proof (induction xs i rule: find_event_end_from.induct)
  case (1 xs i)
  show ?case
  proof (cases "i < length xs")
    case False
    then show ?thesis
      using "1.prems" by (auto simp: event_end_at_def dest!: line_ending_len_bounds)
  next
    case True
    show ?thesis
    proof (cases "line_ending_len xs i")
      case None
      then have "find_event_end_from xs (Suc i) = None"
        using "1.prems"(1) True by (simp add: find_event_end_from.simps [of xs i])
      then show ?thesis
        using "1.IH"(1) True None "1.prems"(2)
        by (cases "k = i") (auto simp: event_end_at_def)
    next
      case (Some f)
      then have none: "line_ending_len xs (i + f) = None"
        and step: "find_event_end_from xs (Suc i) = None"
        using "1.prems"(1) True
        by (auto simp: find_event_end_from.simps [of xs i] split: option.splits)
      then show ?thesis
        using "1.IH"(2) [OF True Some none step] Some "1.prems"(2)
        by (cases "k = i") (auto simp: event_end_at_def)
    qed
  qed
qed

text \<open>The search returns the least end of all positions, and nothing when there is none.\<close>

lemma find_event_end_Some_iff:
  "find_event_end xs 0 = Some e \<longleftrightarrow>
     (\<exists>i. event_end_at xs i e) \<and> (\<forall>i e'. event_end_at xs i e' \<longrightarrow> e \<le> e')"
proof
  assume "find_event_end xs 0 = Some e"
  then obtain j where j: "event_end_at xs j e" "\<forall>k e'. k < j \<longrightarrow> \<not> event_end_at xs k e'"
    using find_event_end_from_Some [of xs 0 e] by (auto simp: find_event_end_def)
  moreover have "e \<le> e'" if "event_end_at xs i e'" for i e'
    using j that event_end_at_mono [OF j(1) that] by (meson not_le_imp_less)
  ultimately show "(\<exists>i. event_end_at xs i e) \<and> (\<forall>i e'. event_end_at xs i e' \<longrightarrow> e \<le> e')"
    by blast
next
  assume r: "(\<exists>i. event_end_at xs i e) \<and> (\<forall>i e'. event_end_at xs i e' \<longrightarrow> e \<le> e')"
  show "find_event_end xs 0 = Some e"
  proof (cases "find_event_end xs 0")
    case None
    then show ?thesis
      using r find_event_end_from_None [of xs 0] by (auto simp: find_event_end_def)
  next
    case (Some e')
    then obtain j where "event_end_at xs j e'" "\<forall>k e''. k < j \<longrightarrow> \<not> event_end_at xs k e''"
      using find_event_end_from_Some [of xs 0 e'] by (auto simp: find_event_end_def)
    then have "e' = e"
      using r event_end_at_mono by (meson le_antisym not_le_imp_less)
    with Some show ?thesis by simp
  qed
qed

lemma find_event_end_None_iff:
  "find_event_end xs 0 = None \<longleftrightarrow> (\<forall>i e. \<not> event_end_at xs i e)"
  using find_event_end_from_None [of xs 0] find_event_end_Some_iff [of xs]
  by (cases "find_event_end xs 0") (auto simp: find_event_end_def)

lemma find_event_end_bounds:
  "find_event_end xs 0 = Some e \<Longrightarrow> 2 \<le> e \<and> e \<le> length xs"
  using event_end_at_bounds by (fastforce simp: find_event_end_Some_iff)

section \<open>Searching only around the seam\<close>

definition event_ends :: "byte list \<Rightarrow> nat set" where
  "event_ends xs = {e. \<exists>i. event_end_at xs i e}"

lemma find_event_end_least:
  "find_event_end xs 0 = Some e \<longleftrightarrow> e \<in> event_ends xs \<and> (\<forall>e' \<in> event_ends xs. e \<le> e')"
  by (auto simp: find_event_end_Some_iff event_ends_def)

lemma find_event_end_empty: "find_event_end xs 0 = None \<longleftrightarrow> event_ends xs = {}"
  by (auto simp: find_event_end_None_iff event_ends_def)

lemma line_ending_len_shift: "line_ending_len (xs @ ys) (length xs + k) = line_ending_len ys k"
  by (auto simp: line_ending_len_def nth_append)

lemma line_ending_len_prefix: "line_ending_len xs i = Some n \<Longrightarrow> line_ending_len (xs @ ys) i = Some n"
  by (auto simp: line_ending_len_def nth_append split: if_splits)

lemma line_ending_len_cut:
  "line_ending_len (xs @ ys) i = Some n \<Longrightarrow> i + n < length xs \<Longrightarrow> line_ending_len xs i = Some n"
  by (auto simp: line_ending_len_def nth_append split: if_splits)

lemma line_ending_len_cut_two:
  "line_ending_len (xs @ ys) i = Some 2 \<Longrightarrow> i + 2 \<le> length xs \<Longrightarrow> line_ending_len xs i = Some 2"
  by (auto simp: line_ending_len_def nth_append split: if_splits)

lemma event_end_at_shift:
  "event_end_at (xs @ ys) (length xs + k) e \<longleftrightarrow>
     length xs \<le> e \<and> event_end_at ys k (e - length xs)"
proof -
  have "line_ending_len (xs @ ys) (length xs + k + f) = line_ending_len ys (k + f)" for f
    using line_ending_len_shift [of xs ys "k + f"] by (simp add: add.assoc)
  then show ?thesis
    by (auto simp: event_end_at_def line_ending_len_shift)
qed

lemma event_end_at_prefix: "event_end_at xs i e \<Longrightarrow> event_end_at (xs @ ys) i e"
  by (auto simp: event_end_at_def dest: line_ending_len_prefix)

lemma event_end_at_cut:
  assumes "event_end_at (xs @ ys) i e" "e < length xs"
  shows "event_end_at xs i e"
proof -
  from assms(1) obtain f s where f: "line_ending_len (xs @ ys) i = Some f"
    and s: "line_ending_len (xs @ ys) (i + f) = Some s" and e: "e = i + f + s"
    by (auto simp: event_end_at_def)
  have "line_ending_len xs i = Some f"
    using f assms(2) e by (intro line_ending_len_cut [of xs ys]) auto
  moreover have "line_ending_len xs (i + f) = Some s"
    using s assms(2) e by (intro line_ending_len_cut [of xs ys]) auto
  ultimately show ?thesis
    using e by (auto simp: event_end_at_def)
qed

lemma event_end_at_cut_far:
  assumes "event_end_at (xs @ ys) i e" "i + 4 \<le> length xs"
  shows "event_end_at xs i e"
proof (cases "e < length xs")
  case True
  then show ?thesis using assms event_end_at_cut by blast
next
  case False
  from assms(1) obtain f s where f: "line_ending_len (xs @ ys) i = Some f"
    and s: "line_ending_len (xs @ ys) (i + f) = Some s" and e: "e = i + f + s"
    by (auto simp: event_end_at_def)
  have two: "f = 2" "s = 2"
    using line_ending_len_bounds [OF f] line_ending_len_bounds [OF s] False assms(2) e by auto
  then have "line_ending_len xs i = Some 2" "line_ending_len xs (i + 2) = Some 2"
    using f s assms(2) by (auto intro!: line_ending_len_cut_two [of xs ys])
  then show ?thesis
    using e two by (auto simp: event_end_at_def)
qed

text \<open>Every event of two joined pieces starts in the second or lies in the seam.\<close>

lemma event_ends_seam:
  "event_ends (tail @ input) =
     event_ends (tail @ take (min (length input) PREFIX_BYTES) input) \<union>
     (\<lambda>e. length tail + e) ` event_ends input"
  (is "?whole = ?crossing \<union> ?inside")
proof
  show "?whole \<subseteq> ?crossing \<union> ?inside"
  proof
    fix e assume "e \<in> ?whole"
    then obtain i where i: "event_end_at (tail @ input) i e"
      by (auto simp: event_ends_def)
    show "e \<in> ?crossing \<union> ?inside"
    proof (cases "length tail \<le> i")
      case True
      then have "length tail \<le> e \<and> event_end_at input (i - length tail) (e - length tail)"
        using i event_end_at_shift [of tail input "i - length tail" e] by simp
      then have "e \<in> ?inside"
        by (intro image_eqI [of _ _ "e - length tail"]) (auto simp: event_ends_def)
      then show ?thesis ..
    next
      case False
      have "event_end_at (tail @ take (min (length input) PREFIX_BYTES) input) i e"
      proof (cases "length input \<le> PREFIX_BYTES")
        case True
        then show ?thesis using i by simp
      next
        case long: False
        have whole: "event_end_at ((tail @ take PREFIX_BYTES input) @ drop PREFIX_BYTES input) i e"
          using i by simp
        have "e < length (tail @ take PREFIX_BYTES input)"
          using event_end_at_bounds [OF i] False long by (simp add: PREFIX_BYTES_def)
        then have "event_end_at (tail @ take PREFIX_BYTES input) i e"
          by (rule event_end_at_cut [OF whole])
        then show ?thesis
          using long by (simp add: min_def)
      qed
      then show ?thesis
        by (auto simp: event_ends_def)
    qed
  qed
next
  have "event_end_at (tail @ input) i e"
    if "event_end_at (tail @ take (min (length input) PREFIX_BYTES) input) i e" for i e
    using event_end_at_prefix [OF that, of "drop (min (length input) PREFIX_BYTES) input"]
    by simp
  moreover have "event_end_at (tail @ input) (length tail + i) (length tail + e)"
    if "event_end_at input i e" for i e
    using that by (simp add: event_end_at_shift)
  ultimately show "?crossing \<union> ?inside \<subseteq> ?whole"
    by (fastforce simp: event_ends_def)
qed

text \<open>With no event in the buffer, an event of the joined bytes lies in the last three bytes on.\<close>

lemma event_ends_tail:
  assumes none: "event_ends buffer = {}"
  defines "pre \<equiv> take (length buffer - BOUNDARY_BYTES) buffer"
    and "tail \<equiv> drop (length buffer - BOUNDARY_BYTES) buffer"
  shows "event_ends (buffer @ input) = (\<lambda>e. length pre + e) ` event_ends (tail @ input)"
    and "e \<in> event_ends (tail @ input) \<Longrightarrow> length tail \<le> e"
proof -
  have split: "buffer @ input = pre @ (tail @ input)" and buf: "buffer = pre @ tail"
    by (simp_all add: pre_def tail_def)
  have start: "length pre \<le> i" if "event_end_at (buffer @ input) i e" for i e
  proof (rule ccontr)
    assume "\<not> length pre \<le> i"
    then have "i + 4 \<le> length buffer"
      by (simp add: pre_def BOUNDARY_BYTES_def)
    then have "event_end_at buffer i e"
      using event_end_at_cut_far that by blast
    then show False
      using none by (auto simp: event_ends_def)
  qed
  show "event_ends (buffer @ input) = (\<lambda>e. length pre + e) ` event_ends (tail @ input)"
  proof
    show "event_ends (buffer @ input) \<subseteq> (\<lambda>e. length pre + e) ` event_ends (tail @ input)"
    proof
      fix e assume "e \<in> event_ends (buffer @ input)"
      then obtain i where "event_end_at (buffer @ input) i e"
        by (auto simp: event_ends_def)
      then have i: "event_end_at (pre @ (tail @ input)) i e" "length pre \<le> i"
        using start unfolding split by blast+
      then have "length pre \<le> e \<and> event_end_at (tail @ input) (i - length pre) (e - length pre)"
        using event_end_at_shift [of pre "tail @ input" "i - length pre" e] by simp
      then show "e \<in> (\<lambda>e. length pre + e) ` event_ends (tail @ input)"
        by (intro image_eqI [of _ _ "e - length pre"]) (auto simp: event_ends_def)
    qed
    show "(\<lambda>e. length pre + e) ` event_ends (tail @ input) \<subseteq> event_ends (buffer @ input)"
      unfolding split using event_end_at_shift [of pre "tail @ input"]
      by (fastforce simp: event_ends_def)
  qed
  show "length tail \<le> e" if e: "e \<in> event_ends (tail @ input)"
  proof (rule ccontr)
    assume "\<not> length tail \<le> e"
    then obtain i where "event_end_at tail i e"
      using e event_end_at_cut [of tail input] unfolding event_ends_def by force
    then have "event_end_at (pre @ tail) (length pre + i) (length pre + e)"
      by (simp add: event_end_at_shift)
    then have "event_end_at buffer (length pre + i) (length pre + e)"
      by (simp flip: buf)
    then show False
      using none by (auto simp: event_ends_def)
  qed
qed

lemma find_event_end_shift_union:
  assumes whole: "event_ends zs = (\<lambda>e. a + e) ` (event_ends xs \<union> (\<lambda>e. b + e) ` event_ends ys)"
    and late: "\<And>e. e \<in> event_ends xs \<Longrightarrow> b \<le> e"
  shows "map_option (\<lambda>e. e - (a + b)) (find_event_end zs 0) =
     (case (map_option (\<lambda>e. e - b) (find_event_end xs 0), find_event_end ys 0) of
         (Some l, Some r) \<Rightarrow> Some (min l r) | (Some e, None) \<Rightarrow> Some e
       | (None, Some e) \<Rightarrow> Some e | (None, None) \<Rightarrow> None)"
proof (cases "find_event_end xs 0"; cases "find_event_end ys 0")
  assume n: "find_event_end xs 0 = None" "find_event_end ys 0 = None"
  then have "find_event_end zs 0 = None"
    using whole by (simp add: find_event_end_empty)
  with n show ?thesis by simp
next
  fix r assume n: "find_event_end xs 0 = None" "find_event_end ys 0 = Some r"
  then have "find_event_end zs 0 = Some (a + (b + r))"
    using whole by (auto simp: find_event_end_least find_event_end_empty)
  with n show ?thesis by simp
next
  fix l assume n: "find_event_end xs 0 = Some l" "find_event_end ys 0 = None"
  then have "find_event_end zs 0 = Some (a + l)"
    using whole by (auto simp: find_event_end_least find_event_end_empty)
  with n show ?thesis by simp
next
  fix l r assume n: "find_event_end xs 0 = Some l" "find_event_end ys 0 = Some r"
  then have "find_event_end zs 0 = Some (a + min l (b + r))" and "b \<le> l"
    using whole late by (auto simp: find_event_end_least min_def)
  with n show ?thesis by (auto simp: min_def)
qed

text \<open>
  The two-window search of \<open>event_end_after_append\<close> is the search over all bytes received so
  far: it reports, relative to the input, the first event end of the joined bytes.
\<close>

lemma event_end_after_append_correct:
  assumes none: "find_event_end buffer 0 = None"
  shows "event_end_after_append buffer input =
           map_option (\<lambda>e. e - length buffer) (find_event_end (buffer @ input) 0)"
    and "find_event_end (buffer @ input) 0 = Some e \<Longrightarrow> length buffer \<le> e"
proof -
  define pre where "pre = take (length buffer - BOUNDARY_BYTES) buffer"
  define tail where "tail = drop (length buffer - BOUNDARY_BYTES) buffer"
  define prefix where "prefix = take (min (length input) PREFIX_BYTES) input"
  have len: "length buffer = length pre + length tail"
    by (simp add: pre_def tail_def)
  have no: "event_ends buffer = {}"
    using none by (simp add: find_event_end_empty)
  have whole: "event_ends (buffer @ input) = (\<lambda>e. length pre + e) ` event_ends (tail @ input)"
    and late: "\<And>e. e \<in> event_ends (tail @ input) \<Longrightarrow> length tail \<le> e"
    using event_ends_tail [OF no] by (auto simp: pre_def tail_def)
  have seam: "event_ends (tail @ input) =
      event_ends (tail @ prefix) \<union> (\<lambda>e. length tail + e) ` event_ends input"
    unfolding prefix_def by (rule event_ends_seam)
  show "length buffer \<le> e" if "find_event_end (buffer @ input) 0 = Some e" for e
    using that late len by (auto simp: find_event_end_least whole)
  have crossing: "(case find_event_end (tail @ prefix) 0 of
                     None \<Rightarrow> None
                   | Some e \<Rightarrow> if length tail \<le> e then Some (e - length tail) else None) =
                  map_option (\<lambda>e. e - length tail) (find_event_end (tail @ prefix) 0)"
  proof (cases "find_event_end (tail @ prefix) 0")
    case (Some e)
    then have "length tail \<le> e"
      using late seam by (simp add: find_event_end_least)
    with Some show ?thesis by simp
  qed simp
  have step: "event_end_after_append buffer input =
      (case (map_option (\<lambda>e. e - length tail) (find_event_end (tail @ prefix) 0),
             find_event_end input 0) of
         (Some l, Some r) \<Rightarrow> Some (min l r) | (Some e, None) \<Rightarrow> Some e
       | (None, Some e) \<Rightarrow> Some e | (None, None) \<Rightarrow> None)"
    by (simp only: event_end_after_append_def Let_def flip: tail_def prefix_def crossing)
  show "event_end_after_append buffer input =
          map_option (\<lambda>e. e - length buffer) (find_event_end (buffer @ input) 0)"
    unfolding step len
    by (rule find_event_end_shift_union [symmetric]) (use whole seam late in auto)
qed

lemma find_event_end_extend:
  assumes "find_event_end xs 0 = Some e"
  shows "find_event_end (xs @ ys) 0 = Some e"
proof -
  have e: "e \<in> event_ends xs" "\<forall>e' \<in> event_ends xs. e \<le> e'"
    using assms by (auto simp: find_event_end_least)
  have "e \<le> length xs"
    using find_event_end_bounds [OF assms] by simp
  moreover have "e' \<in> event_ends xs" if "e' \<in> event_ends (xs @ ys)" "e' < length xs" for e'
    using that event_end_at_cut by (fastforce simp: event_ends_def)
  moreover have "e \<in> event_ends (xs @ ys)"
    using e event_end_at_prefix by (fastforce simp: event_ends_def)
  ultimately show ?thesis
    using e by (auto simp: find_event_end_least) (meson not_le_imp_less order_trans)
qed

section \<open>Decoding a whole body\<close>

text \<open>
  \<open>drain\<close> repeats \<open>process_buffered_frame\<close> until it needs input, as the loops of
  \<open>prime_attempt\<close> and \<open>poll_next\<close> do; each frame it yields is the next one downstream. Its fuel
  is one more than the bytes it has to hand, which \<open>drain_spec\<close> shows is enough.
  \<open>decode_chunks\<close> feeds the chunks of a body in turn and finishes the decoder at the end.
\<close>

datatype stream_end = Ended | StreamPanics | StreamFails protocol_error | OutOfFuel

fun drain ::
  "nat \<Rightarrow> allocator \<Rightarrow> sse_decoder \<Rightarrow> byte list option \<Rightarrow>
     byte list list \<times> (stream_end + sse_decoder)" where
  "drain 0 A d c = ([], Inl OutOfFuel)"
| "drain (Suc fuel) A d c =
     (case process_buffered_frame A d c of
        StepPanics \<Rightarrow> ([], Inl StreamPanics)
      | StepFails e \<Rightarrow> ([], Inl (StreamFails e))
      | Waits d' \<Rightarrow> ([], Inr d')
      | Yields frame d' c' \<Rightarrow>
          (let (frames, r) = drain fuel A d' c' in (frame # frames, r)))"

definition drain_chunk ::
  "allocator \<Rightarrow> sse_decoder \<Rightarrow> byte list \<Rightarrow> byte list list \<times> (stream_end + sse_decoder)" where
  "drain_chunk A d chunk =
     drain (Suc (pb_len (dec_buffer d) + length chunk)) A d
       (if chunk = [] then None else Some chunk)"

definition finish_decoder :: "sse_decoder \<Rightarrow> byte list list \<times> stream_end" where
  "finish_decoder d =
     (case finish d of
        Panics \<Rightarrow> ([], StreamPanics)
      | Fails e \<Rightarrow> ([], StreamFails e)
      | Returns (d', None) \<Rightarrow> ([], Ended)
      | Returns (d', Some frame) \<Rightarrow> ([frame], Ended))"

fun decode_chunks ::
  "allocator \<Rightarrow> sse_decoder \<Rightarrow> byte list list \<Rightarrow> byte list list \<times> stream_end" where
  "decode_chunks A d [] = finish_decoder d"
| "decode_chunks A d (chunk # chunks) =
     (case drain_chunk A d chunk of
        (frames, Inl r) \<Rightarrow> (frames, r)
      | (frames, Inr d') \<Rightarrow>
          (let (frames', r) = decode_chunks A d' chunks in (frames @ frames', r)))"

text \<open>
  The specification: cut the whole body at its event ends, give up at the first frame over the
  limit, and hand out what is left at the end as a last frame.
\<close>

function sse_split :: "nat \<Rightarrow> byte list \<Rightarrow> byte list list \<times> stream_end" where
  "sse_split m xs =
     (case find_event_end xs 0 of
        Some e \<Rightarrow>
          (if e \<le> m
           then (let (frames, r) = sse_split m (drop e xs) in (take e xs # frames, r))
           else ([], StreamFails frame_limit_error))
      | None \<Rightarrow>
          (if m < length xs then ([], StreamFails frame_limit_error)
           else if xs = [] then ([], Ended) else ([xs], Ended)))"
  by pat_completeness auto
termination
proof (relation "measure (\<lambda>(m, xs). length xs)", goal_cases)
  case (2 m xs e)
  then show ?case
    using find_event_end_bounds [of xs e] by auto
qed simp

declare sse_split.simps [simp del] process_buffered_frame.simps [simp del]

section \<open>Decoders between two operations\<close>

definition dec_ok :: "nat \<Rightarrow> sse_decoder \<Rightarrow> bool" where
  "dec_ok m d \<longleftrightarrow>
     1 \<le> m \<and> Suc m \<le> usize_max \<and> dec_max_frame_bytes d = m \<and>
     pb_inv (dec_buffer d) \<and> pb_max_len (dec_buffer d) = Suc m"

abbreviation dec_bytes :: "sse_decoder \<Rightarrow> byte list" where
  "dec_bytes d \<equiv> as_slice (dec_buffer d)"

definition waiting :: "nat \<Rightarrow> sse_decoder \<Rightarrow> bool" where
  "waiting m d \<longleftrightarrow>
     dec_ok m d \<and> \<not> dec_frame_ready d \<and> length (dec_bytes d) \<le> m \<and>
     find_event_end (dec_bytes d) 0 = None"

lemma dec_ok_len: "dec_ok m d \<Longrightarrow> pb_len (dec_buffer d) = length (dec_bytes d)"
  by (simp add: dec_ok_def length_as_slice)

lemma new_decoder_waiting [inv_intros]:
  "1 \<le> m \<Longrightarrow> Suc m \<le> usize_max \<Longrightarrow> waiting m (sse_decoder_new m)"
  by (simp add: waiting_def dec_ok_def sse_decoder_new_def Let_def pb_inv_new op_simps
      saturating_add_usize_def find_event_end_empty event_ends_def event_end_at_def
      line_ending_len_def max_def)

lemma new_decoder_bytes [op_simps]: "dec_bytes (sse_decoder_new m) = []"
  by (simp add: sse_decoder_new_def Let_def op_simps)

lemma take_frame_ok:
  "dec_ok m d \<Longrightarrow> take_frame d = (sse_decoder_new m, Some (dec_bytes d))"
  by (cases d) (simp add: take_frame_def dec_ok_def sse_decoder_new_def freeze_bytes max_absorb1
      Let_def)

lemma next_frame_ok:
  assumes "dec_ok m d"
  shows "next_frame d =
     (if m < length (dec_bytes d) then Fails frame_limit_error
      else if dec_frame_ready d then Returns (sse_decoder_new m, Some (dec_bytes d))
      else Returns (d, None))"
  using assms take_frame_ok [OF assms] dec_ok_len [OF assms]
  by (simp add: next_frame_def check_buffer_limit_def dec_ok_def)

lemma finish_ok:
  assumes "waiting m d"
  shows "finish_decoder d = (if dec_bytes d = [] then ([], Ended) else ([dec_bytes d], Ended))"
proof -
  have ok: "dec_ok m d" and len: "length (dec_bytes d) \<le> m"
    using assms by (simp_all add: waiting_def)
  have "pb_is_empty (dec_buffer d) \<longleftrightarrow> dec_bytes d = []"
    using ok pb_is_empty_iff by (simp add: dec_ok_def)
  then show ?thesis
    using take_frame_ok [OF ok] dec_ok_len [OF ok] ok len
    by (simp add: finish_decoder_def finish_def check_buffer_limit_def dec_ok_def)
qed

lemma next_input_limit_waiting:
  assumes "waiting m d"
  shows "next_input_limit d = Suc m - length (dec_bytes d)"
proof -
  have "dec_ok m d" "\<not> dec_frame_ready d" "length (dec_bytes d) \<le> m"
    using assms by (simp_all add: waiting_def)
  then show ?thesis
    using dec_ok_len [of m d]
    by (auto simp: next_input_limit_def saturating_add_usize_def dec_ok_def)
qed

text \<open>What one \<open>push\<close> of at most the permitted number of bytes does.\<close>

lemma push_ok:
  assumes A: "allocator_ok A" "allocator_total A" and w: "waiting m d"
    and xs: "xs \<noteq> []" "length (dec_bytes d) + length xs \<le> Suc m"
  defines "e \<equiv> find_event_end (dec_bytes d @ xs) 0"
  defines "n \<equiv> (case e of None \<Rightarrow> length xs | Some k \<Rightarrow> k - length (dec_bytes d))"
  shows "\<exists>d'. push A d xs = Returns (d', n) \<and> dec_ok m d' \<and> n \<le> length xs \<and>
           dec_frame_ready d' = (e \<noteq> None) \<and> dec_bytes d' = dec_bytes d @ take n xs"
proof -
  have ok: "dec_ok m d" and nr: "\<not> dec_frame_ready d" and none: "find_event_end (dec_bytes d) 0 = None"
    using w by (simp_all add: waiting_def)
  have input: "take (min (next_input_limit d) (length xs)) xs = xs"
    using next_input_limit_waiting [OF w] xs by simp
  have ev: "event_end_after_append (dec_bytes d) xs = map_option (\<lambda>k. k - length (dec_bytes d)) e"
    using event_end_after_append_correct(1) [OF none] by (simp add: e_def)
  have cons: "(case event_end_after_append (dec_bytes d) xs of Some k \<Rightarrow> k | None \<Rightarrow> length xs) = n"
    by (simp add: ev n_def split: option.splits)
  have n: "n \<le> length xs"
    using find_event_end_bounds [of "dec_bytes d @ xs"] by (auto simp: n_def e_def split: option.splits)
  have fits: "length (dec_bytes d) + length (take n xs) \<le> pb_max_len (dec_buffer d)"
    using xs n ok by (simp add: dec_ok_def)
  obtain b where b: "extend_from_slice A (dec_buffer d) (take n xs) = Returns b" "pb_inv b"
      "as_slice b = dec_bytes d @ take n xs" "pb_max_len b = pb_max_len (dec_buffer d)"
    using pbuf.put_total [OF A _ fits] ok by (auto simp: dec_ok_def)
  have "push A d xs = Returns (d\<lparr>dec_buffer := b, dec_frame_ready := e \<noteq> None\<rparr>, n)"
    using nr xs(1) input cons n b(1) unfolding push_def by (simp add: ev Let_def)
  then show ?thesis
    using b ok n by (intro exI [of _ "d\<lparr>dec_buffer := b, dec_frame_ready := e \<noteq> None\<rparr>"])
      (simp add: dec_ok_def)
qed

lemma process_none: "waiting m d \<Longrightarrow> process_buffered_frame A d None = Waits d"
  by (simp add: process_buffered_frame.simps [of A d None] waiting_def next_frame_ok [of m])

lemma process_ready:
  "dec_ok m d \<Longrightarrow> dec_frame_ready d \<Longrightarrow> length (dec_bytes d) \<le> m \<Longrightarrow>
   process_buffered_frame A d c = Yields (dec_bytes d) (sse_decoder_new m) c"
  by (simp add: process_buffered_frame.simps [of A d c] next_frame_ok [of m])

lemma process_over_limit:
  "dec_ok m d \<Longrightarrow> m < length (dec_bytes d) \<Longrightarrow>
   process_buffered_frame A d c = StepFails frame_limit_error"
  by (simp add: process_buffered_frame.simps [of A d c] next_frame_ok [of m])

definition chunk_opt :: "byte list \<Rightarrow> byte list option" where
  "chunk_opt xs = (if xs = [] then None else Some xs)"

lemma process_push:
  assumes "waiting m d" and "push A d (take (Suc m - length (dec_bytes d)) c) = Returns (d', n)"
  shows "process_buffered_frame A d (Some c) = process_buffered_frame A d' (chunk_opt (drop n c))"
proof -
  have ok: "dec_ok m d" "\<not> dec_frame_ready d" "\<not> m < length (dec_bytes d)"
    using assms(1) by (auto simp: waiting_def)
  have "take (min (next_input_limit d) (length c)) c = take (Suc m - length (dec_bytes d)) c"
    using next_input_limit_waiting [OF assms(1)] by (simp add: min_def)
  then show ?thesis
    using assms(2) ok
    by (simp add: process_buffered_frame.simps [of A d "Some c"] next_frame_ok [of m] chunk_opt_def
        del: take_eq_Nil take_all_iff)
qed

text \<open>
  One call of \<open>process_buffered_frame\<close>, in terms of all bytes at hand: it yields the first
  frame if it is within the limit, waits with everything buffered if there is no event end yet,
  and reports the limit otherwise.
\<close>

definition step_spec :: "nat \<Rightarrow> byte list \<Rightarrow> pipeline_step \<Rightarrow> bool" where
  "step_spec m xs r \<longleftrightarrow>
     (case find_event_end xs 0 of
        Some e \<Rightarrow>
          r = (if e \<le> m then Yields (take e xs) (sse_decoder_new m) (chunk_opt (drop e xs))
               else StepFails frame_limit_error)
      | None \<Rightarrow>
          (if m < length xs then r = StepFails frame_limit_error
           else \<exists>d. r = Waits d \<and> waiting m d \<and> dec_bytes d = xs))"

lemma step_spec_beyond:
  assumes "find_event_end (bs @ xs) 0 = None" "m < length (bs @ xs)"
  shows "step_spec m ((bs @ xs) @ ys) (StepFails frame_limit_error)"
proof (cases "find_event_end ((bs @ xs) @ ys) 0")
  case None
  then show ?thesis using assms(2) by (simp add: step_spec_def)
next
  case (Some e)
  then have "m < e"
    using event_end_after_append_correct(2) [OF assms(1) Some] assms(2) by linarith
  then show ?thesis using Some by (simp add: step_spec_def)
qed

lemma process_spec:
  assumes A: "allocator_ok A" "allocator_total A" and w: "waiting m d" and c: "c \<noteq> []"
  shows "step_spec m (dec_bytes d @ c) (process_buffered_frame A d (Some c))"
proof -
  define xs where "xs = take (Suc m - length (dec_bytes d)) c"
  define ys where "ys = drop (Suc m - length (dec_bytes d)) c"
  have split: "c = xs @ ys" by (simp add: xs_def ys_def)
  have len: "length (dec_bytes d) \<le> m"
    using w by (simp add: waiting_def)
  have xs: "xs \<noteq> []" "length (dec_bytes d) + length xs \<le> Suc m"
    using c len by (auto simp: xs_def)
  let ?e = "find_event_end (dec_bytes d @ xs) 0"
  obtain d' n where p: "push A d xs = Returns (d', n)" "dec_ok m d'" "n \<le> length xs"
      "dec_frame_ready d' = (?e \<noteq> None)" "dec_bytes d' = dec_bytes d @ take n xs"
    and n: "n = (case ?e of None \<Rightarrow> length xs | Some k \<Rightarrow> k - length (dec_bytes d))"
    using push_ok [OF A w xs] by blast
  have step: "process_buffered_frame A d (Some c) = process_buffered_frame A d' (chunk_opt (drop n c))"
    using process_push [OF w] p(1) by (simp add: xs_def)
  show ?thesis
  proof (cases ?e)
    case None
    then have d': "dec_bytes d' = dec_bytes d @ xs" "\<not> dec_frame_ready d'" "drop n c = ys"
      using n p split by auto
    show ?thesis
    proof (cases "m < length (dec_bytes d @ xs)")
      case True
      then have "process_buffered_frame A d (Some c) = StepFails frame_limit_error"
        using step process_over_limit p(2) d' by simp
      then show ?thesis
        using step_spec_beyond [OF None True, of ys] split by simp
    next
      case False
      then have "ys = []"
        using len by (auto simp: xs_def ys_def)
      moreover have "waiting m d'"
        using False None p(2) d' by (simp add: waiting_def)
      ultimately show ?thesis
        using False None step split d' process_none by (auto simp: step_spec_def chunk_opt_def)
    qed
  next
    case (Some k)
    have lk: "length (dec_bytes d) \<le> k" "k \<le> length (dec_bytes d @ xs)"
      using event_end_after_append_correct(2) [of "dec_bytes d" xs k] w Some
        find_event_end_bounds [OF Some] by (simp_all add: waiting_def)
    have whole: "find_event_end (dec_bytes d @ c) 0 = Some k"
      using find_event_end_extend [OF Some, of ys] split by simp
    have bytes: "dec_bytes d' = take k (dec_bytes d @ c)" "drop n c = drop k (dec_bytes d @ c)"
      using Some n p lk split by auto
    have "length (dec_bytes d') = k"
      using bytes(1) lk split by simp
    then have "process_buffered_frame A d (Some c) =
        (if k \<le> m then Yields (dec_bytes d') (sse_decoder_new m) (chunk_opt (drop n c))
         else StepFails frame_limit_error)"
      using step p Some process_ready [of m d' A] process_over_limit [of m d' A] by auto
    then show ?thesis
      using whole bytes by (simp add: step_spec_def)
  qed
qed

lemma sse_split_cut:
  assumes "find_event_end xs 0 = Some e" "e \<le> m"
  shows "sse_split m (xs @ ys) =
    (let (frames, r) = sse_split m (drop e xs @ ys) in (take e xs # frames, r))"
  using find_event_end_extend [OF assms(1), of ys] find_event_end_bounds [OF assms(1)] assms(2)
  by (subst sse_split.simps) simp

lemma sse_split_cut_beyond:
  "find_event_end xs 0 = Some e \<Longrightarrow> m < e \<Longrightarrow>
   sse_split m (xs @ ys) = ([], StreamFails frame_limit_error)"
  using find_event_end_extend [of xs e ys] by (subst sse_split.simps) simp

lemma sse_split_open_beyond:
  "find_event_end xs 0 = None \<Longrightarrow> m < length xs \<Longrightarrow>
   sse_split m (xs @ ys) = ([], StreamFails frame_limit_error)"
  using event_end_after_append_correct(2) [of xs ys]
  by (subst sse_split.simps) (fastforce split: option.splits)

lemma waiting_renew: "waiting m d \<Longrightarrow> waiting m (sse_decoder_new m)"
  by (rule new_decoder_waiting) (simp_all add: waiting_def dec_ok_def)

text \<open>
  Draining a chunk agrees with the specification, whatever bytes follow the chunk: either the
  stream has failed, or the bytes kept continue it.
\<close>

definition drained :: "nat \<Rightarrow> byte list \<Rightarrow> byte list list \<times> (stream_end + sse_decoder) \<Rightarrow> bool" where
  "drained m xs r \<longleftrightarrow>
     (case r of
        (frames, Inl e) \<Rightarrow> \<forall>ys. sse_split m (xs @ ys) = (frames, e)
      | (frames, Inr d') \<Rightarrow> waiting m d' \<and>
          (\<forall>ys. sse_split m (xs @ ys) =
             (let (gs, e) = sse_split m (dec_bytes d' @ ys) in (frames @ gs, e))))"

lemma drained_Waits: "waiting m d \<Longrightarrow> dec_bytes d = xs \<Longrightarrow> drained m xs ([], Inr d)"
  by (auto simp: drained_def case_prod_unfold)

lemma drained_Cons:
  assumes "find_event_end xs 0 = Some e" "e \<le> m" "drained m (drop e xs) (frames, r)"
  shows "drained m xs (take e xs # frames, r)"
  using assms(3) sse_split_cut [OF assms(1,2)]
  by (auto simp: drained_def case_prod_unfold Let_def split: sum.splits)

lemma drain_spec:
  assumes A: "allocator_ok A" "allocator_total A"
  shows "waiting m d \<Longrightarrow> length (dec_bytes d) + length c < fuel \<Longrightarrow>
     drained m (dec_bytes d @ c) (drain fuel A d (chunk_opt c))"
proof (induction fuel arbitrary: d c)
  case 0
  then show ?case by simp
next
  case (Suc fuel)
  let ?xs = "dec_bytes d @ c" and ?d = "sse_decoder_new m"
  show ?case
  proof (cases "c = []")
    case True
    then show ?thesis
      using process_none [OF Suc.prems(1)] Suc.prems(1) by (simp add: chunk_opt_def drained_Waits)
  next
    case False
    note spec = process_spec [OF A Suc.prems(1) False]
    consider e where "find_event_end ?xs 0 = Some e" "e \<le> m"
      | "process_buffered_frame A d (Some c) = StepFails frame_limit_error"
        "\<And>ys. sse_split m (?xs @ ys) = ([], StreamFails frame_limit_error)"
      | d' where "process_buffered_frame A d (Some c) = Waits d'" "waiting m d'" "dec_bytes d' = ?xs"
      using spec sse_split_cut_beyond [of ?xs] sse_split_open_beyond [of ?xs]
      by (cases "find_event_end ?xs 0") (fastforce simp: step_spec_def split: if_splits)+
    then show ?thesis
    proof cases
      case (1 e)
      have y: "process_buffered_frame A d (Some c) = Yields (take e ?xs) ?d (chunk_opt (drop e ?xs))"
        using spec 1 by (simp add: step_spec_def)
      have "length (dec_bytes ?d) + length (drop e ?xs) < fuel"
        using Suc.prems(2) find_event_end_bounds [OF 1(1)]
        by (auto simp: op_simps simp del: drop_append)
      from Suc.IH [OF waiting_renew [OF Suc.prems(1)] this]
      have "drained m (drop e ?xs) (drain fuel A ?d (chunk_opt (drop e ?xs)))"
        by (simp add: new_decoder_bytes)
      then show ?thesis
        using drained_Cons [OF 1] y False
        by (cases "drain fuel A ?d (chunk_opt (drop e ?xs))") (simp add: chunk_opt_def [of c])
    next
      case 2
      then show ?thesis using False by (simp add: chunk_opt_def drained_def)
    next
      case (3 d')
      then show ?thesis using False by (simp add: chunk_opt_def drained_Waits)
    qed
  qed
qed

lemma drain_chunk_spec:
  "allocator_ok A \<Longrightarrow> allocator_total A \<Longrightarrow> waiting m d \<Longrightarrow>
   drained m (dec_bytes d @ c) (drain_chunk A d c)"
  using drain_spec [of A m d c "Suc (pb_len (dec_buffer d) + length c)"] dec_ok_len [of m d]
  by (simp add: drain_chunk_def chunk_opt_def waiting_def)

lemma decode_chunks_waiting:
  assumes A: "allocator_ok A" "allocator_total A"
  shows "waiting m d \<Longrightarrow> decode_chunks A d chunks = sse_split m (dec_bytes d @ concat chunks)"
proof (induction chunks arbitrary: d)
  case Nil
  then have "finish_decoder d = sse_split m (dec_bytes d)"
    using finish_ok [of m d] by (subst sse_split.simps) (simp add: waiting_def)
  then show ?case by simp
next
  case (Cons c cs)
  obtain frames r where r: "drain_chunk A d c = (frames, r)" by fastforce
  have "drained m (dec_bytes d @ c) (frames, r)"
    using drain_chunk_spec [OF A Cons.prems, of c] r by simp
  then show ?case
    using Cons.IH r by (auto simp: drained_def split: sum.splits)
qed

section \<open>Properties\<close>

text \<open>
  C1. Decoding a body chunk by chunk gives exactly the specification's cut of the whole body: the
  frames are those between consecutive event ends, the failure is at the first frame above the
  limit, and the unterminated rest is the last frame. In particular nothing depends on where the
  transport cut the body, and every byte is in exactly one frame.
\<close>

theorem decode_chunks_spec:
  assumes "allocator_ok A" "allocator_total A" "1 \<le> m" "Suc m \<le> usize_max"
  shows "decode_chunks A (sse_decoder_new m) chunks = sse_split m (concat chunks)"
  using decode_chunks_waiting [OF assms(1,2) new_decoder_waiting [OF assms(3,4)]]
  by (simp add: new_decoder_bytes)

theorem decode_chunks_spec_witness:
  "allocator_ok exact_allocator \<and> allocator_total exact_allocator \<and>
   decode_chunks exact_allocator (sse_decoder_new 8) [[100, 13], [10], [13, 10, 58], [10]] =
     sse_split 8 [100, 13, 10, 13, 10, 58, 10]"
  using decode_chunks_spec [of exact_allocator 8 "[[100, 13], [10], [13, 10, 58], [10]]"]
    exact_allocator_ok by (simp add: usize_max_def)

end
