(* ===== verification/Sliding_Window.thy ===== *)
theory Sliding_Window
  imports Gateway_Prelude
begin

text \<open>
  The contract of a sliding-window limiter, shared by the per-credential window
  (\<open>Credential_Rate\<close>) and the per-gateway-key window (\<open>Gateway_Rate\<close>).

  Both keep the instants of the recent admissions in a queue, drop the expired ones from its
  front, and admit while fewer than the limit are left. The locale \<open>sliding_window\<close> states that
  as laws on \<open>admit\<close>; \<open>revocable_window\<close> adds \<open>withdraw\<close>, which takes an admission back. The
  lemmas proved once here compare a limiter with its full history, which forgets nothing: in no
  window of length \<open>span\<close> does the history hold more admissions than the largest limit used.
\<close>

section \<open>Histories\<close>

definition live :: "('e \<Rightarrow> instant) \<Rightarrow> duration \<Rightarrow> instant \<Rightarrow> 'e list \<Rightarrow> 'e list" where
  "live at span now es = filter (\<lambda>e. now < at e + span) es"

definition within_window :: "('e \<Rightarrow> instant) \<Rightarrow> duration \<Rightarrow> instant \<Rightarrow> 'e list \<Rightarrow> 'e list" where
  "within_window at span t es = filter (\<lambda>e. at e \<le> t \<and> t < at e + span) es"

definition chronological :: "('e \<Rightarrow> instant) \<Rightarrow> instant \<Rightarrow> 'e list \<Rightarrow> bool" where
  "chronological at now es \<longleftrightarrow> sorted (map at es) \<and> (\<forall>e\<in>set es. at e \<le> now)"

lemma chronological_mono: "chronological at now es \<Longrightarrow> now \<le> now' \<Longrightarrow> chronological at now' es"
  by (auto simp: chronological_def)

lemma chronological_filter: "chronological at now es \<Longrightarrow> chronological at now (filter P es)"
  by (auto simp: chronological_def sorted_filter)

lemma chronological_live: "chronological at now es \<Longrightarrow> chronological at now (live at span t es)"
  by (simp add: live_def chronological_filter)

lemma chronological_snoc: "chronological at now es \<Longrightarrow> at e = now \<Longrightarrow> chronological at now (es @ [e])"
  by (auto simp: chronological_def sorted_append)

lemma live_live: "p \<le> now \<Longrightarrow> live at span now (live at span p es) = live at span now es"
  by (auto simp: live_def intro!: filter_cong)

lemma live_append: "live at span now (es @ fs) = live at span now es @ live at span now fs"
  by (simp add: live_def)

lemma live_filter: "live at span now (filter P es) = filter P (live at span now es)"
  by (auto simp: live_def conj_commute)

text \<open>Popping expired entries off the front of a chronological queue leaves the live ones.\<close>

lemma prune_live:
  assumes "chronological at now es" "0 < span"
  shows "dropWhile (\<lambda>e. case instant_checked_sub now span of None \<Rightarrow> False | Some c \<Rightarrow> at e \<le> c) es =
         live at span now es"
proof (cases "span \<le> now")
  case True
  have "dropWhile (\<lambda>e. at e \<le> now - span) es = filter (\<lambda>e. now - span < at e) es"
    using assms(1) by (intro sorted_dropWhile_eq_filter) (simp add: chronological_def)
  also have "\<dots> = live at span now es"
    using True by (auto simp: live_def intro!: filter_cong)
  finally show ?thesis
    using True by (simp add: instant_checked_sub_def)
next
  case False
  then have "live at span now es = es"
    by (auto simp: live_def filter_id_conv)
  then show ?thesis
    using False by (simp add: instant_checked_sub_def dropWhile_eq_self_iff)
qed

text \<open>
  The instant at which the queue gets below the limit \<open>n\<close>: when the \<open>n\<close>-th entry from the back
  expires, and not before.
\<close>

lemma live_below_iff:
  assumes "chronological at now es" "1 \<le> n" "n \<le> length es"
  shows "length (live at span t es) < n \<longleftrightarrow> at (es ! (length es - n)) + span \<le> t"
proof -
  let ?k = "length es - n"
  have srt: "sorted (map at es)"
    using assms(1) by (simp add: chronological_def)
  have split: "live at span t es = live at span t (take ?k es) @ live at span t (drop ?k es)"
    by (metis append_take_drop_id live_append)
  have nth: "drop ?k es = es ! ?k # drop (Suc ?k) es"
    using assms by (intro Cons_nth_drop_Suc [symmetric]) linarith
  show ?thesis
  proof
    assume le: "at (es ! ?k) + span \<le> t"
    have "at e \<le> at (es ! ?k)" if m: "e \<in> set (take ?k es)" for e
    proof -
      obtain i where i: "i < ?k" "i < length es" "e = es ! i"
        using m by (auto simp: in_set_conv_nth)
      then show ?thesis
        using sorted_nth_mono [OF srt, of i ?k] assms by simp
    qed
    then have "live at span t (take ?k es) = []"
      using le by (fastforce simp: live_def filter_empty_conv)
    then have "length (live at span t es) \<le> length (drop (Suc ?k) es)"
      using split nth le by (simp add: live_def del: length_drop)
    then show "length (live at span t es) < n"
      using assms by simp
  next
    assume lt: "length (live at span t es) < n"
    show "at (es ! ?k) + span \<le> t"
    proof (rule ccontr)
      assume "\<not> at (es ! ?k) + span \<le> t"
      moreover have "at (es ! ?k) \<le> at e" if m: "e \<in> set (drop ?k es)" for e
      proof -
        obtain i where "i < length (drop ?k es)" "e = drop ?k es ! i"
          using m by (metis in_set_conv_nth)
        then have i: "?k + i < length es" "e = es ! (?k + i)"
          by simp_all
        then show ?thesis
          using sorted_nth_mono [OF srt, of ?k "?k + i"] assms by simp
      qed
      ultimately have "live at span t (drop ?k es) = drop ?k es"
        by (fastforce simp: live_def filter_id_conv)
      then show False
        using lt split assms by simp
    qed
  qed
qed

text \<open>No window of the history holds more than \<open>n\<close> admissions.\<close>

definition window_bounded :: "('e \<Rightarrow> instant) \<Rightarrow> duration \<Rightarrow> nat \<Rightarrow> 'e list \<Rightarrow> bool" where
  "window_bounded at span n es \<longleftrightarrow> (\<forall>t. length (within_window at span t es) \<le> n)"

lemma window_bounded_Nil: "window_bounded at span n []"
  by (simp add: window_bounded_def within_window_def)

lemma within_window_filter:
  "within_window at span t (filter P es) = filter P (within_window at span t es)"
  by (auto simp: within_window_def conj_commute)

lemma window_bounded_filter: "window_bounded at span n es \<Longrightarrow> window_bounded at span n (filter P es)"
  unfolding window_bounded_def within_window_filter using length_filter_le order_trans by blast

lemma window_bounded_snoc:
  assumes "window_bounded at span n es" "length (live at span now es) < n" "at e = now"
  shows "window_bounded at span n (es @ [e])"
  unfolding window_bounded_def
proof
  fix t
  show "length (within_window at span t (es @ [e])) \<le> n"
  proof (cases "now \<le> t \<and> t < now + span")
    case True
    have "length (within_window at span t es) \<le> length (live at span now es)"
      unfolding within_window_def live_def using True
      by (intro length_filter_mono) linarith
    then show ?thesis
      using True assms(2,3) by (simp add: within_window_def)
  next
    case False
    then show ?thesis
      using assms(1,3) by (auto simp: window_bounded_def within_window_def)
  qed
qed

text \<open>
  A run of a limiter beside its history: an admission is recorded, a withdrawn one is struck out.
  A request for admission carries what else the limiter looks at (\<open>'x\<close>), the instant and the
  limit.
\<close>

datatype ('x, 'e) window_op = Admit 'x instant nat | Withdraw 'e

fun run_window ::
  "('x \<Rightarrow> instant \<Rightarrow> nat \<Rightarrow> 'w \<Rightarrow> ('w \<times> 'e option) option) \<Rightarrow> ('e \<Rightarrow> 'w \<Rightarrow> 'w) \<Rightarrow> ('e \<Rightarrow> 'k) \<Rightarrow>
   ('x, 'e) window_op list \<Rightarrow> 'w \<times> 'e list \<Rightarrow> ('w \<times> 'e list) option" where
  "run_window admit withdraw key [] s = Some s"
| "run_window admit withdraw key (Admit x now n # ops) (w, log) =
     (case admit x now n w of
        None \<Rightarrow> None
      | Some (w', r) \<Rightarrow>
          run_window admit withdraw key ops
            (w', case r of None \<Rightarrow> log | Some e \<Rightarrow> log @ [e]))"
| "run_window admit withdraw key (Withdraw e # ops) (w, log) =
     run_window admit withdraw key ops (withdraw e w, filter (\<lambda>x. key x \<noteq> key e) log)"

fun clock_from :: "instant \<Rightarrow> ('x, 'e) window_op list \<Rightarrow> bool" where
  "clock_from p [] = True"
| "clock_from p (Admit x now n # ops) = (p \<le> now \<and> clock_from now ops)"
| "clock_from p (Withdraw e # ops) = clock_from p ops"

fun limits_within :: "nat \<Rightarrow> ('x, 'e) window_op list \<Rightarrow> bool" where
  "limits_within L [] = True"
| "limits_within L (Admit x now n # ops) = (n \<le> L \<and> limits_within L ops)"
| "limits_within L (Withdraw e # ops) = limits_within L ops"

section \<open>The interface\<close>

text \<open>
  \<open>admit x now n w\<close> is \<open>None\<close> when the limiter gives no answer (it panics), otherwise the new
  limiter and the admission, if there is one.
\<close>

locale sliding_window =
  fixes invar :: "'w \<Rightarrow> bool"
    and entries :: "'w \<Rightarrow> 'e list"
    and at :: "'e \<Rightarrow> instant"
    and span :: duration
    and admit :: "'x \<Rightarrow> instant \<Rightarrow> nat \<Rightarrow> 'w \<Rightarrow> ('w \<times> 'e option) option"
  assumes span_pos: "0 < span"
    and admit_invar:
      "invar w \<Longrightarrow> admit x now n w = Some (w', r) \<Longrightarrow> invar w'"
    and admit_yes:
      "invar w \<Longrightarrow> chronological at now (entries w) \<Longrightarrow> admit x now n w = Some (w', Some e) \<Longrightarrow>
       entries w' = live at span now (entries w) @ [e] \<and> at e = now \<and>
       length (live at span now (entries w)) < n"
    and admit_no:
      "invar w \<Longrightarrow> chronological at now (entries w) \<Longrightarrow> admit x now n w = Some (w', None) \<Longrightarrow>
       entries w' = live at span now (entries w)"
begin

text \<open>\<open>tracks p log w\<close>: \<open>w\<close> holds what is live at \<open>p\<close> of the history \<open>log\<close>.\<close>

definition tracks :: "instant \<Rightarrow> 'e list \<Rightarrow> 'w \<Rightarrow> bool" where
  "tracks p log w \<longleftrightarrow> invar w \<and> chronological at p log \<and> entries w = live at span p log"

lemma tracks_admit:
  assumes "tracks p log w" "p \<le> now" "admit x now n w = Some (w', r)"
    and "window_bounded at span L log" "n \<le> L"
  defines "log' \<equiv> (case r of None \<Rightarrow> log | Some e \<Rightarrow> log @ [e])"
  shows "tracks now log' w' \<and> window_bounded at span L log'"
proof -
  have t: "invar w" "chronological at now log" "entries w = live at span p log"
    using assms(1,2) chronological_mono by (auto simp: tracks_def)
  then have chron: "chronological at now (entries w)"
    by (simp add: chronological_live)
  have live: "live at span now (entries w) = live at span now log"
    using t(3) assms(2) by (simp add: live_live)
  show ?thesis
  proof (cases r)
    case None
    then show ?thesis
      using admit_no [OF t(1) chron, of x n w'] admit_invar [OF t(1) assms(3)] assms(3,4) t(2) live
      by (simp add: tracks_def log'_def)
  next
    case (Some e)
    then have e: "entries w' = live at span now log @ [e]" "at e = now"
        "length (live at span now log) < n"
      using admit_yes [OF t(1) chron, of x n w' e] assms(3) live by auto
    have "live at span now (log @ [e]) = live at span now log @ [e]"
      using e(2) span_pos by (simp add: live_def)
    moreover have "window_bounded at span L (log @ [e])"
      by (rule window_bounded_snoc [OF assms(4) _ e(2)]) (use e(3) assms(5) in simp)
    ultimately show ?thesis
      using admit_invar [OF t(1) assms(3)] t(2) e Some
      by (simp add: tracks_def log'_def chronological_snoc)
  qed
qed

text \<open>
  Every run from a fresh limiter, with a clock that does not go back and limits of at most
  \<open>L\<close>: the history is bounded by \<open>L\<close> in every window.
\<close>

lemma run_tracks:
  assumes wd: "\<And>e p log w. Withdraw e \<in> set ops \<Longrightarrow> tracks p log w \<Longrightarrow>
      tracks p (filter (\<lambda>x. key x \<noteq> key e) log) (withdraw e w)"
    and "run_window admit withdraw key ops (w, log) = Some (w', log')"
    and "tracks p log w" "clock_from p ops" "limits_within L ops" "window_bounded at span L log"
  shows "\<exists>p'. tracks p' log' w' \<and> window_bounded at span L log'"
  using assms
proof (induction ops arbitrary: p w log)
  case Nil
  then show ?case by auto
next
  case (Cons op ops)
  show ?case
  proof (cases op)
    case (Admit x now n)
    then obtain w1 r where r: "admit x now n w = Some (w1, r)"
      and run: "run_window admit withdraw key ops
          (w1, case r of None \<Rightarrow> log | Some e \<Rightarrow> log @ [e]) = Some (w', log')"
      using Cons.prems(2) by (auto split: option.splits)
    have "tracks now (case r of None \<Rightarrow> log | Some e \<Rightarrow> log @ [e]) w1 \<and>
        window_bounded at span L (case r of None \<Rightarrow> log | Some e \<Rightarrow> log @ [e])"
      using Cons.prems Admit by (intro tracks_admit [OF _ _ r]) auto
    then show ?thesis
      using Cons.IH [OF Cons.prems(1) run] Cons.prems Admit by auto
  next
    case (Withdraw e)
    have "tracks p (filter (\<lambda>x. key x \<noteq> key e) log) (withdraw e w)"
      by (rule Cons.prems(1) [OF _ Cons.prems(3)]) (simp add: Withdraw)
    moreover have "window_bounded at span L (filter (\<lambda>x. key x \<noteq> key e) log)"
      using Cons.prems(6) by (intro window_bounded_filter)
    ultimately show ?thesis
      by (intro Cons.IH [where log = "filter (\<lambda>x. key x \<noteq> key e) log" and w = "withdraw e w"])
        (use Cons.prems Withdraw in simp_all)
  qed
qed

lemma run_admits_bounded:
  assumes "invar w" "entries w = []" "run_window admit withdraw key ops (w, []) = Some (w', log)"
    and "clock_from 0 ops" "limits_within L ops" "\<And>e. Withdraw e \<notin> set ops"
  shows "window_bounded at span L log"
  using run_tracks [OF _ assms(3) _ assms(4,5)] assms(1,2,6)
  by (auto simp: tracks_def chronological_def live_def window_bounded_Nil)

end

locale revocable_window = sliding_window invar entries at span admit
  for invar :: "'w \<Rightarrow> bool" and entries :: "'w \<Rightarrow> 'e list" and at span admit +
  fixes key :: "'e \<Rightarrow> 'k"
    and withdraw :: "'e \<Rightarrow> 'w \<Rightarrow> 'w"
  assumes withdraw_invar: "invar w \<Longrightarrow> invar (withdraw e w)"
    and withdraw_entries:
      "invar w \<Longrightarrow> entries (withdraw e w) = filter (\<lambda>x. key x \<noteq> key e) (entries w)"
begin

lemma tracks_withdraw:
  "tracks p log w \<Longrightarrow> tracks p (filter (\<lambda>x. key x \<noteq> key e) log) (withdraw e w)"
  by (simp add: tracks_def withdraw_invar withdraw_entries live_filter chronological_filter)

lemma run_bounded:
  assumes "invar w" "entries w = []" "run_window admit withdraw key ops (w, []) = Some (w', log)"
    and "clock_from 0 ops" "limits_within L ops"
  shows "window_bounded at span L log"
  using run_tracks [OF tracks_withdraw assms(3) _ assms(4,5)] assms(1,2)
  by (auto simp: tracks_def chronological_def live_def window_bounded_Nil)

end

end
