(* ===== verification/Credential_Rate.thy ===== *)
theory Credential_Rate
  imports Sliding_Window
begin

text \<open>
  The per-credential request window of \<open>crates/runtime/src/credential/runtime/rate_window.rs\<close>
  and the validated limit of \<open>crates/domain/src/credential/rate_limit.rs\<close>.

  A reservation is an identifier and the instant it was made. A finite limit admits while fewer
  than the limit are left in the last minute; unless the request is pinned to this credential
  (\<open>fixed\<close>), it also leaves room for the pinned requests that already wait. A reservation that
  was not used is rolled back. The window interprets \<open>revocable_window\<close> as \<open>crw\<close>.
\<close>

section \<open>The limit\<close>

definition MAX_REQUESTS_PER_MINUTE :: nat where
  "MAX_REQUESTS_PER_MINUTE = 100000"

definition rpm_new :: "nat \<Rightarrow> nat option" where
  "rpm_new value = (if 1 \<le> value \<and> value \<le> MAX_REQUESTS_PER_MINUTE then Some value else None)"

section \<open>The window\<close>

definition RATE_WINDOW :: duration where
  "RATE_WINDOW = from_secs 60"

record rate_reservation =
  res_id :: nat
  res_started_at :: instant

record rate_window =
  rw_attempts :: "rate_reservation list"
  rw_next_reservation_id :: nat

datatype rate_limited = RateLimited "instant option"

record rate_snapshot =
  snap_requests_per_minute :: "nat option"
  snap_requests_in_window :: nat
  snap_retry_at :: "instant option"

definition rate_window_new :: rate_window where
  "rate_window_new = \<lparr> rw_attempts = [], rw_next_reservation_id = 0 \<rparr>"

definition rate_prune :: "instant \<Rightarrow> rate_window \<Rightarrow> rate_window" where
  "rate_prune now w =
     w\<lparr>rw_attempts :=
         dropWhile (\<lambda>r. case instant_checked_sub now RATE_WINDOW of
                          None \<Rightarrow> False
                        | Some cutoff \<Rightarrow> res_started_at r \<le> cutoff) (rw_attempts w)\<rparr>"

text \<open>\<open>None\<close> outside is the panic of the index, which a limit of zero would cause.\<close>

definition next_available_at :: "rate_window \<Rightarrow> nat \<Rightarrow> instant option option" where
  "next_available_at w limit =
     (let n = length (rw_attempts w) in
      if limit \<le> n
      then (if n - limit < n
            then Some (Some (res_started_at (rw_attempts w ! (n - limit)) + RATE_WINDOW))
            else None)
      else Some None)"

text \<open>\<open>try_reserve\<close> returns the window also when it refuses, because it prunes first.\<close>

definition try_reserve ::
  "rate_window \<Rightarrow> instant \<Rightarrow> nat option \<Rightarrow> nat \<Rightarrow> bool \<Rightarrow>
   (rate_window \<times> (rate_limited + rate_reservation option)) option" where
  "try_reserve w now limit fixed_waiters fixed =
     (let w = rate_prune now w in
      case limit of
        None \<Rightarrow> Some (w, Inr None)
      | Some limit \<Rightarrow>
          (if limit \<le> length (rw_attempts w)
           then map_option (\<lambda>t. (w, Inl (RateLimited t))) (next_available_at w limit)
           else if \<not> fixed \<and> limit - length (rw_attempts w) \<le> fixed_waiters
           then Some (w, Inl (RateLimited None))
           else (let reservation = \<lparr> res_id = rw_next_reservation_id w, res_started_at = now \<rparr> in
                 case checked_add_u64 (rw_next_reservation_id w) 1 of
                   None \<Rightarrow> None
                 | Some next_id \<Rightarrow>
                     Some (w\<lparr>rw_next_reservation_id := next_id,
                             rw_attempts := rw_attempts w @ [reservation]\<rparr>,
                           Inr (Some reservation)))))"

fun remove_position :: "('a \<Rightarrow> bool) \<Rightarrow> 'a list \<Rightarrow> 'a list" where
  "remove_position P [] = []"
| "remove_position P (x # xs) = (if P x then xs else x # remove_position P xs)"

definition rate_rollback :: "rate_window \<Rightarrow> rate_reservation \<Rightarrow> rate_window \<times> bool" where
  "rate_rollback w reservation =
     (if \<exists>r\<in>set (rw_attempts w). res_id r = res_id reservation
      then (w\<lparr>rw_attempts :=
                remove_position (\<lambda>r. res_id r = res_id reservation) (rw_attempts w)\<rparr>, True)
      else (w, False))"

definition rate_snapshot_of ::
  "rate_window \<Rightarrow> instant \<Rightarrow> nat option \<Rightarrow> (rate_window \<times> rate_snapshot) option" where
  "rate_snapshot_of w now limit =
     (let w = rate_prune now w in
      case (case limit of None \<Rightarrow> Some None | Some limit \<Rightarrow> next_available_at w limit) of
        None \<Rightarrow> None
      | Some retry \<Rightarrow>
          (if limit \<noteq> None \<and> u32_max < length (rw_attempts w) then None
           else Some (w, \<lparr> snap_requests_per_minute = limit,
                           snap_requests_in_window =
                             (if limit \<noteq> None then length (rw_attempts w) else 0),
                           snap_retry_at = retry \<rparr>)))"

definition snap_remaining :: "rate_snapshot \<Rightarrow> nat option" where
  "snap_remaining s =
     (case snap_requests_per_minute s of
        Some limit \<Rightarrow> Some (limit - snap_requests_in_window s)
      | None \<Rightarrow> None)"

section \<open>Well-formed windows\<close>

text \<open>
  Identifiers are distinct and below the next one, and there are never more attempts than the
  largest limit allows.
\<close>

definition rw_inv :: "rate_window \<Rightarrow> bool" where
  "rw_inv w \<longleftrightarrow>
     distinct (map res_id (rw_attempts w)) \<and>
     (\<forall>r\<in>set (rw_attempts w). res_id r < rw_next_reservation_id w) \<and>
     length (rw_attempts w) \<le> MAX_REQUESTS_PER_MINUTE"

abbreviation rw_chron :: "instant \<Rightarrow> rate_window \<Rightarrow> bool" where
  "rw_chron now w \<equiv> chronological res_started_at now (rw_attempts w)"

abbreviation rw_live :: "instant \<Rightarrow> rate_window \<Rightarrow> rate_reservation list" where
  "rw_live now w \<equiv> live res_started_at RATE_WINDOW now (rw_attempts w)"

lemma RATE_WINDOW_pos [simp]: "0 < RATE_WINDOW"
  by (simp add: RATE_WINDOW_def nanos_per_sec_def)

lemma rate_window_new_inv [inv_intros]: "rw_inv rate_window_new" "rw_chron now rate_window_new"
  by (simp_all add: rw_inv_def rate_window_new_def chronological_def)

lemma rate_prune_inv [inv_intros]: "rw_inv w \<Longrightarrow> rw_inv (rate_prune now w)"
  by (auto simp: rw_inv_def rate_prune_def distinct_map_dropWhile
      dest: set_dropWhileD intro: order_trans [OF length_dropWhile_le])

lemma rate_prune_next [op_simps]:
  "rw_next_reservation_id (rate_prune now w) = rw_next_reservation_id w"
  by (simp add: rate_prune_def)

lemma rate_prune_attempts [op_simps]:
  "rw_chron now w \<Longrightarrow> rw_attempts (rate_prune now w) = rw_live now w"
  by (simp add: rate_prune_def prune_live)

lemma remove_position_distinct:
  "distinct (map f xs) \<Longrightarrow> remove_position (\<lambda>x. f x = k) xs = filter (\<lambda>x. f x \<noteq> k) xs"
proof (induction xs)
  case Nil
  then show ?case by simp
next
  case (Cons x xs)
  have "filter (\<lambda>y. f y \<noteq> f x) xs = xs"
    using Cons.prems by (intro filter_True) (metis distinct.simps(2) image_eqI list.simps(9) set_map)
  then show ?case
    using Cons by auto
qed

lemma rate_rollback_attempts [op_simps]:
  assumes "rw_inv w"
  shows "rw_attempts (fst (rate_rollback w r)) = filter (\<lambda>x. res_id x \<noteq> res_id r) (rw_attempts w)"
  using assms
  by (auto simp: rate_rollback_def rw_inv_def remove_position_distinct filter_id_conv)

lemma rate_rollback_next [op_simps]:
  "rw_next_reservation_id (fst (rate_rollback w r)) = rw_next_reservation_id w"
  by (simp add: rate_rollback_def)

lemma rate_rollback_inv [inv_intros]: "rw_inv w \<Longrightarrow> rw_inv (fst (rate_rollback w r))"
  using rate_rollback_attempts [of w r]
  by (auto simp: rw_inv_def op_simps distinct_map_filter_intro intro: order_trans [OF length_filter_le])

text \<open>What \<open>try_reserve\<close> answers, in terms of the attempts of the last minute.\<close>

lemma try_reserve_cases:
  assumes "rw_chron now w" "1 \<le> n"
  shows "try_reserve w now (Some n) fixed_waiters fixed =
     (let l = rw_live now w; w' = w\<lparr>rw_attempts := l\<rparr>; r = \<lparr> res_id = rw_next_reservation_id w, res_started_at = now \<rparr> in
      if n \<le> length l
      then Some (w', Inl (RateLimited (Some (res_started_at (l ! (length l - n)) + RATE_WINDOW))))
      else if \<not> fixed \<and> n - length l \<le> fixed_waiters then Some (w', Inl (RateLimited None))
      else if rw_next_reservation_id w < u64_max
      then Some (w'\<lparr>rw_next_reservation_id := Suc (rw_next_reservation_id w), rw_attempts := l @ [r]\<rparr>,
                 Inr (Some r))
      else None)"
proof -
  have w': "rate_prune now w = w\<lparr>rw_attempts := rw_live now w\<rparr>"
    using prune_live [OF assms(1) RATE_WINDOW_pos] by (simp add: rate_prune_def)
  show ?thesis
    using assms(2)
    by (auto simp: try_reserve_def w' next_available_at_def checked_add_u64_def Let_def)
qed

lemma try_reserve_unlimited:
  "try_reserve w now None fixed_waiters fixed = Some (rate_prune now w, Inr None)"
  by (simp add: try_reserve_def Let_def)

lemma rw_inv_live: "rw_inv w \<Longrightarrow> rw_inv (w\<lparr>rw_attempts := rw_live now w\<rparr>)"
  by (auto simp: rw_inv_def live_def distinct_map_filter_intro intro: order_trans [OF length_filter_le])

lemma try_reserve_inv [inv_intros]:
  assumes "rw_inv w" "n \<le> MAX_REQUESTS_PER_MINUTE"
    and "try_reserve w now (Some n) fixed_waiters fixed = Some (w', r)"
  shows "rw_inv w'"
proof -
  let ?w = "rate_prune now w"
  have inv: "rw_inv ?w"
    using assms(1) by (rule rate_prune_inv)
  then have "rw_inv (?w\<lparr>rw_next_reservation_id := Suc (rw_next_reservation_id ?w),
        rw_attempts := rw_attempts ?w @
          [\<lparr> res_id = rw_next_reservation_id ?w, res_started_at = now \<rparr>]\<rparr>)"
    if "length (rw_attempts ?w) < n"
    using that assms(2) by (auto simp: rw_inv_def less_Suc_eq)
  then show ?thesis
    using assms(3) inv
    by (auto simp: try_reserve_def Let_def checked_add_u64_def not_le split: if_splits)
qed

section \<open>The window as a revocable sliding window\<close>

text \<open>
  The interface's admission is \<open>try_reserve\<close> with a valid finite limit; what it also looks at
  are the waiting pinned requests and whether this request is pinned.
\<close>

definition rate_admit ::
  "nat \<times> bool \<Rightarrow> instant \<Rightarrow> nat \<Rightarrow> rate_window \<Rightarrow> (rate_window \<times> rate_reservation option) option" where
  "rate_admit x now n w =
     (case rpm_new n of
        None \<Rightarrow> None
      | Some limit \<Rightarrow>
          (case try_reserve w now (Some limit) (fst x) (snd x) of
             None \<Rightarrow> None
           | Some (w', Inl _) \<Rightarrow> Some (w', None)
           | Some (w', Inr r) \<Rightarrow> Some (w', r)))"

lemma rate_admit_cases:
  assumes "rw_chron now w" "rate_admit x now n w = Some (w', r)"
  shows "1 \<le> n \<and> n \<le> MAX_REQUESTS_PER_MINUTE \<and>
    (case r of
       None \<Rightarrow> rw_attempts w' = rw_live now w
     | Some e \<Rightarrow> rw_attempts w' = rw_live now w @ [e] \<and> res_started_at e = now \<and>
         length (rw_live now w) < n)"
  using assms
  by (auto simp: rate_admit_def rpm_new_def try_reserve_cases Let_def
      split: option.splits sum.splits if_splits)

abbreviation rate_withdraw :: "rate_reservation \<Rightarrow> rate_window \<Rightarrow> rate_window" where
  "rate_withdraw r w \<equiv> fst (rate_rollback w r)"

interpretation crw: revocable_window rw_inv rw_attempts res_started_at RATE_WINDOW rate_admit
  res_id rate_withdraw
proof (unfold_locales)
  show "rw_inv w'" if "rw_inv w" "rate_admit x now n w = Some (w', r)" for w x now n w' r
    using that try_reserve_inv [of w n now "fst x" "snd x" w']
    by (auto simp: rate_admit_def rpm_new_def split: option.splits sum.splits if_splits)
qed (auto dest: rate_admit_cases simp: rate_rollback_inv rate_rollback_attempts)

section \<open>Properties\<close>

text \<open>A window with one reservation, for the examples.\<close>

definition one_reservation :: rate_window where
  "one_reservation =
     \<lparr> rw_attempts = [\<lparr> res_id = 0, res_started_at = 5 \<rparr>], rw_next_reservation_id = 1 \<rparr>"

lemma one_reservation_ok: "rw_inv one_reservation" "5 \<le> now \<Longrightarrow> rw_chron now one_reservation"
  "rw_next_reservation_id one_reservation < u64_max"
  by (simp_all add: one_reservation_def u64_max_def rw_inv_def chronological_def MAX_REQUESTS_PER_MINUTE_def)

lemmas rate_eval =
  try_reserve_def rate_prune_def one_reservation_def next_available_at_def
  instant_checked_sub_def RATE_WINDOW_def nanos_per_sec_def Let_def

text \<open>
  C10. However requests with changing limits, pinned and unpinned, and rollbacks interleave, as
  long as the clock does not go back: in every minute the reservations that were not rolled back
  number at most the largest limit in force.
\<close>

theorem rate_window_never_exceeds_limit:
  assumes "run_window rate_admit rate_withdraw res_id ops (rate_window_new, []) = Some (w, log)"
    and "clock_from 0 ops" "limits_within L ops"
  shows "length (within_window res_started_at RATE_WINDOW t log) \<le> L"
  using crw.run_bounded [OF rate_window_new_inv(1) _ assms]
  by (simp add: window_bounded_def rate_window_new_def)

theorem rate_window_never_exceeds_limit_witness:
  "\<exists>w log. run_window rate_admit rate_withdraw res_id
       [Admit (0, False) 5 2, Admit (0, False) 6 2, Admit (0, False) 7 2,
        Withdraw \<lparr> res_id = 0, res_started_at = 5 \<rparr>, Admit (0, True) 8 2] (rate_window_new, []) =
         Some (w, log) \<and>
     map res_started_at log = [6, 8] \<and>
     length (within_window res_started_at RATE_WINDOW 8 log) \<le> 2"
proof -
  let ?ops = "[Admit (0, False) 5 2, Admit (0, False) 6 2, Admit (0, False) 7 2,
        Withdraw \<lparr> res_id = 0, res_started_at = 5 \<rparr>, Admit (0, True) 8 2]"
  obtain w log where r: "run_window rate_admit rate_withdraw res_id ?ops (rate_window_new, []) =
      Some (w, log)" "map res_started_at log = [6, 8]"
    by (simp add: rate_admit_def rpm_new_def MAX_REQUESTS_PER_MINUTE_def try_reserve_def
        rate_window_new_def rate_prune_def next_available_at_def rate_rollback_def
        instant_checked_sub_def RATE_WINDOW_def nanos_per_sec_def checked_add_u64_def u64_max_def Let_def)
  show ?thesis
    using rate_window_never_exceeds_limit [OF r(1), of 2 8] r by auto
qed

text \<open>
  A refusal with a retry instant is exact. Nothing is admitted at that limit before the
  instant, and a pinned request is admitted from that instant on, unless another reservation
  takes the place first. A refusal without an instant is only given to unpinned requests, to
  leave the places free that pinned requests wait for.
\<close>

lemma rate_retry_at_exact:
  assumes "rw_inv w" "rw_chron now w" "1 \<le> n"
    and "try_reserve w now (Some n) fixed_waiters fixed = Some (w', Inl (RateLimited t))"
    and "now \<le> later" "rw_next_reservation_id w < u64_max"
  shows "case t of
           Some instant \<Rightarrow>
             now < instant \<and>
             (\<exists>w'' r. try_reserve w' later (Some n) 0 True = Some (w'', r) \<and>
                (isl r \<longleftrightarrow> later < instant))
         | None \<Rightarrow> \<not> fixed \<and> n - length (rw_live now w) \<le> fixed_waiters"
proof -
  let ?l = "rw_live now w"
  note c = try_reserve_cases [OF assms(2,3), of fixed_waiters fixed]
  have w': "w' = w\<lparr>rw_attempts := ?l\<rparr>"
    using assms(4) c by (auto simp: Let_def split: if_splits)
  have chron: "rw_chron now w'" "rw_chron later w'"
    using assms(2) chronological_mono [OF assms(2,5)] w' by (simp_all add: chronological_live)
  show ?thesis
  proof (cases "n \<le> length ?l")
    case True
    then have t: "t = Some (res_started_at (?l ! (length ?l - n)) + RATE_WINDOW)"
      using assms(4) c by (simp add: Let_def)
    have below: "length (live res_started_at RATE_WINDOW later ?l) < n \<longleftrightarrow> the t \<le> later" for later
      using live_below_iff [OF _ assms(3) True] chron(1) w' t by simp
    have "now < the t"
      using below [of now] True by (simp add: live_live)
    then show ?thesis
      using t below [of later] try_reserve_cases [OF chron(2) assms(3), of 0 True] w' assms(6)
      by (auto simp: Let_def not_le)
  next
    case False
    then show ?thesis
      using assms(4) c by (auto simp: Let_def split: if_splits)
  qed
qed



end
