(* ===== verification/Gateway_Rate.thy ===== *)
theory Gateway_Rate
  imports Credential_Rate
begin

text \<open>
  The per-gateway-key request limit of \<open>crates/runtime/src/gateway_api_key/rate_limit.rs\<close>.

  Every key has a handle, a queue of admission instants behind a lock. The registry hands out
  bindings, which share the handle and carry the limit of one published configuration; a new
  configuration keeps the handles of the keys it retains. Because bindings of several
  configurations alias the same handle, handles live in an explicit store and are named by their
  address. The handle's queue interprets \<open>sliding_window\<close> as \<open>grw\<close>.
\<close>

section \<open>The window of one key\<close>

definition GATEWAY_RATE_WINDOW :: duration where
  "GATEWAY_RATE_WINDOW = from_secs 60"

definition retry_after_seconds :: "instant \<Rightarrow> instant \<Rightarrow> nat" where
  "retry_after_seconds retry_at now =
     (let retry_after = duration_since retry_at now in
      max (saturating_add_u64 (retry_after div nanos_per_sec)
             (if retry_after mod nanos_per_sec \<noteq> 0 then 1 else 0)) 1)"

text \<open>
  \<open>GatewayApiKeyRateHandle::try_admit\<close>: the new queue, and the seconds to wait when the
  request is refused. \<open>None\<close> is the panic of the index, which a limit of zero would cause.
\<close>

definition handle_try_admit ::
  "instant list \<Rightarrow> instant \<Rightarrow> nat \<Rightarrow> (instant list \<times> (nat + unit)) option" where
  "handle_try_admit attempts now limit =
     (let attempts = dropWhile (\<lambda>attempt. case instant_checked_sub now GATEWAY_RATE_WINDOW of
                                    None \<Rightarrow> False
                                  | Some cutoff \<Rightarrow> attempt \<le> cutoff) attempts in
      if limit \<le> length attempts
      then (if length attempts - limit < length attempts
            then (let retry_at = attempts ! (length attempts - limit) + GATEWAY_RATE_WINDOW
                  in Some (attempts, Inl (retry_after_seconds retry_at now)))
            else None)
      else Some (attempts @ [now], Inr ()))"

section \<open>The registry\<close>

type_synonym gateway_key_id = nat
type_synonym handle_addr = nat

record rate_binding =
  bind_handle :: handle_addr
  bind_requests_per_minute :: "nat option"

record rate_registry =
  rr_windows :: "handle_addr \<Rightarrow> instant list"
  rr_next_addr :: handle_addr
  rr_handles :: "gateway_key_id \<rightharpoonup> handle_addr"

type_synonym rate_bindings = "gateway_key_id \<rightharpoonup> rate_binding"

definition rate_registry_default :: rate_registry where
  "rate_registry_default =
     \<lparr> rr_windows = (\<lambda>_. []), rr_next_addr = 0, rr_handles = (\<lambda>_. None) \<rparr>"

text \<open>\<open>entry(id).or_insert_with\<close>: the handle of a key, allocated when it is new.\<close>

definition handle_entry :: "rate_registry \<Rightarrow> gateway_key_id \<Rightarrow> rate_registry \<times> handle_addr" where
  "handle_entry rr key =
     (case rr_handles rr key of
        Some a \<Rightarrow> (rr, a)
      | None \<Rightarrow>
          (let a = rr_next_addr rr
           in (rr\<lparr>rr_windows := (rr_windows rr)(a := []), rr_next_addr := Suc a,
                  rr_handles := (rr_handles rr)(key \<mapsto> a)\<rparr>, a)))"

fun reconcile_loop ::
  "(gateway_key_id \<times> nat option) list \<Rightarrow> rate_registry \<times> rate_bindings \<Rightarrow>
   rate_registry \<times> rate_bindings" where
  "reconcile_loop [] (rr, bindings) = (rr, bindings)"
| "reconcile_loop ((key, requests_per_minute) # specs) (rr, bindings) =
     (let (rr', a) = handle_entry rr key in
      reconcile_loop specs
        (rr', bindings(key \<mapsto> \<lparr> bind_handle = a,
                               bind_requests_per_minute = requests_per_minute \<rparr>)))"

definition reconcile_specs ::
  "rate_registry \<Rightarrow> (gateway_key_id \<times> nat option) list \<Rightarrow> rate_registry \<times> rate_bindings" where
  "reconcile_specs rr specs =
     (let active_ids = set (map fst specs);
          (rr', bindings) = reconcile_loop specs (rr, \<lambda>_. None)
      in (rr'\<lparr>rr_handles := rr_handles rr' |` active_ids\<rparr>, bindings))"

definition binding_try_admit_at ::
  "rate_registry \<Rightarrow> rate_binding \<Rightarrow> instant \<Rightarrow> (rate_registry \<times> (nat + unit)) option" where
  "binding_try_admit_at rr b now =
     (case bind_requests_per_minute b of
        None \<Rightarrow> Some (rr, Inr ())
      | Some limit \<Rightarrow>
          map_option (\<lambda>(attempts, r). (rr\<lparr>rr_windows := (rr_windows rr)(bind_handle b := attempts)\<rparr>, r))
            (handle_try_admit (rr_windows rr (bind_handle b)) now limit))"

text \<open>\<open>GatewayApiKeyRateBindings::try_admit\<close>: a key without binding is a panic.\<close>

definition bindings_try_admit ::
  "rate_registry \<Rightarrow> rate_bindings \<Rightarrow> gateway_key_id \<Rightarrow> instant \<Rightarrow>
   (rate_registry \<times> (nat + unit)) option" where
  "bindings_try_admit rr bindings key now =
     (case bindings key of None \<Rightarrow> None | Some b \<Rightarrow> binding_try_admit_at rr b now)"

section \<open>The window as a sliding window\<close>

definition gateway_admit ::
  "unit \<Rightarrow> instant \<Rightarrow> nat \<Rightarrow> instant list \<Rightarrow> (instant list \<times> instant option) option" where
  "gateway_admit x now n w =
     (case handle_try_admit w now n of
        None \<Rightarrow> None
      | Some (w', Inl _) \<Rightarrow> Some (w', None)
      | Some (w', Inr _) \<Rightarrow> Some (w', Some now))"

abbreviation gw_live :: "instant \<Rightarrow> instant list \<Rightarrow> instant list" where
  "gw_live \<equiv> live (\<lambda>t. t) GATEWAY_RATE_WINDOW"

abbreviation gw_chron :: "instant \<Rightarrow> instant list \<Rightarrow> bool" where
  "gw_chron \<equiv> chronological (\<lambda>t. t)"

lemma GATEWAY_RATE_WINDOW_pos [simp]: "0 < GATEWAY_RATE_WINDOW"
  by (simp add: GATEWAY_RATE_WINDOW_def nanos_per_sec_def)

lemma handle_try_admit_cases:
  assumes "gw_chron now w" "1 \<le> n"
  shows "handle_try_admit w now n =
     (let l = gw_live now w in
      if n \<le> length l
      then Some (l, Inl (retry_after_seconds (l ! (length l - n) + GATEWAY_RATE_WINDOW) now))
      else Some (l @ [now], Inr ()))"
  using assms(2) prune_live [OF assms(1) GATEWAY_RATE_WINDOW_pos]
  by (auto simp: handle_try_admit_def Let_def)

lemma handle_try_admit_zero: "handle_try_admit w now 0 = None"
  by (simp add: handle_try_admit_def Let_def)

lemma gateway_admit_cases:
  assumes "gw_chron now w" "gateway_admit x now n w = Some (w', r)"
  shows "1 \<le> n \<and>
    (case r of
       None \<Rightarrow> w' = gw_live now w
     | Some t \<Rightarrow> w' = gw_live now w @ [now] \<and> t = now \<and> length (gw_live now w) < n)"
proof -
  have n: "1 \<le> n"
    using assms(2) handle_try_admit_zero by (cases n) (auto simp: gateway_admit_def)
  show ?thesis
    using assms n by (auto simp: gateway_admit_def handle_try_admit_cases Let_def split: if_splits)
qed

interpretation grw: sliding_window "\<lambda>w. True" "\<lambda>w. w" "\<lambda>t. t" GATEWAY_RATE_WINDOW gateway_admit
  by unfold_locales (auto dest: gateway_admit_cases)

section \<open>Reconciliation\<close>

definition rr_inv :: "rate_registry \<Rightarrow> bool" where
  "rr_inv rr \<longleftrightarrow>
     (\<forall>key a. rr_handles rr key = Some a \<longrightarrow> a < rr_next_addr rr) \<and>
     (\<forall>key key' a. rr_handles rr key = Some a \<longrightarrow> rr_handles rr key' = Some a \<longrightarrow> key = key') \<and>
     (\<forall>a. rr_next_addr rr \<le> a \<longrightarrow> rr_windows rr a = [])"

lemma rate_registry_default_inv [inv_intros]: "rr_inv rate_registry_default"
  by (simp add: rr_inv_def rate_registry_default_def)

lemma handle_entry_ok:
  assumes "rr_inv rr" "handle_entry rr key = (rr', a)"
  shows "rr_inv rr'" "rr_windows rr' = rr_windows rr" "rr_next_addr rr \<le> rr_next_addr rr'"
    "rr_handles rr' = (rr_handles rr)(key \<mapsto> a)"
    "rr_handles rr key = Some a \<or> (rr_handles rr key = None \<and> rr_next_addr rr \<le> a)"
    "a < rr_next_addr rr'"
proof -
  have "rr_inv rr' \<and> rr_windows rr' = rr_windows rr \<and> rr_next_addr rr \<le> rr_next_addr rr' \<and>
    rr_handles rr' = (rr_handles rr)(key \<mapsto> a) \<and>
    (rr_handles rr key = Some a \<or> (rr_handles rr key = None \<and> rr_next_addr rr \<le> a)) \<and>
    a < rr_next_addr rr'"
  proof (cases "rr_handles rr key")
    case None
    have "(rr_windows rr)(rr_next_addr rr := []) = rr_windows rr"
      using assms(1) by (auto simp: rr_inv_def)
    moreover have "rr_inv (rr\<lparr>rr_next_addr := Suc (rr_next_addr rr),
        rr_handles := (rr_handles rr)(key \<mapsto> rr_next_addr rr)\<rparr>)"
      using assms(1) by (fastforce simp: rr_inv_def less_Suc_eq)
    ultimately show ?thesis
      using None assms(2) by (auto simp: handle_entry_def Let_def)
  next
    case (Some b)
    then show ?thesis
      using assms by (auto simp: handle_entry_def rr_inv_def fun_upd_idem)
  qed
  then show "rr_inv rr'" "rr_windows rr' = rr_windows rr" "rr_next_addr rr \<le> rr_next_addr rr'"
    "rr_handles rr' = (rr_handles rr)(key \<mapsto> a)"
    "rr_handles rr key = Some a \<or> (rr_handles rr key = None \<and> rr_next_addr rr \<le> a)"
    "a < rr_next_addr rr'"
    by auto
qed

text \<open>
  \<open>reconciled rr keys rr'\<close>: no window changed, every known key kept its handle, and the handles
  of the keys that came in are new.
\<close>

definition reconciled :: "rate_registry \<Rightarrow> gateway_key_id set \<Rightarrow> rate_registry \<Rightarrow> bool" where
  "reconciled rr keys rr' \<longleftrightarrow>
     rr_inv rr' \<and> rr_windows rr' = rr_windows rr \<and> rr_next_addr rr \<le> rr_next_addr rr' \<and>
     rr_handles rr \<subseteq>\<^sub>m rr_handles rr' \<and> dom (rr_handles rr') = dom (rr_handles rr) \<union> keys \<and>
     (\<forall>key a. rr_handles rr key = None \<longrightarrow> rr_handles rr' key = Some a \<longrightarrow> rr_next_addr rr \<le> a)"

lemma reconciled_refl: "rr_inv rr \<Longrightarrow> reconciled rr {} rr"
  by (simp add: reconciled_def)

lemma reconciled_step:
  assumes "rr_inv rr" "handle_entry rr key = (rr1, a)" "reconciled rr1 keys rr'"
  shows "reconciled rr (insert key keys) rr'" "rr_handles rr' key = Some a"
proof -
  note e = handle_entry_ok [OF assms(1,2)]
  have le: "rr_handles rr \<subseteq>\<^sub>m rr_handles rr1"
    using e(4,5) by (auto simp: map_le_def)
  show a: "rr_handles rr' key = Some a"
    using assms(3) e(4) by (auto simp: reconciled_def map_le_def dom_def)
  have new: "rr_next_addr rr \<le> b" if "rr_handles rr k = None" "rr_handles rr' k = Some b" for k b
  proof (cases "k = key")
    case True
    then show ?thesis using that a e(5) by auto
  next
    case False
    then have "rr_handles rr1 k = None" using that e(4) by simp
    then have "rr_next_addr rr1 \<le> b" using that(2) assms(3) by (auto simp: reconciled_def)
    then show ?thesis using e(3) by simp
  qed
  show "reconciled rr (insert key keys) rr'"
    using assms(3) e(2,3,4) map_le_trans [OF le] new by (auto simp: reconciled_def)
qed

lemma reconcile_loop_ok:
  assumes "rr_inv rr" "reconcile_loop specs (rr, bs) = (rr', bs')"
  shows "reconciled rr (set (map fst specs)) rr' \<and>
    (\<forall>key. bs' key =
       (case map_of (rev specs) key of
          None \<Rightarrow> bs key
        | Some rpm \<Rightarrow> Some \<lparr> bind_handle = the (rr_handles rr' key), bind_requests_per_minute = rpm \<rparr>))"
  using assms
proof (induction specs arbitrary: rr bs)
  case Nil
  then show ?case by (simp add: reconciled_refl)
next
  case (Cons sp specs)
  obtain key rpm where sp: "sp = (key, rpm)" by fastforce
  obtain rr1 a where a: "handle_entry rr key = (rr1, a)" by fastforce
  have "reconcile_loop specs
      (rr1, bs(key \<mapsto> \<lparr> bind_handle = a, bind_requests_per_minute = rpm \<rparr>)) = (rr', bs')"
    using Cons.prems(2) by (simp add: sp a)
  note IH = Cons.IH [OF handle_entry_ok(1) [OF Cons.prems(1) a] this]
  show ?case
    using IH reconciled_step [OF Cons.prems(1) a, of "set (map fst specs)" rr']
    by (auto simp: sp map_add_def split: option.splits)
qed

lemma reconcile_specs_ok:
  assumes "rr_inv rr" "reconcile_specs rr specs = (rr', bs)"
  shows "rr_inv rr'" "rr_windows rr' = rr_windows rr" "rr_next_addr rr \<le> rr_next_addr rr'"
    "dom (rr_handles rr') = set (map fst specs)"
    "\<And>key. bs key = map_option
       (\<lambda>rpm. \<lparr> bind_handle = the (rr_handles rr' key), bind_requests_per_minute = rpm \<rparr>)
       (map_of (rev specs) key)"
    "\<And>key a. rr_handles rr' key = Some a \<Longrightarrow>
       rr_handles rr key = Some a \<or> (rr_handles rr key = None \<and> rr_next_addr rr \<le> a)"
proof -
  obtain rr1 where l: "reconcile_loop specs (rr, \<lambda>_. None) = (rr1, bs)"
    and rr': "rr' = rr1\<lparr>rr_handles := rr_handles rr1 |` set (map fst specs)\<rparr>"
    using assms(2) by (auto simp: reconcile_specs_def Let_def split: prod.splits)
  note ok = reconcile_loop_ok [OF assms(1) l]
  then have r: "reconciled rr (set (map fst specs)) rr1"
    and bs: "\<And>key. bs key = (case map_of (rev specs) key of None \<Rightarrow> None
        | Some rpm \<Rightarrow> Some \<lparr> bind_handle = the (rr_handles rr1 key), bind_requests_per_minute = rpm \<rparr>)"
    by auto
  have "rr_inv rr1" using r by (simp add: reconciled_def)
  then show "rr_inv rr'"
    using rr' by (fastforce simp: rr_inv_def restrict_map_def split: if_splits)
  show "rr_windows rr' = rr_windows rr" "rr_next_addr rr \<le> rr_next_addr rr'"
    using r rr' by (simp_all add: reconciled_def)
  show "dom (rr_handles rr') = set (map fst specs)"
    using r rr' by (auto simp: reconciled_def)
  show "bs key = map_option
       (\<lambda>rpm. \<lparr> bind_handle = the (rr_handles rr' key), bind_requests_per_minute = rpm \<rparr>)
       (map_of (rev specs) key)" for key
    using bs [of key] rr' map_of_SomeD [of "rev specs" key]
    by (force simp: restrict_map_def split: option.splits)
  show "rr_handles rr key = Some a \<or> (rr_handles rr key = None \<and> rr_next_addr rr \<le> a)"
    if "rr_handles rr' key = Some a" for key a
    using r that rr' by (cases "rr_handles rr key")
      (auto simp: reconciled_def map_le_def dom_def restrict_map_def split: if_splits)
qed

section \<open>The gateway over time\<close>

text \<open>
  Configurations are published and requests arrive in any order. A request holds the bindings of
  the configuration it was authenticated under, which need not be the latest one. The history
  records the handle and the instant of every admission that passed a finite limit.
\<close>

datatype gateway_op =
    Publish "(gateway_key_id \<times> nat option) list"
  | Request nat gateway_key_id instant

record gateway_run =
  gr_registry :: rate_registry
  gr_published :: "rate_bindings list"
  gr_clock :: instant
  gr_log :: "(handle_addr \<times> instant) list"

definition gateway_start :: gateway_run where
  "gateway_start =
     \<lparr> gr_registry = rate_registry_default, gr_published = [], gr_clock = 0, gr_log = [] \<rparr>"

fun gateway_step :: "gateway_run \<Rightarrow> gateway_op \<Rightarrow> gateway_run option" where
  "gateway_step g (Publish specs) =
     (let (rr, bs) = reconcile_specs (gr_registry g) specs
      in Some (g\<lparr>gr_registry := rr, gr_published := gr_published g @ [bs]\<rparr>))"
| "gateway_step g (Request k key now) =
     (if k < length (gr_published g) \<and> gr_clock g \<le> now
      then (case (gr_published g ! k) key of
              None \<Rightarrow> None
            | Some b \<Rightarrow>
                (case bindings_try_admit (gr_registry g) (gr_published g ! k) key now of
                   None \<Rightarrow> None
                 | Some (rr, r) \<Rightarrow>
                     Some (g\<lparr>gr_registry := rr, gr_clock := now,
                             gr_log := (if bind_requests_per_minute b \<noteq> None \<and> \<not> isl r
                                        then gr_log g @ [(bind_handle b, now)] else gr_log g)\<rparr>)))
      else None)"

fun gateway_steps :: "gateway_run \<Rightarrow> gateway_op list \<Rightarrow> gateway_run option" where
  "gateway_steps g [] = Some g"
| "gateway_steps g (op # ops) =
     (case gateway_step g op of None \<Rightarrow> None | Some g' \<Rightarrow> gateway_steps g' ops)"

definition log_of :: "gateway_run \<Rightarrow> handle_addr \<Rightarrow> instant list" where
  "log_of g a = map snd (filter (\<lambda>(b, t). b = a) (gr_log g))"

definition bindings_within :: "nat \<Rightarrow> rate_bindings \<Rightarrow> bool" where
  "bindings_within L bs \<longleftrightarrow>
     (\<forall>key b n. bs key = Some b \<longrightarrow> bind_requests_per_minute b = Some n \<longrightarrow> n \<le> L)"

fun op_within :: "nat \<Rightarrow> gateway_op \<Rightarrow> bool" where
  "op_within L (Publish specs) = (\<forall>(key, rpm)\<in>set specs. case rpm of None \<Rightarrow> True | Some n \<Rightarrow> n \<le> L)"
| "op_within L (Request k key now) = True"

definition gateway_inv :: "nat \<Rightarrow> gateway_run \<Rightarrow> bool" where
  "gateway_inv L g \<longleftrightarrow>
     rr_inv (gr_registry g) \<and>
     (\<forall>bs\<in>set (gr_published g). bindings_within L bs \<and>
        (\<forall>key b. bs key = Some b \<longrightarrow> bind_handle b < rr_next_addr (gr_registry g))) \<and>
     (\<forall>a. window_bounded (\<lambda>t. t) GATEWAY_RATE_WINDOW L (log_of g a) \<and>
        (\<exists>p\<le>gr_clock g. grw.tracks p (log_of g a) (rr_windows (gr_registry g) a)))"

lemma gateway_start_inv [inv_intros]: "gateway_inv L gateway_start"
  by (auto simp: gateway_inv_def gateway_start_def rr_inv_def rate_registry_default_def log_of_def
      window_bounded_Nil grw.tracks_def chronological_def live_def)

lemma publish_inv [inv_intros]:
  assumes "gateway_inv L g" "op_within L (Publish specs)" "gateway_step g (Publish specs) = Some g'"
  shows "gateway_inv L g'"
proof -
  obtain rr bs where r: "reconcile_specs (gr_registry g) specs = (rr, bs)" by fastforce
  then have g': "g' = g\<lparr>gr_registry := rr, gr_published := gr_published g @ [bs]\<rparr>"
    using assms(3) by simp
  have inv: "rr_inv (gr_registry g)"
    using assms(1) by (simp add: gateway_inv_def)
  note ok = reconcile_specs_ok [OF inv r]
  have spec: "rpm \<in> snd ` set specs \<and> key \<in> dom (rr_handles rr)"
    if "map_of (rev specs) key = Some rpm" for key rpm
    using map_of_SomeD [OF that] ok(4) by force
  have within: "bindings_within L bs"
    unfolding bindings_within_def using assms(2) spec by (fastforce simp: ok(5))
  have addr: "bind_handle b < rr_next_addr rr" if "bs key = Some b" for key b
    using that spec [of key] ok(1) by (auto simp: ok(5) rr_inv_def)
  show ?thesis
    using assms(1) ok(1,2,3) within addr order_less_le_trans
    by (fastforce simp: g' gateway_inv_def log_of_def)
qed

lemma binding_admit_window:
  assumes "binding_try_admit_at rr b now = Some (rr', r)" "bind_requests_per_minute b = Some n"
  shows "gateway_admit () now n (rr_windows rr (bind_handle b)) =
           Some (rr_windows rr' (bind_handle b), if isl r then None else Some now)"
    "rr_next_addr rr' = rr_next_addr rr" "rr_handles rr' = rr_handles rr"
    "a \<noteq> bind_handle b \<Longrightarrow> rr_windows rr' a = rr_windows rr a"
  using assms by (auto simp: binding_try_admit_at_def gateway_admit_def split: sum.splits)

lemma gateway_inv_clock:
  assumes "gateway_inv L g" "gr_clock g \<le> now"
  shows "gateway_inv L (g\<lparr>gr_clock := now\<rparr>)"
proof -
  have "\<exists>p\<le>now. grw.tracks p (log_of g a) (rr_windows (gr_registry g) a)" for a
    using assms unfolding gateway_inv_def by (meson order_trans)
  then show ?thesis
    using assms(1) by (simp add: gateway_inv_def log_of_def)
qed

lemma request_inv [inv_intros]:
  assumes "gateway_inv L g" "gateway_step g (Request k key now) = Some g'"
  shows "gateway_inv L g'"
proof -
  from assms(2) obtain b rr r where k: "k < length (gr_published g)" "gr_clock g \<le> now"
    and b: "(gr_published g ! k) key = Some b"
    and adm: "binding_try_admit_at (gr_registry g) b now = Some (rr, r)"
    and g': "g' = g\<lparr>gr_registry := rr, gr_clock := now,
               gr_log := (if bind_requests_per_minute b \<noteq> None \<and> \<not> isl r
                          then gr_log g @ [(bind_handle b, now)] else gr_log g)\<rparr>"
    by (auto simp: bindings_try_admit_def split: if_splits option.splits)
  have pub: "bindings_within L (gr_published g ! k)" "bind_handle b < rr_next_addr (gr_registry g)"
    using assms(1) b nth_mem [OF k(1)] unfolding gateway_inv_def by blast+
  show ?thesis
  proof (cases "bind_requests_per_minute b")
    case None
    then have "rr = gr_registry g"
      using adm by (simp add: binding_try_admit_at_def)
    then have "g' = g\<lparr>gr_clock := now\<rparr>"
      using None g' by simp
    then show ?thesis
      using gateway_inv_clock [OF assms(1) k(2)] by simp
  next
    case (Some n)
    note w = binding_admit_window [OF adm Some]
    have n: "n \<le> L"
      using pub(1) b Some by (auto simp: bindings_within_def)
    have log: "log_of g' a = (if a = bind_handle b then
        (case (if isl r then None else Some now) of None \<Rightarrow> log_of g a | Some e \<Rightarrow> log_of g a @ [e])
        else log_of g a)" for a
      by (simp add: log_of_def g' Some)
    have "window_bounded (\<lambda>t. t) GATEWAY_RATE_WINDOW L (log_of g' a) \<and>
        (\<exists>p\<le>now. grw.tracks p (log_of g' a) (rr_windows rr a))" for a
    proof -
      obtain p where p: "p \<le> gr_clock g" "grw.tracks p (log_of g a) (rr_windows (gr_registry g) a)"
        and bnd: "window_bounded (\<lambda>t. t) GATEWAY_RATE_WINDOW L (log_of g a)"
        using assms(1) unfolding gateway_inv_def by blast
      show ?thesis
      proof (cases "a = bind_handle b")
        case True
        then show ?thesis
          using grw.tracks_admit [OF p(2) _ _ bnd n, of now "()"] w(1) p(1) k(2) log [of a]
          by fastforce
      next
        case False
        then show ?thesis
          using p bnd k(2) w(4) [OF False] log [of a] by auto (meson order_trans)
      qed
    qed
    moreover have "rr_inv rr"
      using assms(1) w(2,3,4) pub(2) by (auto simp: gateway_inv_def rr_inv_def)
    ultimately show ?thesis
      using assms(1) w(2) by (simp add: gateway_inv_def g')
  qed
qed

lemma gateway_steps_inv:
  "gateway_steps g ops = Some g' \<Longrightarrow> gateway_inv L g \<Longrightarrow> \<forall>op\<in>set ops. op_within L op \<Longrightarrow>
   gateway_inv L g'"
proof (induction ops arbitrary: g)
  case Nil
  then show ?case by simp
next
  case (Cons op ops)
  then obtain g1 where g1: "gateway_step g op = Some g1" "gateway_steps g1 ops = Some g'"
    by (auto split: option.splits)
  have "gateway_inv L g1"
    using Cons.prems(2,3) g1(1) by (cases op) (auto intro: publish_inv request_inv simp del: gateway_step.simps)
  then show ?case
    using Cons.IH g1(2) Cons.prems(3) by simp
qed

section \<open>Properties\<close>



lemma retry_after_seconds_exact:
  assumes "retry - now \<le> u64_max * nanos_per_sec"
  defines "s \<equiv> retry_after_seconds retry now"
  shows "1 \<le> s" "retry \<le> now + from_secs s" "1 < s \<Longrightarrow> now + from_secs (s - 1) < retry"
proof -
  define n q r where "n = nanos_per_sec" and "q = (retry - now) div n" and "r = (retry - now) mod n"
  have n: "0 < n"
    by (simp add: n_def nanos_per_sec_def)
  then have d: "retry - now = q * n + r" "r < n"
    by (simp_all add: q_def r_def)
  have bound: "q * n + r \<le> u64_max * n"
    using assms(1) d(1) by (simp add: n_def)
  then have "q * n \<le> u64_max * n"
    by (rule add_leD1)
  then have "q \<le> u64_max"
    using n by simp
  moreover have "q = u64_max \<Longrightarrow> r = 0"
    using bound by simp
  ultimately have s: "s = max (q + (if r \<noteq> 0 then 1 else 0)) 1"
    by (cases "q = u64_max")
      (auto simp: s_def retry_after_seconds_def saturating_add_u64_def duration_since_def Let_def
        n_def [symmetric] q_def [symmetric] r_def [symmetric])
  show "1 \<le> s" using s by simp
  have "q * n + r \<le> s * n"
  proof (cases "r = 0")
    case True
    then show ?thesis using s by simp
  next
    case False
    then have "Suc q * n \<le> s * n"
      using s by (intro mult_le_mono1) simp
    then show ?thesis using d(2) by simp
  qed
  then show "retry \<le> now + from_secs s"
    using d(1) by (simp add: n_def)
  show "now + from_secs (s - 1) < retry" if "1 < s"
  proof (cases "r = 0")
    case True
    then have "(s - 1) * n < q * n"
      using s that n by simp
    then have "(s - 1) * n < retry - now"
      using d(1) True by simp
    then show ?thesis unfolding n_def [symmetric] by linarith
  next
    case False
    then have "(s - 1) * n < retry - now"
      using s d(1) by simp
    then show ?thesis unfolding n_def [symmetric] by linarith
  qed
qed

text \<open>
  The seconds a refused request is told to wait are exact: at least one, after that long the
  same limit admits again, and one second less would not have been enough when more than one is
  reported. The refused request itself leaves no trace.
\<close>

lemma gateway_retry_after_exact:
  assumes "gw_chron now w" "1 \<le> n" "handle_try_admit w now n = Some (w', Inl s)"
  shows "w' = gw_live now w \<and> 1 \<le> s \<and>
    (\<exists>w''. handle_try_admit w' (now + from_secs s) n = Some (w'', Inr ())) \<and>
    (1 < s \<longrightarrow> (\<exists>w'' s'. handle_try_admit w' (now + from_secs (s - 1)) n = Some (w'', Inl s')))"
proof -
  let ?l = "gw_live now w" and ?r = "gw_live now w ! (length (gw_live now w) - n) + GATEWAY_RATE_WINDOW"
  note c = handle_try_admit_cases [OF assms(1,2)]
  have w': "w' = ?l" using assms(3) c by (auto simp: Let_def split: if_splits)
  have full: "n \<le> length ?l" and s: "s = retry_after_seconds ?r now"
    using assms(3) c by (auto simp: Let_def split: if_splits)
  have chron: "gw_chron now ?l"
    using assms(1) by (rule chronological_live)
  have "?l ! (length ?l - n) \<le> now"
    using chron full assms(2) by (simp add: chronological_def)
  then have "?r - now \<le> u64_max * nanos_per_sec"
    by (simp add: GATEWAY_RATE_WINDOW_def nanos_per_sec_def u64_max_def)
  note e = retry_after_seconds_exact [OF this, folded s]
  have "gw_chron later ?l" if "now \<le> later" for later
    using chron that by (rule chronological_mono)
  note later = handle_try_admit_cases [OF this assms(2)]
    live_below_iff [OF chron assms(2) full, of GATEWAY_RATE_WINDOW]
  have "\<exists>w''. handle_try_admit w' (now + from_secs s) n = Some (w'', Inr ())"
    using later(1) [of "now + from_secs s"] later(2) [of "now + from_secs s"] e(2) w'
    by (auto simp: Let_def)
  moreover have "\<exists>w'' s'. handle_try_admit w' (now + from_secs (s - 1)) n = Some (w'', Inl s')" if "1 < s"
    using later(1) [of "now + from_secs (s - 1)"] later(2) [of "now + from_secs (s - 1)"] e(3) [OF that] w'
    by (auto simp: Let_def)
  ultimately show ?thesis
    using w' e(1) by blast
qed

text \<open>
  C35. A new configuration keeps what it retains: the registry then knows exactly the configured
  keys, a key that was known keeps its handle and no window changes, a new key gets a handle that
  no other key and no earlier configuration uses, with an empty window, and each binding carries
  the key's handle and the new limit.
\<close>

theorem reconcile_specs_correct:
  assumes "rr_inv rr" "reconcile_specs rr specs = (rr', bindings)"
  shows "rr_inv rr' \<and> rr_windows rr' = rr_windows rr \<and> dom (rr_handles rr') = set (map fst specs) \<and>
    (\<forall>key a. rr_handles rr' key = Some a \<longrightarrow>
       rr_handles rr key = Some a \<or>
       rr_handles rr key = None \<and> rr_next_addr rr \<le> a \<and> rr_windows rr' a = []) \<and>
    (\<forall>key. bindings key = map_option
       (\<lambda>rpm. \<lparr> bind_handle = the (rr_handles rr' key), bind_requests_per_minute = rpm \<rparr>)
       (map_of (rev specs) key))"
proof -
  note ok = reconcile_specs_ok [OF assms]
  have "rr_windows rr a = []" if "rr_next_addr rr \<le> a" for a
    using assms(1) that by (simp add: rr_inv_def)
  then show ?thesis
    using ok(1,2,4,5) ok(6) by (intro conjI allI impI) (simp_all, blast)
qed

theorem reconcile_specs_correct_witness:
  "\<exists>rr bs rr' bs'. reconcile_specs rate_registry_default [(7, Some 2)] = (rr, bs) \<and>
     reconcile_specs rr [(7, Some 1), (8, None)] = (rr', bs') \<and>
     dom (rr_handles rr') = {7, 8} \<and> rr_handles rr' 7 = rr_handles rr 7"
proof -
  obtain rr bs where 1: "reconcile_specs rate_registry_default [(7, Some 2)] = (rr, bs)" by fastforce
  obtain rr' bs' where 2: "reconcile_specs rr [(7, Some 1), (8, None)] = (rr', bs')" by fastforce
  have rr: "rr_inv rr" "7 \<in> dom (rr_handles rr)"
    using reconcile_specs_correct [OF rate_registry_default_inv 1] by simp_all
  note r = reconcile_specs_correct [OF rr(1) 2]
  have d: "dom (rr_handles rr') = {7, 8}"
    using r by simp
  then obtain a where a: "rr_handles rr' 7 = Some a"
    by (metis domD insertI1)
  then have "rr_handles rr' 7 = rr_handles rr 7"
    using r rr(2) by force
  with d show ?thesis
    using 1 2 by blast
qed

end
