(* ===== verification/Wake_Schedule.thy ===== *)
theory Wake_Schedule
  imports Gateway_Prelude
begin

text \<open>
  The wake schedule of \<open>crates/runtime/src/routing/epoch/schedule.rs\<close>: for each slot at most one
  deadline, and for each deadline the slots that wait for it, kept in step.

  The ordered map by deadline is a list with strictly ascending keys; a set of slots is a set.
  \<open>ws_inv\<close> says that the two indexes describe the same pairs. The locale \<open>wake_queue\<close> is what
  the scheduler relies on; the schedule interprets it as \<open>wsq\<close>.
\<close>

section \<open>Ordered maps\<close>

fun bt_put :: "'k::linorder \<Rightarrow> 'v \<Rightarrow> ('k \<times> 'v) list \<Rightarrow> ('k \<times> 'v) list" where
  "bt_put k v [] = [(k, v)]"
| "bt_put k v ((k', v') # xs) =
     (if k < k' then (k, v) # (k', v') # xs
      else if k = k' then (k, v) # xs
      else (k', v') # bt_put k v xs)"

definition bt_remove :: "'k \<Rightarrow> ('k \<times> 'v) list \<Rightarrow> ('k \<times> 'v) list" where
  "bt_remove k xs = filter (\<lambda>(k', v). k' \<noteq> k) xs"

abbreviation bt_ordered :: "('k::linorder \<times> 'v) list \<Rightarrow> bool" where
  "bt_ordered xs \<equiv> sorted_wrt (<) (map fst xs)"

lemma bt_put_keys: "set (map fst (bt_put k v xs)) = insert k (set (map fst xs))"
  by (induction k v xs rule: bt_put.induct) auto

lemma bt_put_ordered: "bt_ordered xs \<Longrightarrow> bt_ordered (bt_put k v xs)"
proof (induction k v xs rule: bt_put.induct)
  case (2 k v k' v' xs)
  then show ?case
    using bt_put_keys [of k v xs] by fastforce
qed simp

lemma bt_put_lookup [simp]: "bt_ordered xs \<Longrightarrow> map_of (bt_put k v xs) = (map_of xs)(k \<mapsto> v)"
proof (induction k v xs rule: bt_put.induct)
  case (2 k v k' v' xs)
  then show ?case
    by (auto simp: fun_eq_iff)
qed simp

lemma bt_remove_ordered: "bt_ordered xs \<Longrightarrow> bt_ordered (bt_remove k xs)"
  by (induction xs) (auto simp: bt_remove_def)

lemma bt_remove_lookup [simp]: "map_of (bt_remove k xs) = (map_of xs)(k := None)"
  by (induction xs) (auto simp: bt_remove_def fun_eq_iff)

lemma bt_head_least: "bt_ordered ((k, v) # xs) \<Longrightarrow> map_of xs k' = Some v' \<Longrightarrow> k < k'"
  by (force dest: map_of_SomeD)

section \<open>The schedule\<close>

record wake_schedule =
  ws_by_slot :: "nat \<rightharpoonup> instant"
  ws_by_deadline :: "(instant \<times> nat set) list"

definition wake_schedule_default :: wake_schedule where
  "wake_schedule_default = \<lparr> ws_by_slot = (\<lambda>_. None), ws_by_deadline = [] \<rparr>"

definition remove_reverse :: "(instant \<times> nat set) list \<Rightarrow> instant \<Rightarrow> nat \<Rightarrow> (instant \<times> nat set) list" where
  "remove_reverse by_deadline deadline slot =
     (case map_of by_deadline deadline of
        None \<Rightarrow> by_deadline
      | Some slots \<Rightarrow>
          (if slots - {slot} = {} then bt_remove deadline by_deadline
           else bt_put deadline (slots - {slot}) by_deadline))"

definition insert_deadline :: "(instant \<times> nat set) list \<Rightarrow> instant \<Rightarrow> nat \<Rightarrow> (instant \<times> nat set) list" where
  "insert_deadline by_deadline deadline slot =
     bt_put deadline
       (insert slot (case map_of by_deadline deadline of None \<Rightarrow> {} | Some slots \<Rightarrow> slots))
       by_deadline"

definition ws_schedule :: "wake_schedule \<Rightarrow> nat \<Rightarrow> instant \<Rightarrow> wake_schedule \<times> bool" where
  "ws_schedule w slot deadline =
     (if ws_by_slot w slot = Some deadline then (w, False)
      else
        (let by_deadline = (case ws_by_slot w slot of
                              Some previous \<Rightarrow> remove_reverse (ws_by_deadline w) previous slot
                            | None \<Rightarrow> ws_by_deadline w)
         in (w\<lparr>ws_by_slot := (ws_by_slot w)(slot \<mapsto> deadline),
               ws_by_deadline := insert_deadline by_deadline deadline slot\<rparr>, True)))"

definition ws_cancel :: "wake_schedule \<Rightarrow> nat \<Rightarrow> wake_schedule \<times> bool" where
  "ws_cancel w slot =
     (case ws_by_slot w slot of
        None \<Rightarrow> (w, False)
      | Some deadline \<Rightarrow>
          (w\<lparr>ws_by_slot := (ws_by_slot w)(slot := None),
             ws_by_deadline := remove_reverse (ws_by_deadline w) deadline slot\<rparr>, True))"

definition ws_next_deadline :: "wake_schedule \<Rightarrow> instant option" where
  "ws_next_deadline w =
     (case ws_by_deadline w of [] \<Rightarrow> None | (deadline, slots) # rest \<Rightarrow> Some deadline)"

fun remove_due_loop ::
  "instant \<Rightarrow> (nat \<rightharpoonup> instant) \<Rightarrow> (instant \<times> nat set) list \<Rightarrow> bool \<Rightarrow>
   (nat \<rightharpoonup> instant) \<times> (instant \<times> nat set) list \<times> bool" where
  "remove_due_loop now by_slot [] removed = (by_slot, [], removed)"
| "remove_due_loop now by_slot ((deadline, slots) # rest) removed =
     (if deadline \<le> now then remove_due_loop now (by_slot |` (- slots)) rest True
      else (by_slot, (deadline, slots) # rest, removed))"

definition ws_remove_due :: "wake_schedule \<Rightarrow> instant \<Rightarrow> wake_schedule \<times> bool" where
  "ws_remove_due w now =
     (case remove_due_loop now (ws_by_slot w) (ws_by_deadline w) False of
        (by_slot, by_deadline, removed) \<Rightarrow>
          (w\<lparr>ws_by_slot := by_slot, ws_by_deadline := by_deadline\<rparr>, removed))"

section \<open>The two indexes agree\<close>

definition index_agrees :: "(nat \<rightharpoonup> instant) \<Rightarrow> (instant \<times> nat set) list \<Rightarrow> bool" where
  "index_agrees by_slot by_deadline \<longleftrightarrow>
     bt_ordered by_deadline \<and> (\<forall>(d, S)\<in>set by_deadline. S \<noteq> {}) \<and>
     (\<forall>s d. by_slot s = Some d \<longleftrightarrow> (\<exists>S. map_of by_deadline d = Some S \<and> s \<in> S))"

definition ws_inv :: "wake_schedule \<Rightarrow> bool" where
  "ws_inv w \<longleftrightarrow> index_agrees (ws_by_slot w) (ws_by_deadline w)"

lemma bt_set_map_of: "bt_ordered xs \<Longrightarrow> (k, v) \<in> set xs \<longleftrightarrow> map_of xs k = Some v"
  using strict_sorted_iff [of "map fst xs"] by (auto dest: map_of_SomeD)

lemma index_agrees_alt:
  "index_agrees by_slot by_deadline \<longleftrightarrow>
     bt_ordered by_deadline \<and> (\<forall>d. map_of by_deadline d \<noteq> Some {}) \<and>
     (\<forall>s d. by_slot s = Some d \<longleftrightarrow> (\<exists>S. map_of by_deadline d = Some S \<and> s \<in> S))"
  by (auto simp: index_agrees_def bt_set_map_of)

lemma index_agreesD:
  "index_agrees by_slot by_deadline \<Longrightarrow> map_of by_deadline d = Some S \<Longrightarrow> s \<in> S \<Longrightarrow>
   by_slot s = Some d"
  by (simp add: index_agrees_alt)

lemma wake_schedule_default_inv [inv_intros]: "ws_inv wake_schedule_default"
  by (simp add: ws_inv_def index_agrees_def wake_schedule_default_def)

lemma remove_reverse_agrees:
  assumes "index_agrees by_slot by_deadline" "by_slot slot = Some d"
  shows "index_agrees (by_slot(slot := None)) (remove_reverse by_deadline d slot)"
proof -
  obtain S where S: "map_of by_deadline d = Some S" "slot \<in> S"
    using assms by (auto simp: index_agrees_alt)
  have o: "bt_ordered by_deadline"
    using assms(1) by (simp add: index_agrees_alt)
  have other: "slot \<notin> T" if "map_of by_deadline d' = Some T" "d' \<noteq> d" for d' T
    using assms(2) that index_agreesD [OF assms(1) that(1), of slot] by auto
  show ?thesis
    using assms S o other
    by (auto simp: index_agrees_alt remove_reverse_def bt_remove_ordered bt_put_ordered
        split: if_splits)
qed

lemma insert_deadline_agrees:
  assumes "index_agrees by_slot by_deadline" "by_slot slot = None"
  shows "index_agrees (by_slot(slot \<mapsto> d)) (insert_deadline by_deadline d slot)"
proof -
  have fresh: "slot \<notin> T" if "map_of by_deadline d' = Some T" for d' T
    using assms(2) index_agreesD [OF assms(1) that, of slot] by auto
  show ?thesis
    using assms fresh
    by (auto simp: index_agrees_alt insert_deadline_def bt_put_ordered split: option.splits if_splits)
qed

lemma remove_due_loop_agrees:
  assumes "index_agrees by_slot by_deadline"
    and "remove_due_loop now by_slot by_deadline removed = (by_slot', by_deadline', removed')"
  shows "index_agrees by_slot' by_deadline' \<and>
    by_slot' = by_slot |` {s. \<exists>d. by_slot s = Some d \<and> now < d} \<and>
    (removed' \<longleftrightarrow> removed \<or> (\<exists>s d. by_slot s = Some d \<and> d \<le> now))"
  using assms
proof (induction now by_slot by_deadline removed rule: remove_due_loop.induct)
  case (1 now by_slot removed)
  then show ?case by (auto simp: index_agrees_alt restrict_map_def fun_eq_iff)
next
  case (2 now by_slot deadline slots rest removed)
  show ?case
  proof (cases "deadline \<le> now")
    case True
    have slots: "s \<in> slots \<longleftrightarrow> by_slot s = Some deadline" for s
      using 2(2) by (auto simp: index_agrees_alt)
    have "index_agrees (by_slot |` (- slots)) rest"
    proof -
      define M where "M = map_of ((deadline, slots) # rest)"
      have M: "\<And>d. M d \<noteq> Some {}" "\<And>s d. by_slot s = Some d \<longleftrightarrow> (\<exists>S. M d = Some S \<and> s \<in> S)"
        using 2(2) unfolding index_agrees_alt M_def by blast+
      have "map_of rest deadline = None"
        using 2(2) by (auto simp: index_agrees_def map_of_eq_None_iff)
      then have rest: "map_of rest = M(deadline := None)"
        by (auto simp: M_def fun_eq_iff)
      have "(by_slot |` (- slots)) s = Some d \<longleftrightarrow> (\<exists>S. map_of rest d = Some S \<and> s \<in> S)" for s d
        using M(2) [of s d] slots [of s] by (auto simp: restrict_map_def rest)
      moreover have "bt_ordered rest" "\<And>d. map_of rest d \<noteq> Some {}"
        using 2(2) M(1) by (auto simp: index_agrees_def rest)
      ultimately show ?thesis
        by (simp add: index_agrees_alt)
    qed
    from 2(1) [OF True this] 2(3) True
    have IH: "index_agrees by_slot' by_deadline'"
      "by_slot' = by_slot |` (- slots) |` {s. \<exists>d. (by_slot |` (- slots)) s = Some d \<and> now < d}"
      "removed'"
      by auto
    have "by_slot' = by_slot |` {s. \<exists>d. by_slot s = Some d \<and> now < d}"
      using IH(2) slots True by (auto simp: restrict_map_def fun_eq_iff)
    moreover obtain s where "s \<in> slots"
      using 2(2) by (auto simp: index_agrees_def)
    ultimately show ?thesis
      using IH(1,3) slots True by auto
  next
    case False
    have later: "now < d" if "by_slot s = Some d" for s d
    proof -
      have "\<exists>S. map_of ((deadline, slots) # rest) d = Some S"
        using 2(2) that by (auto simp: index_agrees_alt)
      then have "deadline \<le> d"
        using 2(2) bt_head_least [of deadline slots rest d]
        by (auto simp: index_agrees_alt split: if_splits)
      then show ?thesis using False by simp
    qed
    have "by_slot = by_slot |` {s. \<exists>d. by_slot s = Some d \<and> now < d}"
      using later by (auto simp: restrict_map_def fun_eq_iff)
    then show ?thesis
      using False 2(2,3) later by fastforce
  qed
qed

lemma ws_schedule_inv [inv_intros]: "ws_inv w \<Longrightarrow> ws_inv (fst (ws_schedule w slot d))"
  using insert_deadline_agrees [of "(ws_by_slot w)(slot := None)" _ slot d]
    remove_reverse_agrees [of "ws_by_slot w" "ws_by_deadline w" slot]
  by (auto simp: ws_inv_def ws_schedule_def Let_def fun_upd_idem split: option.splits)

lemma ws_cancel_inv [inv_intros]: "ws_inv w \<Longrightarrow> ws_inv (fst (ws_cancel w slot))"
  using remove_reverse_agrees [of "ws_by_slot w" "ws_by_deadline w" slot]
  by (auto simp: ws_inv_def ws_cancel_def split: option.splits)

lemma ws_remove_due_ok:
  assumes "ws_inv w"
  shows "ws_inv (fst (ws_remove_due w now))"
    "ws_by_slot (fst (ws_remove_due w now)) =
       ws_by_slot w |` {s. \<exists>d. ws_by_slot w s = Some d \<and> now < d}"
    "snd (ws_remove_due w now) \<longleftrightarrow> (\<exists>s d. ws_by_slot w s = Some d \<and> d \<le> now)"
proof -
  obtain a b r where l: "remove_due_loop now (ws_by_slot w) (ws_by_deadline w) False = (a, b, r)"
    by (metis prod_cases3)
  have eq: "ws_remove_due w now = (w\<lparr>ws_by_slot := a, ws_by_deadline := b\<rparr>, r)"
    by (simp add: ws_remove_due_def l)
  have *: "index_agrees a b" "a = ws_by_slot w |` {s. \<exists>d. ws_by_slot w s = Some d \<and> now < d}"
      "r \<longleftrightarrow> (\<exists>s d. ws_by_slot w s = Some d \<and> d \<le> now)"
    using remove_due_loop_agrees [OF assms [unfolded ws_inv_def] l] by blast+
  show "ws_inv (fst (ws_remove_due w now))"
    "ws_by_slot (fst (ws_remove_due w now)) =
       ws_by_slot w |` {s. \<exists>d. ws_by_slot w s = Some d \<and> now < d}"
    "snd (ws_remove_due w now) \<longleftrightarrow> (\<exists>s d. ws_by_slot w s = Some d \<and> d \<le> now)"
    unfolding eq using * by (simp_all add: ws_inv_def)
qed

lemma ws_next_deadline_ok:
  assumes "ws_inv w"
  shows "case ws_next_deadline w of
           None \<Rightarrow> ws_by_slot w = (\<lambda>_. None)
         | Some d \<Rightarrow> (\<exists>s. ws_by_slot w s = Some d) \<and> (\<forall>s d'. ws_by_slot w s = Some d' \<longrightarrow> d \<le> d')"
proof (cases "ws_by_deadline w")
  case Nil
  then have "ws_by_slot w s = None" for s
    using assms by (cases "ws_by_slot w s") (auto simp: ws_inv_def index_agrees_alt)
  then show ?thesis
    using Nil by (auto simp: ws_next_deadline_def)
next
  case (Cons p rest)
  obtain d S where p: "p = (d, S)" by fastforce
  have agrees: "index_agrees (ws_by_slot w) ((d, S) # rest)"
    using assms Cons p by (simp add: ws_inv_def)
  obtain s where "s \<in> S"
    using agrees by (auto simp: index_agrees_def)
  then have "ws_by_slot w s = Some d"
    using agrees by (auto simp: index_agrees_alt)
  moreover have "d \<le> d'" if "ws_by_slot w s' = Some d'" for s' d'
  proof -
    have "\<exists>T. map_of ((d, S) # rest) d' = Some T"
      using agrees that by (auto simp: index_agrees_alt)
    then show ?thesis
      using agrees bt_head_least [of d S rest d'] by (auto simp: index_agrees_alt split: if_splits)
  qed
  ultimately show ?thesis
    using Cons p by (auto simp: ws_next_deadline_def)
qed

lemma ws_schedule_slots [op_simps]:
  "ws_by_slot (fst (ws_schedule w slot d)) = (ws_by_slot w)(slot \<mapsto> d)"
  "snd (ws_schedule w slot d) \<longleftrightarrow> ws_by_slot w slot \<noteq> Some d"
  by (auto simp: ws_schedule_def Let_def)

lemma ws_cancel_slots [op_simps]:
  "ws_by_slot (fst (ws_cancel w slot)) = (ws_by_slot w)(slot := None)"
  "snd (ws_cancel w slot) \<longleftrightarrow> ws_by_slot w slot \<noteq> None"
  by (auto simp: ws_cancel_def fun_upd_idem split: option.splits)

section \<open>The interface\<close>

locale wake_queue =
  fixes invar :: "'q \<Rightarrow> bool"
    and deadline_of :: "'q \<Rightarrow> nat \<rightharpoonup> instant"
    and fresh :: 'q
    and schedule :: "'q \<Rightarrow> nat \<Rightarrow> instant \<Rightarrow> 'q \<times> bool"
    and cancel :: "'q \<Rightarrow> nat \<Rightarrow> 'q \<times> bool"
    and next_deadline :: "'q \<Rightarrow> instant option"
    and remove_due :: "'q \<Rightarrow> instant \<Rightarrow> 'q \<times> bool"
  assumes fresh: "invar fresh" "deadline_of fresh = (\<lambda>_. None)"
    and schedule: "invar q \<Longrightarrow> invar (fst (schedule q s d))"
      "invar q \<Longrightarrow> deadline_of (fst (schedule q s d)) = (deadline_of q)(s \<mapsto> d)"
      "invar q \<Longrightarrow> snd (schedule q s d) \<longleftrightarrow> deadline_of q s \<noteq> Some d"
    and cancel: "invar q \<Longrightarrow> invar (fst (cancel q s))"
      "invar q \<Longrightarrow> deadline_of (fst (cancel q s)) = (deadline_of q)(s := None)"
      "invar q \<Longrightarrow> snd (cancel q s) \<longleftrightarrow> deadline_of q s \<noteq> None"
    and next_deadline: "invar q \<Longrightarrow> next_deadline q = None \<longleftrightarrow> deadline_of q = (\<lambda>_. None)"
      "invar q \<Longrightarrow> next_deadline q = Some d \<Longrightarrow> d \<in> ran (deadline_of q)"
      "invar q \<Longrightarrow> next_deadline q = Some d \<Longrightarrow> d' \<in> ran (deadline_of q) \<Longrightarrow> d \<le> d'"
    and remove_due: "invar q \<Longrightarrow> invar (fst (remove_due q now))"
      "invar q \<Longrightarrow> deadline_of (fst (remove_due q now)) =
         deadline_of q |` {s. \<exists>d. deadline_of q s = Some d \<and> now < d}"
      "invar q \<Longrightarrow> snd (remove_due q now) \<longleftrightarrow> (\<exists>d\<in>ran (deadline_of q). d \<le> now)"
begin

text \<open>
  A worker that sleeps until the next deadline and then removes what is due always removes
  something, and what is left lies ahead.
\<close>

lemma due_removed:
  assumes "invar q" "next_deadline q = Some d" "d \<le> now"
  shows "snd (remove_due q now)"
  using next_deadline(2) [OF assms(1,2)] remove_due(3) [OF assms(1)] assms(3) by blast

lemma next_after_removal:
  assumes "invar q" "next_deadline (fst (remove_due q now)) = Some d"
  shows "now < d"
  using next_deadline(2) [OF remove_due(1) assms(2)] remove_due(2) [OF assms(1), of now] assms(1)
  by (auto simp: ran_def restrict_map_def split: if_splits)

lemma kept_after_removal:
  assumes "invar q"
  shows "deadline_of (fst (remove_due q now)) s = Some d \<longleftrightarrow> deadline_of q s = Some d \<and> now < d"
  using remove_due(2) [OF assms, of now] by (auto simp: restrict_map_def)

end

interpretation wsq: wake_queue ws_inv ws_by_slot wake_schedule_default ws_schedule ws_cancel
  ws_next_deadline ws_remove_due
proof (unfold_locales, goal_cases)
  case (9 q)
  then show ?case
    using ws_next_deadline_ok [of q] by (cases "ws_next_deadline q") auto
next
  case (10 q d)
  then show ?case
    using ws_next_deadline_ok [of q] by (auto simp: ran_def)
next
  case (11 q d d')
  then show ?case
    using ws_next_deadline_ok [of q] by (auto simp: ran_def)
next
  case (14 q now)
  then show ?case
    using ws_remove_due_ok(3) [of q now] by (auto simp: ran_def)
next
  case 1
  show ?case by (rule wake_schedule_default_inv)
next
  case 2
  show ?case by (simp add: wake_schedule_default_def)
qed (simp_all add: inv_intros op_simps ws_remove_due_ok)

end
