(* ===== verification/Scheduler_Epoch.thy ===== *)
theory Scheduler_Epoch
  imports Wake_Schedule "HOL-Library.Monad_Syntax"
begin

text \<open>
  The scheduler epoch of \<open>crates/runtime/src/routing/epoch.rs\<close>: a counter that waiting requests
  watch, and a worker that advances it when a scheduled wake falls due.

  \<open>advance\<close> is two atomic actions, claiming the next number and publishing it; the second is
  skipped when a racing call has already published a later number. \<open>adv_step\<close> interleaves any
  number of callers. Components that only need the sequential effect use \<open>advance\<close>. A counter
  that would overflow 64 bits is a panic, \<open>None\<close>.
\<close>

section \<open>State\<close>

record scheduler_epoch =
  ep_current :: nat
  ep_published :: nat
  ep_running :: bool
  ep_wakes :: wake_schedule
  ep_wake_generation :: nat
  ep_wake_worker_started :: bool
  ep_next_wake_slot :: nat

definition epoch_new :: scheduler_epoch where
  "epoch_new =
     \<lparr> ep_current = 0, ep_published = 0, ep_running = True, ep_wakes = wake_schedule_default,
       ep_wake_generation = 0, ep_wake_worker_started = False, ep_next_wake_slot = 1 \<rparr>"

section \<open>Advancing\<close>

text \<open>The compare-and-exchange that succeeds: it moves the counter from what it observed.\<close>

definition advance_claim :: "scheduler_epoch \<Rightarrow> (scheduler_epoch \<times> nat) option" where
  "advance_claim e =
     do { n \<leftarrow> checked_add_u64 (ep_current e) 1; Some (e\<lparr>ep_current := n\<rparr>, n) }"

definition advance_publish :: "scheduler_epoch \<Rightarrow> nat \<Rightarrow> scheduler_epoch" where
  "advance_publish e n = (if n \<le> ep_published e then e else e\<lparr>ep_published := n\<rparr>)"

definition advance :: "scheduler_epoch \<Rightarrow> (scheduler_epoch \<times> nat) option" where
  "advance e = do { (e, n) \<leftarrow> advance_claim e; Some (advance_publish e n, n) }"

section \<open>Wake slots\<close>

definition wake_slot :: "scheduler_epoch \<Rightarrow> (scheduler_epoch \<times> nat) option" where
  "wake_slot e =
     do { n \<leftarrow> checked_add_u64 (ep_next_wake_slot e) 1;
          Some (e\<lparr>ep_next_wake_slot := n\<rparr>, ep_next_wake_slot e) }"

text \<open>A pending notification: whether the schedule changed, and whether a worker is needed.\<close>

record wake_notification =
  wn_changed :: bool
  wn_ensure_worker :: bool

definition prepare_schedule ::
  "scheduler_epoch \<Rightarrow> nat \<Rightarrow> instant \<Rightarrow> scheduler_epoch \<times> wake_notification" where
  "prepare_schedule e slot deadline =
     (if \<not> ep_running e then (e, \<lparr> wn_changed = False, wn_ensure_worker = False \<rparr>)
      else (let (w, changed) = ws_schedule (ep_wakes e) slot deadline
            in (e\<lparr>ep_wakes := w\<rparr>, \<lparr> wn_changed = changed, wn_ensure_worker = True \<rparr>)))"

definition prepare_cancellation ::
  "scheduler_epoch \<Rightarrow> nat \<Rightarrow> scheduler_epoch \<times> wake_notification" where
  "prepare_cancellation e slot =
     (let (w, changed) = ws_cancel (ep_wakes e) slot
      in (e\<lparr>ep_wakes := w\<rparr>, \<lparr> wn_changed = changed, wn_ensure_worker = False \<rparr>))"

definition notify_wake_worker :: "scheduler_epoch \<Rightarrow> scheduler_epoch option" where
  "notify_wake_worker e =
     do { g \<leftarrow> checked_add_u64 (ep_wake_generation e) 1; Some (e\<lparr>ep_wake_generation := g\<rparr>) }"

text \<open>
  The source reads the phase twice, to undo the start when shutdown begins in between; here the
  two reads are one.
\<close>

definition ensure_wake_worker :: "scheduler_epoch \<Rightarrow> scheduler_epoch" where
  "ensure_wake_worker e =
     (if \<not> ep_running e \<or> ep_wake_worker_started e then e else e\<lparr>ep_wake_worker_started := True\<rparr>)"

definition publish_wake :: "scheduler_epoch \<Rightarrow> wake_notification \<Rightarrow> scheduler_epoch option" where
  "publish_wake e n =
     (if \<not> wn_changed n then Some e
      else do { e \<leftarrow> notify_wake_worker e;
                Some (if wn_ensure_worker n then ensure_wake_worker e else e) })"

definition slot_schedule :: "scheduler_epoch \<Rightarrow> nat \<Rightarrow> instant \<Rightarrow> scheduler_epoch option" where
  "slot_schedule e slot deadline =
     (let (e, n) = prepare_schedule e slot deadline in publish_wake e n)"

definition slot_cancel :: "scheduler_epoch \<Rightarrow> nat \<Rightarrow> scheduler_epoch option" where
  "slot_cancel e slot = (let (e, n) = prepare_cancellation e slot in publish_wake e n)"

section \<open>The wake worker\<close>

text \<open>
  One turn of the worker's loop: it reads the next deadline and then either the schedule changes
  (the turn ends), or the sleep until that deadline is over and the clock reads \<open>now\<close>. The
  result is \<open>None\<close> for a panic and for an event that cannot happen in that turn.
\<close>

datatype worker_event = WakeChanged | SleepElapsed instant

definition worker_turn :: "scheduler_epoch \<Rightarrow> worker_event \<Rightarrow> scheduler_epoch option" where
  "worker_turn e ev =
     (case ws_next_deadline (ep_wakes e) of
        None \<Rightarrow> (case ev of WakeChanged \<Rightarrow> Some e | SleepElapsed now \<Rightarrow> None)
      | Some deadline \<Rightarrow>
          (case ev of
             WakeChanged \<Rightarrow> Some e
           | SleepElapsed now \<Rightarrow>
               (if now < deadline then None
                else (let (w, removed) = ws_remove_due (ep_wakes e) now;
                          e = e\<lparr>ep_wakes := w\<rparr>
                      in if removed then map_option fst (advance e) else Some e))))"

section \<open>Invariant\<close>

definition ep_inv :: "scheduler_epoch \<Rightarrow> bool" where
  "ep_inv e \<longleftrightarrow> ws_inv (ep_wakes e) \<and> ep_published e \<le> ep_current e \<and> ep_current e \<le> u64_max"

lemma epoch_new_inv [inv_intros]: "ep_inv epoch_new"
  by (simp add: ep_inv_def epoch_new_def wake_schedule_default_inv)

lemma checked_add_u64_Some [simp]:
  "checked_add_u64 a b = Some n \<longleftrightarrow> n = a + b \<and> a + b \<le> u64_max"
  by (auto simp: checked_add_u64_def)

lemma advance_Some_iff:
  "advance e = Some (e', n) \<longleftrightarrow>
     ep_current e < u64_max \<and> n = Suc (ep_current e) \<and>
     e' = e\<lparr>ep_current := n, ep_published := max n (ep_published e)\<rparr>"
  by (cases e) (auto simp: advance_def advance_claim_def advance_publish_def bind_eq_Some_conv)

lemma advance_inv [inv_intros]: "ep_inv e \<Longrightarrow> advance e = Some (e', n) \<Longrightarrow> ep_inv e'"
  by (auto simp: ep_inv_def advance_Some_iff)

lemma publish_wake_wakes [op_simps]:
  "publish_wake e n = Some e' \<Longrightarrow>
   ep_wakes e' = ep_wakes e \<and> ep_current e' = ep_current e \<and> ep_published e' = ep_published e \<and>
   ep_running e' = ep_running e \<and> ep_next_wake_slot e' = ep_next_wake_slot e"
  by (auto simp: publish_wake_def notify_wake_worker_def ensure_wake_worker_def bind_eq_Some_conv
      split: if_splits)

lemma slot_schedule_ok:
  assumes "ep_inv e" "slot_schedule e slot d = Some e'"
  shows "ep_inv e'" "ep_current e' = ep_current e"
    "ws_by_slot (ep_wakes e') =
       (if ep_running e then (ws_by_slot (ep_wakes e))(slot \<mapsto> d) else ws_by_slot (ep_wakes e))"
  using assms ws_schedule_inv [of "ep_wakes e" slot d] ws_schedule_slots(1) [of "ep_wakes e" slot d]
    publish_wake_wakes
  by (fastforce simp: slot_schedule_def prepare_schedule_def ep_inv_def case_prod_unfold Let_def
      split: if_splits)+

lemma slot_cancel_ok:
  assumes "ep_inv e" "slot_cancel e slot = Some e'"
  shows "ep_inv e'" "ep_current e' = ep_current e"
    "ws_by_slot (ep_wakes e') = (ws_by_slot (ep_wakes e))(slot := None)"
  using assms ws_cancel_inv [of "ep_wakes e" slot] ws_cancel_slots(1) [of "ep_wakes e" slot]
    publish_wake_wakes
  by (fastforce simp: slot_cancel_def prepare_cancellation_def ep_inv_def case_prod_unfold Let_def)+

text \<open>The wake operations return as long as the generation counter has room.\<close>

lemma publish_wake_total: "ep_wake_generation e < u64_max \<Longrightarrow> \<exists>e'. publish_wake e n = Some e'"
  by (simp add: publish_wake_def notify_wake_worker_def checked_add_u64_def)

lemma slot_schedule_total: "ep_wake_generation e < u64_max \<Longrightarrow> \<exists>e'. slot_schedule e slot d = Some e'"
  by (simp add: slot_schedule_def prepare_schedule_def case_prod_unfold Let_def publish_wake_total)

lemma slot_cancel_total: "ep_wake_generation e < u64_max \<Longrightarrow> \<exists>e'. slot_cancel e slot = Some e'"
  by (simp add: slot_cancel_def prepare_cancellation_def case_prod_unfold Let_def publish_wake_total)

section \<open>Racing callers\<close>

text \<open>
  \<open>adv_step\<close>: some caller claims a number, or some caller publishes the number it claimed. The
  second component of the state are the claimed numbers not yet published.
\<close>

inductive adv_step :: "scheduler_epoch \<times> nat list \<Rightarrow> scheduler_epoch \<times> nat list \<Rightarrow> bool" where
  claim: "advance_claim e = Some (e', n) \<Longrightarrow> adv_step (e, pending) (e', n # pending)"
| publish: "n \<in> set pending \<Longrightarrow>
     adv_step (e, pending) (advance_publish e n, remove1 n pending)"

inductive_cases adv_stepE: "adv_step s s'"

definition adv_inv :: "scheduler_epoch \<times> nat list \<Rightarrow> bool" where
  "adv_inv s \<longleftrightarrow>
     (case s of (e, pending) \<Rightarrow>
        ep_published e \<le> ep_current e \<and> (\<forall>n\<in>set pending. n \<le> ep_current e) \<and>
        (ep_published e = ep_current e \<or> ep_current e \<in> set pending))"

lemma adv_step_inv:
  assumes "adv_step s s'" "adv_inv s"
  shows "adv_inv s' \<and> ep_published (fst s) \<le> ep_published (fst s') \<and>
    ep_current (fst s) \<le> ep_current (fst s')"
  using assms
proof (cases rule: adv_step.cases)
  case (claim e e' n pending)
  then show ?thesis
    using assms(2) by (auto simp: adv_inv_def advance_claim_def bind_eq_Some_conv)
next
  case (publish n pending e)
  have keep: "n = ep_current e \<or> ep_current e \<in> set (remove1 n pending) \<or> ep_current e \<notin> set pending"
    by auto
  have "set (remove1 n pending) \<subseteq> set pending"
    by (rule set_remove1_subset)
  then show ?thesis
    using assms(2) publish keep by (auto simp: adv_inv_def advance_publish_def)
qed

lemma adv_steps_inv:
  "adv_step\<^sup>*\<^sup>* s s' \<Longrightarrow> adv_inv s \<Longrightarrow>
   adv_inv s' \<and> ep_published (fst s) \<le> ep_published (fst s') \<and>
   ep_current (fst s) \<le> ep_current (fst s')"
  by (induction rule: rtranclp_induct) (auto dest: adv_step_inv intro: order_trans)

section \<open>Properties\<close>

text \<open>
  C27. No wake-up is lost to the coalescing of racing advances: whatever the interleaving, the
  published number never goes back, never runs ahead of the counter, and equals the counter as
  soon as every caller has returned.
\<close>

theorem advance_never_lost:
  assumes "adv_step\<^sup>*\<^sup>* (e, []) (e', pending)" "ep_published e = ep_current e"
  shows "ep_published e \<le> ep_published e' \<and> ep_published e' \<le> ep_current e' \<and>
    (pending = [] \<longrightarrow> ep_published e' = ep_current e')"
  using adv_steps_inv [OF assms(1)] assms(2) by (auto simp: adv_inv_def)

theorem advance_never_lost_witness:
  "ep_published (advance_publish (advance_publish
      (epoch_new\<lparr>ep_current := 2\<rparr>) 2) 1) = 2"
proof -
  let ?e1 = "epoch_new\<lparr>ep_current := 1\<rparr>" and ?e2 = "epoch_new\<lparr>ep_current := 2\<rparr>"
  have c: "advance_claim epoch_new = Some (?e1, 1)" "advance_claim ?e1 = Some (?e2, 2)"
    by (simp_all add: advance_claim_def epoch_new_def checked_add_u64_def u64_max_def)
  have "adv_step (epoch_new, []) (?e1, [1])" "adv_step (?e1, [1]) (?e2, [2, 1])"
    using c by (auto intro: adv_step.claim)
  moreover have "adv_step (?e2, [2, 1]) (advance_publish ?e2 2, [1])"
    using adv_step.publish [of 2 "[2, 1]" ?e2] by simp
  moreover have "adv_step (advance_publish ?e2 2, [1]) (advance_publish (advance_publish ?e2 2) 1, [])"
    using adv_step.publish [of 1 "[1]" "advance_publish ?e2 2"] by simp
  ultimately have "adv_step\<^sup>*\<^sup>* (epoch_new, []) (advance_publish (advance_publish ?e2 2) 1, [])"
    by (meson converse_rtranclp_into_rtranclp rtranclp.rtrancl_refl)
  from advance_never_lost [OF this] show ?thesis
    by (simp add: epoch_new_def advance_publish_def)
qed

text \<open>
  C33. When the worker's sleep is over it removes exactly the wakes that are due, advances the
  epoch by one so that every waiting request looks again, and the next deadline it will sleep for
  lies ahead, so it never spins.
\<close>

theorem worker_turn_wakes:
  assumes "ep_inv e" "ep_current e < u64_max" "ws_next_deadline (ep_wakes e) = Some d" "d \<le> now"
  shows "\<exists>e'. worker_turn e (SleepElapsed now) = Some e' \<and> ep_inv e' \<and>
    ep_current e' = Suc (ep_current e) \<and> ep_published e' = ep_current e' \<and>
    (\<forall>s d. ws_by_slot (ep_wakes e') s = Some d \<longleftrightarrow> ws_by_slot (ep_wakes e) s = Some d \<and> now < d) \<and>
    (case ws_next_deadline (ep_wakes e') of None \<Rightarrow> True | Some d' \<Rightarrow> now < d')"
proof -
  have w: "ws_inv (ep_wakes e)"
    using assms(1) by (simp add: ep_inv_def)
  obtain w' where rem: "ws_remove_due (ep_wakes e) now = (w', True)"
    using wsq.due_removed [OF w assms(3,4)] by (metis prod.collapse)
  obtain e' n where adv: "advance (e\<lparr>ep_wakes := w'\<rparr>) = Some (e', n)"
    using assms(2) by (simp add: advance_Some_iff)
  then have e': "ep_wakes e' = w'" "ep_current e' = Suc (ep_current e)" "ep_published e' = ep_current e'"
    using assms(1) by (auto simp: advance_Some_iff ep_inv_def)
  have "worker_turn e (SleepElapsed now) = Some e'"
    using assms(3,4) rem adv by (simp add: worker_turn_def Let_def)
  moreover have "ep_inv e'"
    using e' assms(2) wsq.remove_due(1) [OF w, of now] rem by (simp add: ep_inv_def)
  ultimately show ?thesis
    using e' wsq.kept_after_removal [OF w, of now] wsq.next_after_removal [OF w, of now] rem
    by (auto split: option.splits)
qed

theorem worker_turn_wakes_witness:
  "\<exists>e e'. slot_schedule epoch_new 1 5 = Some e \<and> worker_turn e (SleepElapsed 7) = Some e' \<and>
     ep_current e' = 1 \<and> ws_by_slot (ep_wakes e') 1 = None"
proof -
  obtain e where e: "slot_schedule epoch_new 1 5 = Some e"
    by (simp add: slot_schedule_def prepare_schedule_def epoch_new_def ws_schedule_def
        wake_schedule_default_def publish_wake_def notify_wake_worker_def checked_add_u64_def
        u64_max_def)
  have d: "ws_next_deadline (ep_wakes e) = Some 5" "ep_current e < u64_max" "ep_current e = 0"
    using e by (auto simp: slot_schedule_def prepare_schedule_def epoch_new_def ws_schedule_def
        wake_schedule_default_def publish_wake_def notify_wake_worker_def checked_add_u64_def
        u64_max_def ws_next_deadline_def insert_deadline_def ensure_wake_worker_def)
  have s: "ws_by_slot (ep_wakes e) 1 = Some 5"
    using slot_schedule_ok(3) [OF epoch_new_inv e] by (simp add: epoch_new_def)
  obtain e' where e': "worker_turn e (SleepElapsed 7) = Some e'" "ep_current e' = 1"
      "\<And>s d. ws_by_slot (ep_wakes e') s = Some d \<Longrightarrow> ws_by_slot (ep_wakes e) s = Some d \<and> 7 < d"
    using worker_turn_wakes [OF slot_schedule_ok(1) [OF epoch_new_inv e] d(2,1), of 7] d(3) by auto
  have "ws_by_slot (ep_wakes e') 1 = None"
    using e'(3) [of 1] s by (cases "ws_by_slot (ep_wakes e') 1") auto
  then show ?thesis
    using e e' by blast
qed

end
