(* ===== verification/Circuit.thy ===== *)
theory Circuit
  imports Scheduler_Epoch Sliding_Window
begin

text \<open>
  The circuit breaker of \<open>crates/runtime/src/health/circuit.rs\<close>.

  A circuit is closed, open until an instant, or half open once that instant has passed; half
  open it lets a bounded number of probes through. Callers hold permits and resolve each of them
  once: with success, with failure, or by dropping it. The operations thread the scheduler epoch,
  which they wake. \<open>circuit_step\<close> interleaves any number of permit holders; \<open>ci_inv\<close> relates the
  circuit's probe counter with the outstanding permits.
\<close>

section \<open>State\<close>

record circuit =
  ci_failure_times :: "instant list"
  ci_open_until :: "instant option"
  ci_half_open_in_flight :: nat
  ci_last_failure_at :: "instant option"
  ci_wake :: nat

datatype circuit_snapshot = Closed | Open | HalfOpen

record circuit_permit =
  cp_half_open :: bool
  cp_resolved :: bool
  cp_started_at :: instant

definition circuit_new :: "scheduler_epoch \<Rightarrow> (scheduler_epoch \<times> circuit) option" where
  "circuit_new e =
     do { (e, slot) \<leftarrow> wake_slot e;
          Some (e, \<lparr> ci_failure_times = [], ci_open_until = None, ci_half_open_in_flight = 0,
                     ci_last_failure_at = None, ci_wake = slot \<rparr>) }"

section \<open>Operations\<close>

definition circuit_try_acquire ::
  "circuit \<Rightarrow> instant \<Rightarrow> nat \<Rightarrow> circuit \<times> (instant + circuit_permit)" where
  "circuit_try_acquire c now half_open_max_probes =
     (case ci_open_until c of
        Some open_until \<Rightarrow>
          (if now < open_until then (c, Inl open_until)
           else if half_open_max_probes \<le> ci_half_open_in_flight c
           then (c, Inl (now + from_millis 10))
           else (c\<lparr>ci_half_open_in_flight := ci_half_open_in_flight c + 1\<rparr>,
                 Inr \<lparr> cp_half_open = True, cp_resolved = False, cp_started_at = now \<rparr>))
      | None \<Rightarrow> (c, Inr \<lparr> cp_half_open = False, cp_resolved = False, cp_started_at = now \<rparr>))"

definition circuit_availability :: "circuit \<Rightarrow> instant \<Rightarrow> nat \<Rightarrow> instant + unit" where
  "circuit_availability c now half_open_max_probes =
     (case ci_open_until c of
        Some open_until \<Rightarrow>
          (if now < open_until then Inl open_until
           else if half_open_max_probes \<le> ci_half_open_in_flight c
           then Inl (now + from_millis 10)
           else Inr ())
      | None \<Rightarrow> Inr ())"

definition circuit_state_at :: "circuit \<Rightarrow> instant \<Rightarrow> circuit_snapshot" where
  "circuit_state_at c now =
     (case ci_open_until c of
        Some until \<Rightarrow> (if now < until then Open else HalfOpen)
      | None \<Rightarrow> Closed)"

definition release_in_flight :: "circuit \<Rightarrow> bool \<Rightarrow> circuit" where
  "release_in_flight c half_open =
     (if half_open then c\<lparr>ci_half_open_in_flight := ci_half_open_in_flight c - 1\<rparr> else c)"

definition circuit_success ::
  "scheduler_epoch \<Rightarrow> circuit \<Rightarrow> bool \<Rightarrow> instant \<Rightarrow> (scheduler_epoch \<times> circuit) option" where
  "circuit_success e c half_open started_at =
     (let c = release_in_flight c half_open in
      if (case ci_last_failure_at c of None \<Rightarrow> False | Some failed_at \<Rightarrow> started_at < failed_at)
      then Some (e, c)
      else
        (let changed = (ci_failure_times c \<noteq> [] \<or> ci_open_until c \<noteq> None);
             c = c\<lparr>ci_failure_times := [], ci_open_until := None, ci_last_failure_at := None\<rparr>
         in do { e \<leftarrow> slot_cancel e (ci_wake c);
                 e \<leftarrow> (if changed then map_option fst (advance e) else Some e);
                 Some (e, c) }))"

definition circuit_failure ::
  "scheduler_epoch \<Rightarrow> circuit \<Rightarrow> bool \<Rightarrow> instant \<Rightarrow> nat \<Rightarrow> duration \<Rightarrow> duration \<Rightarrow>
   (scheduler_epoch \<times> circuit \<times> instant option) option" where
  "circuit_failure e c half_open now threshold failure_window open_duration =
     (let c = release_in_flight c half_open;
          failures = dropWhile (\<lambda>failed_at. failure_window \<le> duration_since now failed_at)
                    (ci_failure_times c) @ [now];
          should_open = (half_open \<or> threshold \<le> length failures);
          open_until = (if should_open then Some (now + open_duration) else None);
          c = c\<lparr>ci_last_failure_at := Some now,
                ci_failure_times := (if should_open then [] else failures),
                ci_open_until := (if should_open then open_until else ci_open_until c)\<rparr>
      in case open_until of
           None \<Rightarrow> Some (e, c, None)
         | Some until \<Rightarrow>
             do { e \<leftarrow> slot_schedule e (ci_wake c) until; Some (e, c, open_until) })"

definition release_probe ::
  "scheduler_epoch \<Rightarrow> circuit \<Rightarrow> (scheduler_epoch \<times> circuit) option" where
  "release_probe e c =
     do { (e, n) \<leftarrow> advance e;
          Some (e, c\<lparr>ci_half_open_in_flight := ci_half_open_in_flight c - 1\<rparr>) }"

text \<open>A permit is consumed by success or failure, which mark it resolved before it is dropped.\<close>

definition permit_drop ::
  "scheduler_epoch \<Rightarrow> circuit \<Rightarrow> circuit_permit \<Rightarrow> (scheduler_epoch \<times> circuit) option" where
  "permit_drop e c p =
     (if cp_half_open p \<and> \<not> cp_resolved p then release_probe e c else Some (e, c))"

definition permit_success ::
  "scheduler_epoch \<Rightarrow> circuit \<Rightarrow> circuit_permit \<Rightarrow> (scheduler_epoch \<times> circuit) option" where
  "permit_success e c p =
     do { (e, c) \<leftarrow> circuit_success e c (cp_half_open p) (cp_started_at p);
          permit_drop e c (p\<lparr>cp_resolved := True\<rparr>) }"

definition permit_failure ::
  "scheduler_epoch \<Rightarrow> circuit \<Rightarrow> circuit_permit \<Rightarrow> instant \<Rightarrow> nat \<Rightarrow> duration \<Rightarrow> duration \<Rightarrow>
   (scheduler_epoch \<times> circuit \<times> instant option) option" where
  "permit_failure e c p now threshold window open_duration =
     do { (e, c, open_until) \<leftarrow>
            circuit_failure e c (cp_half_open p) now threshold window open_duration;
          (e, c) \<leftarrow> permit_drop e c (p\<lparr>cp_resolved := True\<rparr>);
          Some (e, c, open_until) }"

section \<open>What the operations do\<close>

lemma permit_success_eq: "permit_success e c p = circuit_success e c (cp_half_open p) (cp_started_at p)"
  by (auto simp: permit_success_def permit_drop_def case_prod_unfold split: bind_splits)

lemma permit_failure_eq:
  "permit_failure e c p now threshold window open_duration =
     circuit_failure e c (cp_half_open p) now threshold window open_duration"
  by (auto simp: permit_failure_def permit_drop_def case_prod_unfold split: bind_splits)

lemma recent_failures:
  assumes "chronological (\<lambda>t. t) now failures"
  shows "dropWhile (\<lambda>t. window \<le> duration_since now t) failures = live (\<lambda>t. t) window now failures"
proof (cases "window = 0")
  case True
  then show ?thesis
    using assms dropWhile_eq_Nil_conv [of "\<lambda>t. True" failures]
    by (auto simp: chronological_def live_def filter_empty_conv not_less)
next
  case False
  have "dropWhile (\<lambda>t. window \<le> duration_since now t) failures =
      dropWhile (\<lambda>t. case instant_checked_sub now window of None \<Rightarrow> False | Some c \<Rightarrow> t \<le> c) failures"
    using False by (intro dropWhile_cong) (auto simp: duration_since_def instant_checked_sub_def)
  then show ?thesis
    using prune_live [OF assms] False by simp
qed

text \<open>\<open>circuit_failure\<close> opens the circuit for a failed probe or for enough failures in the window.\<close>

lemma circuit_failure_cases:
  fixes half_open :: bool and window :: duration
  assumes "chronological (\<lambda>t. t) now (ci_failure_times c)"
  defines "c' \<equiv> (release_in_flight c half_open)\<lparr>ci_last_failure_at := Some now\<rparr>"
    and "recent \<equiv> live (\<lambda>t. t) window now (ci_failure_times c)"
  shows "circuit_failure e c half_open now threshold window open_duration =
     (if half_open \<or> threshold \<le> Suc (length recent)
      then map_option
        (\<lambda>e. (e, c'\<lparr>ci_failure_times := [], ci_open_until := Some (now + open_duration)\<rparr>,
              Some (now + open_duration)))
        (slot_schedule e (ci_wake c) (now + open_duration))
      else Some (e, c'\<lparr>ci_failure_times := recent @ [now]\<rparr>, None))"
  unfolding c'_def recent_def
  using recent_failures [OF assms(1), of window]
  by (cases "slot_schedule e (ci_wake c) (now + open_duration)")
    (auto simp: circuit_failure_def release_in_flight_def Let_def)

section \<open>Permit holders\<close>

record circuit_system =
  sys_epoch :: scheduler_epoch
  sys_circuit :: circuit
  sys_permits :: "circuit_permit list"
  sys_clock :: instant

definition drop_nth :: "nat \<Rightarrow> 'a list \<Rightarrow> 'a list" where
  "drop_nth i xs = take i xs @ drop (Suc i) xs"

lemma length_filter_drop_nth:
  "i < length xs \<Longrightarrow>
   length (filter P xs) = length (filter P (drop_nth i xs)) + (if P (xs ! i) then 1 else 0)"
  by (subst id_take_nth_drop) (auto simp: drop_nth_def)

lemma set_drop_nth: "set (drop_nth i xs) \<subseteq> set xs"
  by (auto simp: drop_nth_def dest: in_set_takeD in_set_dropD)

text \<open>
  The clock passed to an operation is not before the last one. The policy is the number of
  probes, the failure threshold and window, and how long the circuit opens.
\<close>

inductive circuit_step ::
  "nat \<Rightarrow> nat \<Rightarrow> duration \<Rightarrow> duration \<Rightarrow> circuit_system \<Rightarrow> circuit_system \<Rightarrow> bool"
  for probes threshold window open_duration where
  acquired: "sys_clock s \<le> now \<Longrightarrow> circuit_try_acquire (sys_circuit s) now probes = (c, Inr p) \<Longrightarrow>
    circuit_step probes threshold window open_duration s
      (s\<lparr>sys_circuit := c, sys_permits := p # sys_permits s, sys_clock := now\<rparr>)"
| refused: "sys_clock s \<le> now \<Longrightarrow> circuit_try_acquire (sys_circuit s) now probes = (c, Inl t) \<Longrightarrow>
    circuit_step probes threshold window open_duration s (s\<lparr>sys_circuit := c, sys_clock := now\<rparr>)"
| succeeded: "i < length (sys_permits s) \<Longrightarrow>
    permit_success (sys_epoch s) (sys_circuit s) (sys_permits s ! i) = Some (e, c) \<Longrightarrow>
    circuit_step probes threshold window open_duration s
      (s\<lparr>sys_epoch := e, sys_circuit := c, sys_permits := drop_nth i (sys_permits s)\<rparr>)"
| failed: "sys_clock s \<le> now \<Longrightarrow> i < length (sys_permits s) \<Longrightarrow>
    permit_failure (sys_epoch s) (sys_circuit s) (sys_permits s ! i) now threshold window open_duration =
      Some (e, c, u) \<Longrightarrow>
    circuit_step probes threshold window open_duration s
      (s\<lparr>sys_epoch := e, sys_circuit := c, sys_permits := drop_nth i (sys_permits s), sys_clock := now\<rparr>)"
| dropped: "i < length (sys_permits s) \<Longrightarrow>
    permit_drop (sys_epoch s) (sys_circuit s) (sys_permits s ! i) = Some (e, c) \<Longrightarrow>
    circuit_step probes threshold window open_duration s
      (s\<lparr>sys_epoch := e, sys_circuit := c, sys_permits := drop_nth i (sys_permits s)\<rparr>)"

definition ci_inv :: "nat \<Rightarrow> nat \<Rightarrow> circuit_system \<Rightarrow> bool" where
  "ci_inv probes threshold s \<longleftrightarrow>
     ci_half_open_in_flight (sys_circuit s) = length (filter cp_half_open (sys_permits s)) \<and>
     ci_half_open_in_flight (sys_circuit s) \<le> probes \<and>
     (\<forall>p\<in>set (sys_permits s). \<not> cp_resolved p) \<and>
     chronological (\<lambda>t. t) (sys_clock s) (ci_failure_times (sys_circuit s)) \<and>
     (ci_failure_times (sys_circuit s) = [] \<or> length (ci_failure_times (sys_circuit s)) < threshold)"

lemma acquire_inv:
  assumes "ci_inv probes threshold s" "sys_clock s \<le> now"
    and "circuit_try_acquire (sys_circuit s) now probes = (c, r)"
  shows "ci_inv probes threshold
    (s\<lparr>sys_circuit := c, sys_permits := (case r of Inl _ \<Rightarrow> sys_permits s | Inr p \<Rightarrow> p # sys_permits s),
       sys_clock := now\<rparr>)"
  using assms chronological_mono [OF _ assms(2)]
  by (auto simp: ci_inv_def circuit_try_acquire_def split: option.splits if_splits)

lemma release_inv:
  assumes "ci_inv probes threshold s" "i < length (sys_permits s)"
  shows "ci_inv probes threshold
    (s\<lparr>sys_circuit := release_in_flight (sys_circuit s) (cp_half_open (sys_permits s ! i)),
       sys_permits := drop_nth i (sys_permits s)\<rparr>)"
proof -
  have "\<forall>p\<in>set (drop_nth i (sys_permits s)). \<not> cp_resolved p"
    using assms(1) set_drop_nth by (fastforce simp: ci_inv_def)
  then show ?thesis
    using assms length_filter_drop_nth [OF assms(2), of cp_half_open]
    by (auto simp: ci_inv_def release_in_flight_def)
qed

lemma ci_inv_update:
  assumes "ci_inv probes threshold s"
    and "ci_half_open_in_flight c = ci_half_open_in_flight (sys_circuit s)"
    and "chronological (\<lambda>t. t) now (ci_failure_times c)"
    and "ci_failure_times c = [] \<or> length (ci_failure_times c) < threshold"
  shows "ci_inv probes threshold (s\<lparr>sys_epoch := e, sys_circuit := c, sys_clock := now\<rparr>)"
  using assms by (auto simp: ci_inv_def)

lemma success_state:
  assumes "circuit_success e c half_open started_at = Some (e', c')"
  shows "ci_half_open_in_flight c' = ci_half_open_in_flight (release_in_flight c half_open)"
    "ci_failure_times c' = ci_failure_times c \<or> ci_failure_times c' = []"
    "ci_wake c' = ci_wake c"
  using assms
  by (auto simp: circuit_success_def release_in_flight_def Let_def bind_eq_Some_conv split: if_splits)

lemma failure_state:
  assumes "circuit_failure e c half_open now threshold window open_duration = Some (e', c', u)"
    and "chronological (\<lambda>t. t) now (ci_failure_times c)"
  shows "ci_half_open_in_flight c' = ci_half_open_in_flight (release_in_flight c half_open)"
    "chronological (\<lambda>t. t) now (ci_failure_times c')"
    "ci_failure_times c' = [] \<or> length (ci_failure_times c') < threshold"
  using assms chronological_snoc [OF chronological_live [OF assms(2)], of now window now]
  by (auto simp: circuit_failure_cases chronological_def [of _ _ "[]"] split: if_splits)

lemma circuit_step_inv:
  assumes "circuit_step probes threshold window open_duration s s'" "ci_inv probes threshold s"
  shows "ci_inv probes threshold s'"
  using assms
proof (cases rule: circuit_step.cases)
  case (acquired now c p)
  then show ?thesis
    using acquire_inv [OF assms(2) acquired(2,3)] by simp
next
  case (refused now c t)
  then show ?thesis
    using acquire_inv [OF assms(2) refused(2,3)] by simp
next
  case (succeeded i e c)
  let ?s = "s\<lparr>sys_circuit := release_in_flight (sys_circuit s) (cp_half_open (sys_permits s ! i)),
       sys_permits := drop_nth i (sys_permits s)\<rparr>"
  have inv: "ci_inv probes threshold ?s"
    using assms(2) succeeded(2) by (rule release_inv)
  note st = success_state [OF succeeded(3) [unfolded permit_success_eq]]
  have "ci_inv probes threshold (?s\<lparr>sys_epoch := e, sys_circuit := c, sys_clock := sys_clock s\<rparr>)"
    using assms(2) st by (intro ci_inv_update [OF inv]) (auto simp: ci_inv_def chronological_def)
  then show ?thesis using succeeded(1) by (simp add: ci_inv_def)
next
  case (failed now i e c u)
  let ?s = "s\<lparr>sys_circuit := release_in_flight (sys_circuit s) (cp_half_open (sys_permits s ! i)),
       sys_permits := drop_nth i (sys_permits s)\<rparr>"
  have inv: "ci_inv probes threshold ?s"
    using assms(2) failed(3) by (rule release_inv)
  have chron: "chronological (\<lambda>t. t) now (ci_failure_times (sys_circuit s))"
    using assms(2) failed(2) by (auto simp: ci_inv_def intro: chronological_mono)
  note st = failure_state [OF failed(4) [unfolded permit_failure_eq] chron]
  have "ci_inv probes threshold (?s\<lparr>sys_epoch := e, sys_circuit := c, sys_clock := now\<rparr>)"
    using st by (intro ci_inv_update [OF inv]) auto
  then show ?thesis using failed(1) by (simp add: ci_inv_def)
next
  case (dropped i e c)
  have "c = release_in_flight (sys_circuit s) (cp_half_open (sys_permits s ! i))"
    using dropped(2,3) assms(2)
    by (auto simp: permit_drop_def release_probe_def release_in_flight_def ci_inv_def
        bind_eq_Some_conv split: if_splits)
  then show ?thesis
    using release_inv [OF assms(2) dropped(2)] dropped(1) by (simp add: ci_inv_def)
qed

definition circuit_start :: "scheduler_epoch \<Rightarrow> circuit \<Rightarrow> circuit_system" where
  "circuit_start e c = \<lparr> sys_epoch = e, sys_circuit = c, sys_permits = [], sys_clock = 0 \<rparr>"

lemma circuit_start_inv:
  "circuit_new e = Some (e', c) \<Longrightarrow> ci_inv probes threshold (circuit_start e' c)"
  by (auto simp: circuit_new_def circuit_start_def ci_inv_def chronological_def bind_eq_Some_conv)

lemma circuit_reachable_inv:
  assumes "(circuit_step probes threshold window open_duration)\<^sup>*\<^sup>* (circuit_start e' c) s"
    and "circuit_new e = Some (e', c)"
  shows "ci_inv probes threshold s"
  using assms(1)
  by (induction rule: rtranclp_induct) (auto intro: circuit_start_inv [OF assms(2)] circuit_step_inv)

text \<open>A circuit that has just been opened by one failed request, for the examples.\<close>

definition example_circuit :: circuit where
  "example_circuit =
     \<lparr> ci_failure_times = [], ci_open_until = Some 15, ci_half_open_in_flight = 0,
       ci_last_failure_at = Some 5, ci_wake = 1 \<rparr>"

lemmas circuit_eval =
  circuit_new_def wake_slot_def epoch_new_def wake_schedule_default_def checked_add_u64_def
  u64_max_def circuit_failure_def release_in_flight_def slot_schedule_def prepare_schedule_def
  ws_schedule_def insert_deadline_def publish_wake_def notify_wake_worker_def
  ensure_wake_worker_def duration_since_def permit_failure_eq circuit_start_def Let_def

section \<open>Properties\<close>

text \<open>
  C13. In every reachable state the circuit's counter of probes is exactly the number of probe
  permits somebody still holds, and that is at most the permitted number: no probe is counted
  twice, forgotten, or leaked by a permit that is dropped without an outcome.
\<close>

theorem circuit_probe_accounting:
  assumes "circuit_new e = Some (e', c)"
    and "(circuit_step probes threshold window open_duration)\<^sup>*\<^sup>* (circuit_start e' c) s"
  shows "ci_half_open_in_flight (sys_circuit s) = length (filter cp_half_open (sys_permits s)) \<and>
    ci_half_open_in_flight (sys_circuit s) \<le> probes"
  using circuit_reachable_inv [OF assms(2,1)] by (simp add: ci_inv_def)

theorem circuit_probe_accounting_witness:
  "\<exists>e c s. circuit_new epoch_new = Some (e, c) \<and>
     (circuit_step 1 1 30 10)\<^sup>*\<^sup>* (circuit_start e c) s \<and>
     ci_half_open_in_flight (sys_circuit s) = 1 \<and>
     length (filter cp_half_open (sys_permits s)) = ci_half_open_in_flight (sys_circuit s)"
proof -
  obtain e c where new: "circuit_new epoch_new = Some (e, c)"
      "c = \<lparr> ci_failure_times = [], ci_open_until = None, ci_half_open_in_flight = 0,
             ci_last_failure_at = None, ci_wake = 1 \<rparr>"
      "e = epoch_new\<lparr>ep_next_wake_slot := 2\<rparr>"
    by (simp add: circuit_eval)
  let ?p = "\<lparr> cp_half_open = False, cp_resolved = False, cp_started_at = 2 \<rparr>"
  let ?q = "\<lparr> cp_half_open = True, cp_resolved = False, cp_started_at = 20 \<rparr>"
  let ?s0 = "circuit_start e c"
  let ?s1 = "?s0\<lparr>sys_circuit := c, sys_permits := [?p], sys_clock := 2\<rparr>"
  have 1: "circuit_step 1 1 30 10 ?s0 ?s1"
    using circuit_step.acquired [of ?s0 2 1 c ?p 1 30 10] new(2)
    by (simp add: circuit_try_acquire_def circuit_start_def)
  obtain e2 where "permit_failure e c ?p 5 1 30 10 = Some (e2, example_circuit, Some 15)"
    by (simp add: circuit_eval new(2,3) example_circuit_def)
  then have 2: "circuit_step 1 1 30 10 ?s1
      (?s1\<lparr>sys_epoch := e2, sys_circuit := example_circuit, sys_permits := [], sys_clock := 5\<rparr>)"
    using circuit_step.failed [of ?s1 5 0 1 30 10 e2 example_circuit "Some 15" 1]
    by (simp add: drop_nth_def circuit_start_def)
  let ?s2 = "?s1\<lparr>sys_epoch := e2, sys_circuit := example_circuit, sys_permits := [], sys_clock := 5\<rparr>"
  let ?c3 = "example_circuit\<lparr>ci_half_open_in_flight := 1\<rparr>"
  have 3: "circuit_step 1 1 30 10 ?s2 (?s2\<lparr>sys_circuit := ?c3, sys_permits := [?q], sys_clock := 20\<rparr>)"
    using circuit_step.acquired [of ?s2 20 1 ?c3 ?q 1 30 10]
    by (simp add: circuit_try_acquire_def example_circuit_def)
  have run: "(circuit_step 1 1 30 10)\<^sup>*\<^sup>* ?s0
      (?s2\<lparr>sys_circuit := ?c3, sys_permits := [?q], sys_clock := 20\<rparr>)"
    using 1 2 3 by (meson converse_rtranclp_into_rtranclp rtranclp.rtrancl_refl)
  show ?thesis
    using new(1) run circuit_probe_accounting [OF new(1) run]
    by (intro exI [of _ e] exI [of _ c]
        exI [of _ "?s2\<lparr>sys_circuit := ?c3, sys_permits := [?q], sys_clock := 20\<rparr>"]) simp
qed



text \<open>
  A success closes the circuit, clears its failures and wakes the waiting requests if
  anything changed, unless a failure was recorded after the successful attempt had started; such
  a late success only gives back its probe.
\<close>

lemma circuit_success_closes:
  assumes "ep_inv e" "circuit_success e c half_open started_at = Some (e', c')"
  shows "if \<exists>t. ci_last_failure_at c = Some t \<and> started_at < t
    then e' = e \<and> c' = release_in_flight c half_open
    else circuit_state_at c' now = Closed \<and> ci_failure_times c' = [] \<and> ep_inv e' \<and>
      ws_by_slot (ep_wakes e') (ci_wake c) = None \<and>
      ep_current e' = ep_current e +
        (if ci_failure_times c \<noteq> [] \<or> ci_open_until c \<noteq> None then 1 else 0)"
proof (cases "\<exists>t. ci_last_failure_at c = Some t \<and> started_at < t")
  case True
  then show ?thesis
    using assms(2) by (auto simp: circuit_success_def release_in_flight_def Let_def)
next
  case False
  let ?changed = "ci_failure_times c \<noteq> [] \<or> ci_open_until c \<noteq> None"
  obtain e1 where e1: "slot_cancel e (ci_wake c) = Some e1"
    and e': "(if ?changed then map_option fst (advance e1) else Some e1) = Some e'"
    and c': "c' = (release_in_flight c half_open)
        \<lparr>ci_failure_times := [], ci_open_until := None, ci_last_failure_at := None\<rparr>"
    using assms(2) False
    by (auto simp: circuit_success_def release_in_flight_def Let_def bind_eq_Some_conv
        split: option.splits if_splits)
  note ok = slot_cancel_ok [OF assms(1) e1]
  have "ep_inv e' \<and> ep_current e' = ep_current e + (if ?changed then 1 else 0) \<and>
      ep_wakes e' = ep_wakes e1"
    using e' ok advance_inv [OF ok(1)] by (auto simp: advance_Some_iff split: if_splits)
  then show ?thesis
    unfolding if_not_P [OF False] using ok(3) c' by (simp add: circuit_state_at_def)
qed

end
