(* ===== verification/Upstream_Error.thy ===== *)
theory Upstream_Error
  imports Gateway_Prelude
begin

text \<open>
  How an upstream failure is described: \<open>crates/domain/src/upstream_error.rs\<close>,
  \<open>crates/domain/src/error.rs\<close> and \<open>crates/domain/src/routing/retry_safety.rs\<close>.

  Constructors carry a prefix for the enumeration they belong to: \<open>UK\<close> for the kind of an
  upstream error, \<open>UA\<close> for what it is attributed to, \<open>EC\<close> for the error class and \<open>RS\<close> for
  the safety of a retry. System time, like the monotonic clock, counts nanoseconds.
\<close>

section \<open>Retry safety\<close>

datatype retry_safety = RS_DefinitelyNotSent | RS_RejectedBeforeExecution | RS_Idempotent | RS_Ambiguous

definition allows_automatic_retry :: "retry_safety \<Rightarrow> bool" where
  "allows_automatic_retry s \<longleftrightarrow> s \<noteq> RS_Ambiguous"

fun retry_safety_as_str :: "retry_safety \<Rightarrow> string" where
  "retry_safety_as_str RS_DefinitelyNotSent = ''definitely_not_sent''"
| "retry_safety_as_str RS_RejectedBeforeExecution = ''rejected_before_execution''"
| "retry_safety_as_str RS_Idempotent = ''idempotent''"
| "retry_safety_as_str RS_Ambiguous = ''ambiguous''"

definition retry_safety_parse :: "string \<Rightarrow> retry_safety option" where
  "retry_safety_parse v =
     (if v = ''definitely_not_sent'' then Some RS_DefinitelyNotSent
      else if v = ''rejected_before_execution'' then Some RS_RejectedBeforeExecution
      else if v = ''idempotent'' then Some RS_Idempotent
      else if v = ''ambiguous'' then Some RS_Ambiguous
      else None)"

section \<open>Error classes\<close>

datatype error_class =
    EC_InvalidRequest | EC_Authentication | EC_PermissionDenied | EC_QuotaExhausted
  | EC_RateLimited | EC_ModelUnavailable | EC_OperationUnavailable | EC_Proxy | EC_Network
  | EC_Upstream | EC_Cancelled | EC_Internal

fun error_class_as_str :: "error_class \<Rightarrow> string" where
  "error_class_as_str EC_InvalidRequest = ''invalid_request''"
| "error_class_as_str EC_Authentication = ''authentication''"
| "error_class_as_str EC_PermissionDenied = ''permission_denied''"
| "error_class_as_str EC_QuotaExhausted = ''quota_exhausted''"
| "error_class_as_str EC_RateLimited = ''rate_limited''"
| "error_class_as_str EC_ModelUnavailable = ''model_unavailable''"
| "error_class_as_str EC_OperationUnavailable = ''operation_unavailable''"
| "error_class_as_str EC_Proxy = ''proxy''"
| "error_class_as_str EC_Network = ''network''"
| "error_class_as_str EC_Upstream = ''upstream''"
| "error_class_as_str EC_Cancelled = ''cancelled''"
| "error_class_as_str EC_Internal = ''internal''"

definition error_class_parse :: "string \<Rightarrow> error_class option" where
  "error_class_parse v =
     (if v = ''invalid_request'' then Some EC_InvalidRequest
      else if v = ''authentication'' then Some EC_Authentication
      else if v = ''permission_denied'' then Some EC_PermissionDenied
      else if v = ''quota_exhausted'' then Some EC_QuotaExhausted
      else if v = ''rate_limited'' then Some EC_RateLimited
      else if v = ''model_unavailable'' then Some EC_ModelUnavailable
      else if v = ''operation_unavailable'' then Some EC_OperationUnavailable
      else if v = ''proxy'' then Some EC_Proxy
      else if v = ''network'' then Some EC_Network
      else if v = ''upstream'' then Some EC_Upstream
      else if v = ''cancelled'' then Some EC_Cancelled
      else if v = ''internal'' then Some EC_Internal
      else None)"

section \<open>Upstream errors\<close>

datatype upstream_error_kind =
    UK_InvalidRequest | UK_Authentication | UK_PermissionDenied | UK_QuotaExhausted
  | UK_RateLimited | UK_ModelUnavailable | UK_OperationUnavailable | UK_Transient | UK_Unknown

datatype upstream_failure_attribution =
    UA_Unattributed | UA_Authentication | UA_Credential | UA_CredentialModel
  | UA_RouteOperation | UA_EgressPath | UA_Endpoint

fun attribution_as_str :: "upstream_failure_attribution \<Rightarrow> string" where
  "attribution_as_str UA_Unattributed = ''unattributed''"
| "attribution_as_str UA_Authentication = ''authentication''"
| "attribution_as_str UA_Credential = ''credential''"
| "attribution_as_str UA_CredentialModel = ''credential_model''"
| "attribution_as_str UA_RouteOperation = ''route_operation''"
| "attribution_as_str UA_EgressPath = ''egress_path''"
| "attribution_as_str UA_Endpoint = ''endpoint''"

definition attribution_parse :: "string \<Rightarrow> upstream_failure_attribution option" where
  "attribution_parse v =
     (if v = ''unattributed'' then Some UA_Unattributed
      else if v = ''authentication'' then Some UA_Authentication
      else if v = ''credential'' then Some UA_Credential
      else if v = ''credential_model'' then Some UA_CredentialModel
      else if v = ''route_operation'' then Some UA_RouteOperation
      else if v = ''egress_path'' then Some UA_EgressPath
      else if v = ''endpoint'' then Some UA_Endpoint
      else None)"

fun kind_error_class :: "upstream_error_kind \<Rightarrow> error_class" where
  "kind_error_class UK_InvalidRequest = EC_InvalidRequest"
| "kind_error_class UK_Authentication = EC_Authentication"
| "kind_error_class UK_PermissionDenied = EC_PermissionDenied"
| "kind_error_class UK_QuotaExhausted = EC_QuotaExhausted"
| "kind_error_class UK_RateLimited = EC_RateLimited"
| "kind_error_class UK_ModelUnavailable = EC_ModelUnavailable"
| "kind_error_class UK_OperationUnavailable = EC_OperationUnavailable"
| "kind_error_class UK_Transient = EC_Upstream"
| "kind_error_class UK_Unknown = EC_Upstream"

definition is_retry_candidate :: "upstream_error_kind \<Rightarrow> bool" where
  "is_retry_candidate k \<longleftrightarrow>
     k \<in> {UK_Authentication, UK_PermissionDenied, UK_QuotaExhausted, UK_RateLimited,
          UK_ModelUnavailable, UK_OperationUnavailable, UK_Transient}"

fun default_retry_safety :: "upstream_error_kind \<Rightarrow> retry_safety" where
  "default_retry_safety UK_Authentication = RS_RejectedBeforeExecution"
| "default_retry_safety UK_PermissionDenied = RS_RejectedBeforeExecution"
| "default_retry_safety UK_QuotaExhausted = RS_RejectedBeforeExecution"
| "default_retry_safety UK_RateLimited = RS_RejectedBeforeExecution"
| "default_retry_safety UK_ModelUnavailable = RS_RejectedBeforeExecution"
| "default_retry_safety UK_OperationUnavailable = RS_RejectedBeforeExecution"
| "default_retry_safety UK_InvalidRequest = RS_Ambiguous"
| "default_retry_safety UK_Transient = RS_Ambiguous"
| "default_retry_safety UK_Unknown = RS_Ambiguous"

definition MAX_RETRY_AFTER_SECONDS :: nat where
  "MAX_RETRY_AFTER_SECONDS = 30 * 24 * 60 * 60"

datatype retry_after_hint = Delay duration | At nat

definition delay_from :: "retry_after_hint \<Rightarrow> nat \<Rightarrow> duration" where
  "delay_from hint now =
     min (case hint of Delay d \<Rightarrow> d | At instant \<Rightarrow> instant - now)
       (from_secs MAX_RETRY_AFTER_SECONDS)"

record upstream_quota_exhaustion =
  uq_used :: nat
  uq_limit :: nat

record upstream_error_classification =
  uc_kind :: upstream_error_kind
  uc_retry_safety :: retry_safety
  uc_retry_after :: "retry_after_hint option"
  uc_quota_exhaustion :: "upstream_quota_exhaustion option"
  uc_attribution :: upstream_failure_attribution

definition classification_new ::
  "upstream_error_kind \<Rightarrow> retry_safety \<Rightarrow> retry_after_hint option \<Rightarrow> upstream_error_classification" where
  "classification_new kind safety retry_after =
     \<lparr> uc_kind = kind, uc_retry_safety = safety, uc_retry_after = retry_after,
       uc_quota_exhaustion = None, uc_attribution = UA_Unattributed \<rparr>"

lemma delay_from_bounded: "delay_from hint now \<le> from_secs MAX_RETRY_AFTER_SECONDS"
  by (simp add: delay_from_def)

lemma error_class_names: "error_class_parse v = Some c \<longleftrightarrow> v = error_class_as_str c"
proof
  assume "error_class_parse v = Some c"
  then show "v = error_class_as_str c"
    unfolding error_class_parse_def by (auto split: if_split_asm simp del: list.inject char.inject)
next
  assume "v = error_class_as_str c"
  then show "error_class_parse v = Some c"
    by (cases c) (simp_all add: error_class_parse_def)
qed

lemma retry_safety_names: "retry_safety_parse v = Some s \<longleftrightarrow> v = retry_safety_as_str s"
proof
  assume "retry_safety_parse v = Some s"
  then show "v = retry_safety_as_str s"
    unfolding retry_safety_parse_def by (auto split: if_split_asm simp del: list.inject char.inject)
next
  assume "v = retry_safety_as_str s"
  then show "retry_safety_parse v = Some s"
    by (cases s) (simp_all add: retry_safety_parse_def)
qed

lemma attribution_names: "attribution_parse v = Some a \<longleftrightarrow> v = attribution_as_str a"
proof
  assume "attribution_parse v = Some a"
  then show "v = attribution_as_str a"
    unfolding attribution_parse_def by (auto split: if_split_asm simp del: list.inject char.inject)
next
  assume "v = attribution_as_str a"
  then show "attribution_parse v = Some a"
    by (cases a) (simp_all add: attribution_parse_def)
qed

section \<open>Properties\<close>

text \<open>
  The stored names of error classes, retry safeties and attributions are faithful: each
  value's name parses back to it, and nothing else parses to it.
\<close>

lemma names_round_trip:
  "(error_class_parse v = Some c \<longleftrightarrow> v = error_class_as_str c) \<and>
   (retry_safety_parse v = Some s \<longleftrightarrow> v = retry_safety_as_str s) \<and>
   (attribution_parse v = Some a \<longleftrightarrow> v = attribution_as_str a)"
  by (simp add: error_class_names retry_safety_names attribution_names)

end
