(* ===== verification/Route_Admission.thy ===== *)
theory Route_Admission
  imports Domain_Kinds "HOL-Library.AList"
begin

text \<open>
  Admission of attempts to a route: \<open>crates/runtime/src/routing/admission.rs\<close>.

  A \<open>RouteAdmission\<close> is a shared object with one flag. Publishing a configuration revokes the
  admissions that are not part of it; a revoked admission is never used again, a route that comes
  back gets a new incarnation. The objects live in a heap, addressed by their index, because
  requests keep hold of them across a cutover. The registry holds weak references; \<open>alive\<close> says
  which objects are still held by someone, so that a weak reference to them upgrades.
\<close>

section \<open>State\<close>

record route_admission_identity =
  rai_credential_id :: routing_credential_id
  rai_routing_generation :: nat
  rai_endpoint_id :: endpoint_id
  rai_endpoint_config_version :: nat
  rai_proxy_id :: proxy_id
  rai_proxy_config_version :: nat

record route_admission =
  ra_identity :: route_admission_identity
  ra_incarnation :: nat
  ra_active :: bool

record admission_registry =
  ar_heap :: "route_admission list"
  ar_next_incarnation :: nat
  ar_by_identity :: "(route_admission_identity \<times> nat) list"

definition admission_registry_default :: admission_registry where
  "admission_registry_default = \<lparr> ar_heap = [], ar_next_incarnation = 1, ar_by_identity = [] \<rparr>"

definition route_admission_new :: "route_admission_identity \<Rightarrow> nat \<Rightarrow> route_admission" where
  "route_admission_new identity incarnation =
     \<lparr> ra_identity = identity, ra_incarnation = incarnation, ra_active = True \<rparr>"

definition is_active :: "admission_registry \<Rightarrow> nat \<Rightarrow> bool" where
  "is_active r a \<longleftrightarrow> ra_active (ar_heap r ! a)"

datatype attempt_start_rejected = AttemptStartRejected

text \<open>The permit of a started attempt holds the admission it was started under.\<close>

definition try_start :: "admission_registry \<Rightarrow> nat \<Rightarrow> attempt_start_rejected + nat" where
  "try_start r a = (if is_active r a then Inr a else Inl AttemptStartRejected)"

definition revoke :: "nat \<Rightarrow> admission_registry \<Rightarrow> admission_registry" where
  "revoke a r = r\<lparr>ar_heap := (ar_heap r)[a := (ar_heap r ! a)\<lparr>ra_active := False\<rparr>]\<rparr>"

section \<open>The registry\<close>

text \<open>\<open>None\<close> is the panic when incarnations run out.\<close>

definition prepare ::
  "(nat \<Rightarrow> bool) \<Rightarrow> route_admission_identity \<Rightarrow> admission_registry \<Rightarrow>
   (admission_registry \<times> nat) option" where
  "prepare alive identity r =
     (let current = (case map_of (ar_by_identity r) identity of
                       None \<Rightarrow> None
                     | Some a \<Rightarrow> if alive a \<and> is_active r a then Some a else None)
      in case current of
           Some a \<Rightarrow> Some (r, a)
         | None \<Rightarrow>
             (case checked_add_u64 (ar_next_incarnation r) 1 of
                None \<Rightarrow> None
              | Some next \<Rightarrow>
                  (let a = length (ar_heap r)
                   in Some (r\<lparr>ar_heap := ar_heap r @ [route_admission_new identity (ar_next_incarnation r)],
                              ar_next_incarnation := next,
                              ar_by_identity := AList.update identity a (ar_by_identity r)\<rparr>, a))))"

text \<open>One round of \<open>HashMap::retain\<close>: whether the entry stays, and the registry after it.\<close>

definition retain_admission ::
  "(nat \<Rightarrow> bool) \<Rightarrow> nat list \<Rightarrow> nat \<Rightarrow> admission_registry \<Rightarrow> admission_registry \<times> bool" where
  "retain_admission alive current a r =
     (if \<not> alive a then (r, False)
      else if ra_incarnation (ar_heap r ! a) \<in> set current then (r, True)
      else (revoke a r, False))"

fun retain_admissions ::
  "(nat \<Rightarrow> bool) \<Rightarrow> nat list \<Rightarrow> (route_admission_identity \<times> nat) list \<Rightarrow> admission_registry \<Rightarrow>
   admission_registry \<times> (route_admission_identity \<times> nat) list" where
  "retain_admissions alive current [] r = (r, [])"
| "retain_admissions alive current ((identity, a) # entries) r =
     (let (r, keep) = retain_admission alive current a r;
          (r, kept) = retain_admissions alive current entries r
      in (r, if keep then (identity, a) # kept else kept))"

definition publish_current ::
  "(nat \<Rightarrow> bool) \<Rightarrow> nat list \<Rightarrow> admission_registry \<Rightarrow> admission_registry" where
  "publish_current alive current r =
     (let incarnations = map (\<lambda>a. ra_incarnation (ar_heap r ! a)) current;
          (r, kept) = retain_admissions alive incarnations (ar_by_identity r) r
      in r\<lparr>ar_by_identity := kept\<rparr>)"

section \<open>Invariant\<close>

text \<open>
  The registry is a function from identities to objects of that identity; incarnations are
  unique; and an object that is active and held is the registered one of its identity.
\<close>

definition adm_wf :: "admission_registry \<Rightarrow> bool" where
  "adm_wf r \<longleftrightarrow>
     distinct (map fst (ar_by_identity r)) \<and>
     (\<forall>(i, a)\<in>set (ar_by_identity r). a < length (ar_heap r) \<and> ra_identity (ar_heap r ! a) = i) \<and>
     distinct (map ra_incarnation (ar_heap r)) \<and>
     (\<forall>x\<in>set (ar_heap r). ra_incarnation x < ar_next_incarnation r)"

definition adm_inv :: "(nat \<Rightarrow> bool) \<Rightarrow> admission_registry \<Rightarrow> bool" where
  "adm_inv alive r \<longleftrightarrow>
     adm_wf r \<and>
     (\<forall>a<length (ar_heap r). alive a \<longrightarrow> is_active r a \<longrightarrow>
        map_of (ar_by_identity r) (ra_identity (ar_heap r ! a)) = Some a)"

lemma adm_inv_default [inv_intros]: "adm_inv alive admission_registry_default"
  by (simp add: adm_inv_def adm_wf_def admission_registry_default_def)

lemma adm_inv_drop [inv_intros]: "adm_inv alive r \<Longrightarrow> adm_inv (alive(a := False)) r"
  by (simp add: adm_inv_def)

lemma revoke_simps [simp]:
  "length (ar_heap (revoke a r)) = length (ar_heap r)"
  "ar_by_identity (revoke a r) = ar_by_identity r"
  "ar_next_incarnation (revoke a r) = ar_next_incarnation r"
  by (simp_all add: revoke_def)

lemma revoke_heap:
  "a < length (ar_heap r) \<Longrightarrow> b < length (ar_heap r) \<Longrightarrow>
   ar_heap (revoke a r) ! b =
     (if b = a then (ar_heap r ! a)\<lparr>ra_active := False\<rparr> else ar_heap r ! b)"
  by (simp add: revoke_def nth_list_update)

section \<open>Preparing\<close>

lemma prepare_cases:
  assumes "prepare alive identity r = Some (r', a)"
  shows "(r' = r \<and> map_of (ar_by_identity r) identity = Some a \<and> alive a \<and> is_active r a) \<or>
         (a = length (ar_heap r) \<and>
          (\<forall>b. map_of (ar_by_identity r) identity = Some b \<longrightarrow> alive b \<longrightarrow> \<not> is_active r b) \<and>
          r' = r\<lparr>ar_heap := ar_heap r @ [route_admission_new identity (ar_next_incarnation r)],
                 ar_next_incarnation := ar_next_incarnation r + 1,
                 ar_by_identity := AList.update identity a (ar_by_identity r)\<rparr>)"
  using assms
  by (auto simp: prepare_def Let_def checked_add_u64_def
      split: option.split_asm if_split_asm)

lemma prepare_heap:
  assumes "prepare alive identity r = Some (r', a)" "b < length (ar_heap r)"
  shows "ar_heap r' ! b = ar_heap r ! b" "length (ar_heap r) \<le> length (ar_heap r')"
  using prepare_cases [OF assms(1)] assms(2) by (auto simp: nth_append)

lemma prepare_active:
  assumes "prepare alive identity r = Some (r', a)" "adm_wf r"
  shows "is_active r' a" "a < length (ar_heap r')" "ra_identity (ar_heap r' ! a) = identity"
  using prepare_cases [OF assms(1)] assms(2)
  by (auto simp: is_active_def route_admission_new_def adm_wf_def dest!: map_of_SomeD)

lemma prepare_wf:
  assumes "prepare alive identity r = Some (r', a)" "adm_wf r"
  shows "adm_wf r'"
  using prepare_cases [OF assms(1)]
proof
  assume new: "a = length (ar_heap r) \<and>
          (\<forall>b. map_of (ar_by_identity r) identity = Some b \<longrightarrow> alive b \<longrightarrow> \<not> is_active r b) \<and>
          r' = r\<lparr>ar_heap := ar_heap r @ [route_admission_new identity (ar_next_incarnation r)],
                 ar_next_incarnation := ar_next_incarnation r + 1,
                 ar_by_identity := AList.update identity a (ar_by_identity r)\<rparr>"
  then have r': "r' = r\<lparr>ar_heap := ar_heap r @ [route_admission_new identity (ar_next_incarnation r)],
                 ar_next_incarnation := ar_next_incarnation r + 1,
                 ar_by_identity := AList.update identity (length (ar_heap r)) (ar_by_identity r)\<rparr>"
    by simp
  have d: "distinct (map fst (AList.update identity (length (ar_heap r)) (ar_by_identity r)))"
    using assms(2) by (simp add: adm_wf_def AList.distinct_update)
  have "(i = identity \<and> b = length (ar_heap r)) \<or> (i, b) \<in> set (ar_by_identity r)"
    if "(i, b) \<in> set (AList.update identity (length (ar_heap r)) (ar_by_identity r))" for i b
    using map_of_is_SomeI [OF d that] by (auto simp: AList.update_conv' split: if_split_asm dest: map_of_SomeD)
  then show ?thesis
    using assms(2) d unfolding r' adm_wf_def
    by (fastforce simp: route_admission_new_def nth_append less_Suc_eq)
qed (use assms(2) in simp)

lemma prepare_inv [inv_intros]:
  assumes p: "prepare alive identity r = Some (r', a)" and inv: "adm_inv alive r"
  shows "adm_inv (alive(a := True)) r'"
proof -
  have wf: "adm_wf r" and reg: "\<And>b. b < length (ar_heap r) \<Longrightarrow> alive b \<Longrightarrow> is_active r b \<Longrightarrow>
      map_of (ar_by_identity r) (ra_identity (ar_heap r ! b)) = Some b"
    using inv by (auto simp: adm_inv_def)
  show ?thesis
    using prepare_cases [OF p]
  proof
    assume "r' = r \<and> map_of (ar_by_identity r) identity = Some a \<and> alive a \<and> is_active r a"
    then have "r' = r" "alive(a := True) = alive" by (auto simp: fun_upd_idem)
    then show ?thesis using inv by simp
  next
    assume new: "a = length (ar_heap r) \<and>
          (\<forall>b. map_of (ar_by_identity r) identity = Some b \<longrightarrow> alive b \<longrightarrow> \<not> is_active r b) \<and>
          r' = r\<lparr>ar_heap := ar_heap r @ [route_admission_new identity (ar_next_incarnation r)],
                 ar_next_incarnation := ar_next_incarnation r + 1,
                 ar_by_identity := AList.update identity a (ar_by_identity r)\<rparr>"
    then have "map_of (ar_by_identity r') (ra_identity (ar_heap r' ! b)) = Some b"
      if "b < length (ar_heap r')" "(alive(a := True)) b" "is_active r' b" for b
      using that reg [of b] by (auto simp: AList.update_conv' is_active_def nth_append
          route_admission_new_def less_Suc_eq split: if_split_asm)
    then show ?thesis using prepare_wf [OF p wf] by (simp add: adm_inv_def)
  qed
qed

section \<open>Publishing\<close>

definition revoked_by ::
  "(nat \<Rightarrow> bool) \<Rightarrow> nat list \<Rightarrow> (route_admission_identity \<times> nat) list \<Rightarrow> admission_registry \<Rightarrow> nat \<Rightarrow> bool" where
  "revoked_by alive current entries r b \<longleftrightarrow>
     b \<in> snd ` set entries \<and> alive b \<and> ra_incarnation (ar_heap r ! b) \<notin> set current"

lemma retain_admissions_spec:
  assumes "retain_admissions alive current entries r = (r', kept)"
    and "\<forall>(i, a)\<in>set entries. a < length (ar_heap r)"
  shows "kept = filter (\<lambda>(i, a). alive a \<and> ra_incarnation (ar_heap r ! a) \<in> set current) entries \<and>
         length (ar_heap r') = length (ar_heap r) \<and>
         ar_next_incarnation r' = ar_next_incarnation r \<and>
         (\<forall>b<length (ar_heap r). ar_heap r' ! b =
            (if revoked_by alive current entries r b
             then (ar_heap r ! b)\<lparr>ra_active := False\<rparr> else ar_heap r ! b))"
  using assms
proof (induction entries arbitrary: r kept)
  case Nil
  then show ?case by (simp add: revoked_by_def)
next
  case (Cons e entries)
  obtain i a where e: "e = (i, a)" by (cases e)
  obtain r1 keep where step: "retain_admission alive current a r = (r1, keep)"
    by (cases "retain_admission alive current a r")
  obtain kept' where rest: "retain_admissions alive current entries r1 = (r', kept')"
      and kept: "kept = (if keep then e # kept' else kept')"
    using Cons.prems(1) by (auto simp: e step split: prod.split_asm)
  have a: "a < length (ar_heap r)" using Cons.prems(2) by (simp add: e)
  have keep: "keep \<longleftrightarrow> alive a \<and> ra_incarnation (ar_heap r ! a) \<in> set current"
    and len: "length (ar_heap r1) = length (ar_heap r)"
      "ar_next_incarnation r1 = ar_next_incarnation r"
    and heap: "\<And>b. b < length (ar_heap r) \<Longrightarrow> ar_heap r1 ! b =
        (if b = a \<and> alive a \<and> ra_incarnation (ar_heap r ! a) \<notin> set current
         then (ar_heap r ! b)\<lparr>ra_active := False\<rparr> else ar_heap r ! b)"
    using step a by (auto simp: retain_admission_def revoke_heap split: if_split_asm)
  have inc: "ra_incarnation (ar_heap r1 ! b) = ra_incarnation (ar_heap r ! b)"
    if "b < length (ar_heap r)" for b using heap [OF that] by simp
  have bounds: "\<forall>(i, a)\<in>set entries. a < length (ar_heap r1)"
    using Cons.prems(2) by (auto simp: len)
  have filt: "filter (\<lambda>(i, a). alive a \<and> ra_incarnation (ar_heap r1 ! a) \<in> set current) entries =
      filter (\<lambda>(i, a). alive a \<and> ra_incarnation (ar_heap r ! a) \<in> set current) entries"
    using Cons.prems(2) inc by (auto intro!: filter_cong)
  show ?case
    using Cons.IH [OF rest bounds]
    by (auto simp: kept keep e filt len heap inc revoked_by_def)
qed

lemma publish_heap:
  fixes current :: "nat list" and r :: admission_registry
  assumes "adm_wf r"
  defines "cur \<equiv> map (\<lambda>a. ra_incarnation (ar_heap r ! a)) current"
  shows "length (ar_heap (publish_current alive current r)) = length (ar_heap r)"
    and "b < length (ar_heap r) \<Longrightarrow> ar_heap (publish_current alive current r) ! b =
           (if revoked_by alive cur (ar_by_identity r) r b
            then (ar_heap r ! b)\<lparr>ra_active := False\<rparr> else ar_heap r ! b)"
    and "ar_by_identity (publish_current alive current r) =
           filter (\<lambda>(i, a). alive a \<and> ra_incarnation (ar_heap r ! a) \<in> set cur) (ar_by_identity r)"
    and "ar_next_incarnation (publish_current alive current r) = ar_next_incarnation r"
proof -
  obtain r' kept where ret: "retain_admissions alive cur (ar_by_identity r) r = (r', kept)"
    by (cases "retain_admissions alive cur (ar_by_identity r) r")
  have pub: "publish_current alive current r = r'\<lparr>ar_by_identity := kept\<rparr>"
    by (simp add: publish_current_def Let_def ret [unfolded cur_def])
  have "\<forall>(i, a)\<in>set (ar_by_identity r). a < length (ar_heap r)"
    using assms(1) by (auto simp: adm_wf_def)
  note spec = retain_admissions_spec [OF ret this]
  show "length (ar_heap (publish_current alive current r)) = length (ar_heap r)"
    and "b < length (ar_heap r) \<Longrightarrow> ar_heap (publish_current alive current r) ! b =
           (if revoked_by alive cur (ar_by_identity r) r b
            then (ar_heap r ! b)\<lparr>ra_active := False\<rparr> else ar_heap r ! b)"
    and "ar_by_identity (publish_current alive current r) =
           filter (\<lambda>(i, a). alive a \<and> ra_incarnation (ar_heap r ! a) \<in> set cur) (ar_by_identity r)"
    and "ar_next_incarnation (publish_current alive current r) = ar_next_incarnation r"
    using spec by (simp_all add: pub)
qed

lemma incarnation_inj:
  assumes "adm_wf r" "a < length (ar_heap r)" "b < length (ar_heap r)"
  shows "ra_incarnation (ar_heap r ! a) = ra_incarnation (ar_heap r ! b) \<longleftrightarrow> a = b"
  using assms by (auto simp: adm_wf_def distinct_map inj_on_def distinct_conv_nth)

lemma publish_active:
  assumes inv: "adm_inv alive r" and cur: "\<forall>a\<in>set current. a < length (ar_heap r)"
    and b: "b < length (ar_heap r)" "alive b"
  shows "is_active (publish_current alive current r) b \<longleftrightarrow> is_active r b \<and> b \<in> set current"
proof -
  have wf: "adm_wf r" using inv by (simp add: adm_inv_def)
  have mem: "ra_incarnation (ar_heap r ! b) \<in> set (map (\<lambda>a. ra_incarnation (ar_heap r ! a)) current)
      \<longleftrightarrow> b \<in> set current"
    using incarnation_inj [OF wf] cur b(1) by auto
  have "b \<in> snd ` set (ar_by_identity r)" if "is_active r b"
  proof -
    have "map_of (ar_by_identity r) (ra_identity (ar_heap r ! b)) = Some b"
      using inv b that by (simp add: adm_inv_def)
    from map_of_SomeD [OF this] show ?thesis by (force simp: image_iff)
  qed
  then show ?thesis
    using publish_heap(2) [OF wf b(1)] b(2) mem by (auto simp: is_active_def revoked_by_def)
qed

lemma adm_publish_inv [inv_intros]:
  assumes inv: "adm_inv alive r"
  shows "adm_inv alive (publish_current alive current r)"
proof -
  let ?r = "publish_current alive current r"
  have wf: "adm_wf r" using inv by (simp add: adm_inv_def)
  note ph = publish_heap [OF wf]
  have same: "ra_identity (ar_heap ?r ! b) = ra_identity (ar_heap r ! b) \<and>
      ra_incarnation (ar_heap ?r ! b) = ra_incarnation (ar_heap r ! b)"
    if "b < length (ar_heap r)" for b using ph(2) [OF that] by auto
  have incs: "map ra_incarnation (ar_heap ?r) = map ra_incarnation (ar_heap r)"
    by (rule nth_equalityI) (auto simp: ph(1) same)
  then have incs_set: "ra_incarnation ` set (ar_heap ?r) = ra_incarnation ` set (ar_heap r)"
    by (metis list.set_map)
  have keys: "distinct (map fst (ar_by_identity ?r))"
    using wf by (auto simp: ph(3) adm_wf_def distinct_map_filter)
  have "\<forall>x\<in>set (ar_heap ?r). ra_incarnation x < ar_next_incarnation r"
    using incs_set wf by (force simp: adm_wf_def)
  then have wf': "adm_wf ?r"
    using wf keys same unfolding adm_wf_def incs by (auto simp: ph)
  have "map_of (ar_by_identity ?r) (ra_identity (ar_heap ?r ! b)) = Some b"
    if b: "b < length (ar_heap ?r)" "alive b" "is_active ?r b" for b
  proof -
    have b': "b < length (ar_heap r)" using b(1) by (simp add: ph(1))
    have act: "is_active r b" and nrev: "\<not> revoked_by alive
        (map (\<lambda>a. ra_incarnation (ar_heap r ! a)) current) (ar_by_identity r) r b"
      using b(3) ph(2) [OF b'] by (auto simp: is_active_def split: if_split_asm)
    have "(ra_identity (ar_heap r ! b), b) \<in> set (ar_by_identity r)"
      using inv b' b(2) act by (auto simp: adm_inv_def dest: map_of_SomeD)
    then have "(ra_identity (ar_heap ?r ! b), b) \<in> set (ar_by_identity ?r)"
      using nrev b(2) same [OF b'] by (auto simp: ph(3) revoked_by_def image_iff)
    then show ?thesis using keys by simp
  qed
  then show ?thesis using wf' by (simp add: adm_inv_def)
qed

section \<open>Runs\<close>

text \<open>
  The history of a process: configurations prepare admissions, a cutover publishes the ones it
  holds, requests and retired configurations let go of theirs.
\<close>

inductive adm_step ::
  "(nat \<Rightarrow> bool) \<times> admission_registry \<Rightarrow> (nat \<Rightarrow> bool) \<times> admission_registry \<Rightarrow> bool" where
  step_prepare: "prepare alive identity r = Some (r', a) \<Longrightarrow>
     adm_step (alive, r) (alive(a := True), r')"
| step_publish: "\<forall>a\<in>set current. a < length (ar_heap r) \<and> alive a \<Longrightarrow>
     adm_step (alive, r) (alive, publish_current alive current r)"
| step_release: "adm_step (alive, r) (alive(a := False), r)"

inductive_cases adm_stepE: "adm_step (alive, r) s"

definition adm_start :: "(nat \<Rightarrow> bool) \<times> admission_registry" where
  "adm_start = (\<lambda>_. False, admission_registry_default)"

lemma adm_reachable_inv:
  assumes "adm_step\<^sup>*\<^sup>* adm_start (alive, r)"
  shows "adm_inv alive r"
proof -
  have "case s of (alive, r) \<Rightarrow> adm_inv alive r" if "adm_step\<^sup>*\<^sup>* adm_start s" for s
    using that
  proof induction
    case base
    then show ?case by (simp add: adm_start_def adm_inv_default)
  next
    case (step s s')
    from step.hyps(2) step.IH show ?case
      by (cases rule: adm_step.cases) (auto intro: inv_intros)
  qed
  from this [OF assms] show ?thesis by simp
qed

lemma adm_step_inactive:
  assumes "adm_step (alive, r) (alive', r')" "adm_wf r" "b < length (ar_heap r)" "\<not> is_active r b"
  shows "\<not> is_active r' b \<and> b < length (ar_heap r')"
  using assms(1)
proof (cases rule: adm_step.cases)
  case (step_prepare identity a)
  then show ?thesis using prepare_heap [OF _ assms(3)] assms(3,4) by (force simp: is_active_def)
next
  case (step_publish current)
  then show ?thesis using publish_heap(1,2) [OF assms(2)] assms(3,4) by (auto simp: is_active_def)
qed (use assms in auto)

lemma adm_steps_inactive:
  assumes "adm_step\<^sup>*\<^sup>* s s'" "adm_inv (fst s) (snd s)" "b < length (ar_heap (snd s))" "\<not> is_active (snd s) b"
  shows "\<not> is_active (snd s') b \<and> b < length (ar_heap (snd s')) \<and> adm_inv (fst s') (snd s')"
  using assms
proof (induction rule: rtranclp_induct)
  case (step s1 s2)
  then have ih: "\<not> is_active (snd s1) b" "b < length (ar_heap (snd s1))" "adm_inv (fst s1) (snd s1)"
    by auto
  have "adm_inv (fst s2) (snd s2)"
    using step.hyps(2) ih(3) by (cases rule: adm_step.cases) (auto intro: inv_intros)
  then show ?case
    using adm_step_inactive [of "fst s1" "snd s1" "fst s2" "snd s2" b] step.hyps(2) ih
    by (auto simp: adm_inv_def)
qed simp

text \<open>A process that has prepared one admission, for the examples below.\<close>

definition sample_identity :: route_admission_identity where
  "sample_identity =
     \<lparr> rai_credential_id = ProviderCredential 1, rai_routing_generation = 7, rai_endpoint_id = 2,
       rai_endpoint_config_version = 3, rai_proxy_id = 0, rai_proxy_config_version = 5 \<rparr>"

definition sample_admissions :: "(nat \<Rightarrow> bool) \<times> admission_registry" where
  "sample_admissions =
     ((\<lambda>_. False)(0 := True),
      \<lparr> ar_heap = [route_admission_new sample_identity 1], ar_next_incarnation = 2,
        ar_by_identity = [(sample_identity, 0)] \<rparr>)"

lemma sample_prepared: "adm_step\<^sup>*\<^sup>* adm_start sample_admissions"
proof (rule r_into_rtranclp)
  have "prepare (\<lambda>_. False) sample_identity admission_registry_default =
      Some (snd sample_admissions, 0)"
    by (simp add: prepare_def admission_registry_default_def checked_add_u64_def u64_max_def
        sample_admissions_def)
  from adm_step.step_prepare [OF this] show "adm_step adm_start sample_admissions"
    by (simp add: adm_start_def sample_admissions_def)
qed

lemmas adm_eval =
  publish_current_def retain_admission_def revoke_def is_active_def route_admission_new_def Let_def

section \<open>Properties\<close>

text \<open>C15. A cutover is exact: in any reachable state, after a configuration is published the
  admissions somebody still holds are active exactly if they belong to the published configuration
  and were active before.\<close>

theorem cutover_exact:
  assumes "adm_step\<^sup>*\<^sup>* adm_start (alive, r)"
    and "\<forall>a\<in>set current. a < length (ar_heap r)"
    and "b < length (ar_heap r)" and "alive b"
  shows "is_active (publish_current alive current r) b \<longleftrightarrow> is_active r b \<and> b \<in> set current"
  using publish_active [OF adm_reachable_inv [OF assms(1)] assms(2-4)] .

theorem cutover_exact_witness:
  "adm_step\<^sup>*\<^sup>* adm_start sample_admissions \<and> is_active (snd sample_admissions) 0 \<and>
   \<not> is_active (publish_current (fst sample_admissions) [] (snd sample_admissions)) 0"
  using cutover_exact [of "fst sample_admissions" "snd sample_admissions" "[]" 0] sample_prepared
  by (simp add: sample_admissions_def is_active_def route_admission_new_def)

text \<open>C25. Revocation is final: once an admission is inactive no later sequence of preparations,
  cutovers and releases lets an attempt start under it, and preparing its identity again
  yields a different admission that is active.\<close>

theorem revoked_never_restarts:
  assumes "adm_step\<^sup>*\<^sup>* adm_start s" and "adm_step\<^sup>*\<^sup>* s (alive, r)"
    and "b < length (ar_heap (snd s))" and "\<not> is_active (snd s) b"
  shows "try_start r b = Inl AttemptStartRejected \<and>
         (\<forall>r' a. prepare alive (ra_identity (ar_heap r ! b)) r = Some (r', a) \<longrightarrow>
            a \<noteq> b \<and> try_start r' a = Inr a)"
proof -
  have "adm_inv (fst s) (snd s)" using adm_reachable_inv [of "fst s" "snd s"] assms(1) by simp
  then have inv: "\<not> is_active r b" "b < length (ar_heap r)" "adm_inv alive r"
    using adm_steps_inactive [OF assms(2)] assms(3,4) by auto
  show ?thesis
  proof (intro conjI allI impI)
    show "try_start r b = Inl AttemptStartRejected" using inv(1) by (simp add: try_start_def)
    fix r' a assume p: "prepare alive (ra_identity (ar_heap r ! b)) r = Some (r', a)"
    have act: "is_active r' a" using prepare_active(1) [OF p] inv(3) by (simp add: adm_inv_def)
    then show "try_start r' a = Inr a" by (simp add: try_start_def)
    show "a \<noteq> b" using act prepare_heap(1) [OF p inv(2)] inv(1) by (auto simp: is_active_def)
  qed
qed

theorem revoked_never_restarts_witness:
  "\<exists>s. adm_step\<^sup>*\<^sup>* adm_start s \<and> \<not> is_active (snd s) 0 \<and>
       try_start (snd s) 0 = Inl AttemptStartRejected"
proof -
  let ?s = "(fst sample_admissions, publish_current (fst sample_admissions) [] (snd sample_admissions))"
  have "adm_step sample_admissions ?s"
    using adm_step.step_publish [of "[]" "snd sample_admissions" "fst sample_admissions"] by simp
  then have reach: "adm_step\<^sup>*\<^sup>* adm_start ?s" using sample_prepared by simp
  have off: "\<not> is_active (snd ?s) 0" "0 < length (ar_heap (snd ?s))"
    by (simp_all add: sample_admissions_def adm_eval)
  have "try_start (snd ?s) 0 = Inl AttemptStartRejected"
    using revoked_never_restarts [of ?s "fst ?s" "snd ?s" 0] reach off by simp
  then show ?thesis using reach off by blast
qed

end
