(* ===== verification/Credential_Runtime.thy ===== *)
theory Credential_Runtime
  imports Credential_Rate Scheduler_Epoch Route_Admission
begin

text \<open>
  The runtime of one credential: \<open>crates/runtime/src/credential/runtime/\<close> (\<open>handle.rs\<close>,
  \<open>binding.rs\<close>, \<open>generation.rs\<close>, \<open>metrics.rs\<close>).

  A handle owns the request window, the number of requests in flight, the number of waiters that
  are pinned to the credential, and the current generation. A permit is a request in flight; it is
  started under a route admission, rolled back before it starts, or dropped when it ends. The
  handle is one object; its epoch is passed beside it. A \<open>None\<close> is a panic: a counter that would
  overflow or a release without a matching acquisition.
\<close>

section \<open>Generations\<close>

datatype credential_authentication = ProviderApiKey nat | OAuthTokenMaterial nat

text \<open>The health of a generation: the address of its authentication state and of its routing
  state. Two generations share the routing state when only the secret was replaced.\<close>

record credential_generation =
  cg_routing_generation :: nat
  cg_authentication_version :: nat
  cg_authentication :: credential_authentication
  cg_authentication_health :: nat
  cg_routing_health :: nat

record generation_definition =
  gd_routing_generation :: nat
  gd_authentication_version :: nat
  gd_authentication :: credential_authentication

definition generation_new :: "generation_definition \<Rightarrow> nat \<Rightarrow> nat \<Rightarrow> credential_generation" where
  "generation_new d authentication_health routing_health =
     \<lparr> cg_routing_generation = gd_routing_generation d,
       cg_authentication_version = gd_authentication_version d,
       cg_authentication = gd_authentication d,
       cg_authentication_health = authentication_health,
       cg_routing_health = routing_health \<rparr>"

definition with_reused_routing_health ::
  "generation_definition \<Rightarrow> credential_generation \<Rightarrow> nat \<Rightarrow> credential_generation" where
  "with_reused_routing_health d previous authentication_health =
     \<lparr> cg_routing_generation = gd_routing_generation d,
       cg_authentication_version = gd_authentication_version d,
       cg_authentication = gd_authentication d,
       cg_authentication_health = authentication_health,
       cg_routing_health = cg_routing_health previous \<rparr>"

definition generation_matches :: "credential_generation \<Rightarrow> generation_definition \<Rightarrow> bool" where
  "generation_matches g d \<longleftrightarrow>
     cg_routing_generation g = gd_routing_generation d \<and>
     cg_authentication_version g = gd_authentication_version d"

definition matches_routing_generation :: "credential_generation \<Rightarrow> generation_definition \<Rightarrow> bool" where
  "matches_routing_generation g d \<longleftrightarrow> cg_routing_generation g = gd_routing_generation d"

section \<open>Balancing counters\<close>

text \<open>The counters are incremented with wrap-around.\<close>

datatype credential_filter_kind =
    FK_RateLimit | FK_CredentialHealth | FK_EndpointHealth | FK_ProxyHealth
  | FK_EgressPathHealth | FK_CandidateHealth

record balancing_counters =
  bc_selected :: u64
  bc_filtered_rate_limit :: u64
  bc_filtered_credential_health :: u64
  bc_filtered_endpoint_health :: u64
  bc_filtered_proxy_health :: u64
  bc_filtered_egress_path_health :: u64
  bc_filtered_candidate_health :: u64

definition balancing_default :: balancing_counters where
  "balancing_default =
     \<lparr> bc_selected = 0, bc_filtered_rate_limit = 0, bc_filtered_credential_health = 0,
       bc_filtered_endpoint_health = 0, bc_filtered_proxy_health = 0,
       bc_filtered_egress_path_health = 0, bc_filtered_candidate_health = 0 \<rparr>"

definition metrics_record_selection :: "balancing_counters \<Rightarrow> balancing_counters" where
  "metrics_record_selection m = m\<lparr>bc_selected := bc_selected m + 1\<rparr>"

fun metrics_record_filter :: "credential_filter_kind \<Rightarrow> balancing_counters \<Rightarrow> balancing_counters" where
  "metrics_record_filter FK_RateLimit m = m\<lparr>bc_filtered_rate_limit := bc_filtered_rate_limit m + 1\<rparr>"
| "metrics_record_filter FK_CredentialHealth m =
     m\<lparr>bc_filtered_credential_health := bc_filtered_credential_health m + 1\<rparr>"
| "metrics_record_filter FK_EndpointHealth m =
     m\<lparr>bc_filtered_endpoint_health := bc_filtered_endpoint_health m + 1\<rparr>"
| "metrics_record_filter FK_ProxyHealth m =
     m\<lparr>bc_filtered_proxy_health := bc_filtered_proxy_health m + 1\<rparr>"
| "metrics_record_filter FK_EgressPathHealth m =
     m\<lparr>bc_filtered_egress_path_health := bc_filtered_egress_path_health m + 1\<rparr>"
| "metrics_record_filter FK_CandidateHealth m =
     m\<lparr>bc_filtered_candidate_health := bc_filtered_candidate_health m + 1\<rparr>"

section \<open>Handles, bindings and permits\<close>

record credential_handle =
  hd_id :: routing_credential_id
  hd_in_flight :: nat
  hd_rate_window :: rate_window
  hd_fixed_waiters :: nat
  hd_current_generation :: credential_generation
  hd_balancing :: balancing_counters
  hd_changes :: nat

record credential_binding =
  cb_generation :: credential_generation
  cb_requests_per_minute :: "nat option"
  cb_route_admission :: "nat option"

record routing_permit =
  rp_generation :: credential_generation
  rp_rate_reservation :: "rate_reservation option"
  rp_route_admission :: "nat option"
  rp_attempt_start :: "nat option"

definition handle_new ::
  "routing_credential_id \<Rightarrow> generation_definition \<Rightarrow> nat \<Rightarrow> nat \<Rightarrow> credential_handle" where
  "handle_new i d authentication_health routing_health =
     \<lparr> hd_id = i, hd_in_flight = 0, hd_rate_window = rate_window_new, hd_fixed_waiters = 0,
       hd_current_generation = generation_new d authentication_health routing_health,
       hd_balancing = balancing_default, hd_changes = 0 \<rparr>"

text \<open>The two addresses are those of the health objects that a new generation allocates.\<close>

definition handle_reconcile ::
  "credential_handle \<Rightarrow> nat option \<Rightarrow> generation_definition \<Rightarrow> nat \<Rightarrow> nat \<Rightarrow>
   credential_handle \<times> credential_binding" where
  "handle_reconcile h requests_per_minute d authentication_health routing_health =
     (let current = hd_current_generation h;
          generation =
            (if generation_matches current d then current
             else if matches_routing_generation current d
             then with_reused_routing_health d current authentication_health
             else generation_new d authentication_health routing_health)
      in (h\<lparr>hd_current_generation := generation\<rparr>,
          \<lparr> cb_generation = generation, cb_requests_per_minute = requests_per_minute,
            cb_route_admission = None \<rparr>))"

definition current_binding :: "credential_handle \<Rightarrow> nat option \<Rightarrow> credential_binding" where
  "current_binding h requests_per_minute =
     \<lparr> cb_generation = hd_current_generation h, cb_requests_per_minute = requests_per_minute,
       cb_route_admission = None \<rparr>"

definition with_route_admission :: "credential_binding \<Rightarrow> nat option \<Rightarrow> credential_binding" where
  "with_route_admission b admission = b\<lparr>cb_route_admission := admission\<rparr>"

definition checked_add_u32 :: "nat \<Rightarrow> nat \<Rightarrow> nat option" where
  "checked_add_u32 a b = (if a + b \<le> u32_max then Some (a + b) else None)"

definition checked_sub :: "nat \<Rightarrow> nat \<Rightarrow> nat option" where
  "checked_sub a b = (if b \<le> a then Some (a - b) else None)"

definition handle_try_reserve ::
  "credential_handle \<Rightarrow> credential_generation \<Rightarrow> nat option \<Rightarrow> bool \<Rightarrow> instant \<Rightarrow>
   (credential_handle \<times> (rate_limited + routing_permit)) option" where
  "handle_try_reserve h generation requests_per_minute fixed now =
     do { (w, result) \<leftarrow> try_reserve (hd_rate_window h) now requests_per_minute (hd_fixed_waiters h) fixed;
          let h = h\<lparr>hd_rate_window := w\<rparr>;
          case result of
            Inl limited \<Rightarrow> Some (h, Inl limited)
          | Inr reservation \<Rightarrow>
              do { n \<leftarrow> checked_add_u32 (hd_in_flight h) 1;
                   Some (h\<lparr>hd_in_flight := n\<rparr>,
                         Inr \<lparr> rp_generation = generation, rp_rate_reservation = reservation,
                               rp_route_admission = None, rp_attempt_start = None \<rparr>) } }"

definition handle_release_in_flight :: "credential_handle \<Rightarrow> credential_handle option" where
  "handle_release_in_flight h =
     do { n \<leftarrow> checked_sub (hd_in_flight h) 1; Some (h\<lparr>hd_in_flight := n\<rparr>) }"

definition notify_change :: "credential_handle \<Rightarrow> credential_handle option" where
  "notify_change h =
     do { n \<leftarrow> checked_add_u64 (hd_changes h) 1; Some (h\<lparr>hd_changes := n\<rparr>) }"

definition handle_rollback ::
  "scheduler_epoch \<Rightarrow> credential_handle \<Rightarrow> rate_reservation option \<Rightarrow>
   (scheduler_epoch \<times> credential_handle) option" where
  "handle_rollback e h reservation =
     (let (w, removed) =
            (case reservation of
               None \<Rightarrow> (hd_rate_window h, False)
             | Some r \<Rightarrow> rate_rollback (hd_rate_window h) r)
      in do { h \<leftarrow> handle_release_in_flight (h\<lparr>hd_rate_window := w\<rparr>);
              if removed
              then do { h \<leftarrow> notify_change h; (e, n) \<leftarrow> advance e; Some (e, h) }
              else Some (e, h) })"

definition register_fixed_waiter :: "credential_handle \<Rightarrow> credential_handle option" where
  "register_fixed_waiter h =
     do { n \<leftarrow> checked_add_u32 (hd_fixed_waiters h) 1; notify_change (h\<lparr>hd_fixed_waiters := n\<rparr>) }"

definition release_fixed_waiter ::
  "scheduler_epoch \<Rightarrow> credential_handle \<Rightarrow> (scheduler_epoch \<times> credential_handle) option" where
  "release_fixed_waiter e h =
     do { n \<leftarrow> checked_sub (hd_fixed_waiters h) 1;
          h \<leftarrow> notify_change (h\<lparr>hd_fixed_waiters := n\<rparr>);
          (e, k) \<leftarrow> advance e;
          Some (e, h) }"

section \<open>Permits\<close>

definition binding_try_reserve ::
  "credential_handle \<Rightarrow> credential_binding \<Rightarrow> bool \<Rightarrow> instant \<Rightarrow>
   (credential_handle \<times> (rate_limited + routing_permit)) option" where
  "binding_try_reserve h b fixed now =
     do { (h, result) \<leftarrow> handle_try_reserve h (cb_generation b) (cb_requests_per_minute b) fixed now;
          Some (h, case result of
                     Inl limited \<Rightarrow> Inl limited
                   | Inr permit \<Rightarrow> Inr (permit\<lparr>rp_route_admission := cb_route_admission b\<rparr>)) }"

definition permit_rollback ::
  "scheduler_epoch \<Rightarrow> credential_handle \<Rightarrow> routing_permit \<Rightarrow>
   (scheduler_epoch \<times> credential_handle) option" where
  "permit_rollback e h p = handle_rollback e h (rp_rate_reservation p)"

definition try_start_attempt ::
  "scheduler_epoch \<Rightarrow> credential_handle \<Rightarrow> admission_registry \<Rightarrow> routing_permit \<Rightarrow>
   (scheduler_epoch \<times> credential_handle \<times> (attempt_start_rejected + routing_permit)) option" where
  "try_start_attempt e h r p =
     (if rp_attempt_start p \<noteq> None then Some (e, h, Inr p)
      else case rp_route_admission p of
             None \<Rightarrow>
               do { (e, h) \<leftarrow> permit_rollback e h p; Some (e, h, Inl AttemptStartRejected) }
           | Some admission \<Rightarrow>
               (case try_start r admission of
                  Inr start \<Rightarrow> Some (e, h, Inr (p\<lparr>rp_attempt_start := Some start\<rparr>))
                | Inl err \<Rightarrow>
                    do { (e, h) \<leftarrow> permit_rollback e h p; Some (e, h, Inl err) }))"

text \<open>Dropping a permit that was not rolled back.\<close>

definition routing_permit_drop :: "credential_handle \<Rightarrow> credential_handle option" where
  "routing_permit_drop h = handle_release_in_flight h"

lemmas handle_ops = handle_try_reserve_def handle_release_in_flight_def notify_change_def handle_rollback_def
  register_fixed_waiter_def release_fixed_waiter_def checked_add_u32_def checked_sub_def
  bind_eq_Some_conv

section \<open>Runs of a handle\<close>

text \<open>The permits somebody holds, and the number of registered pinned waiters.\<close>

record handle_run =
  hr_epoch :: scheduler_epoch
  hr_handle :: credential_handle
  hr_permits :: "routing_permit list"
  hr_waiters :: nat

inductive handle_step :: "handle_run \<Rightarrow> handle_run \<Rightarrow> bool" where
  hs_reserve: "binding_try_reserve (hr_handle s) b fixed now = Some (h, Inr p) \<Longrightarrow>
     handle_step s (s\<lparr>hr_handle := h, hr_permits := hr_permits s @ [p]\<rparr>)"
| hs_limited: "binding_try_reserve (hr_handle s) b fixed now = Some (h, Inl l) \<Longrightarrow>
     handle_step s (s\<lparr>hr_handle := h\<rparr>)"
| hs_started: "i < length (hr_permits s) \<Longrightarrow>
     try_start_attempt (hr_epoch s) (hr_handle s) r (hr_permits s ! i) = Some (e, h, Inr p) \<Longrightarrow>
     handle_step s (s\<lparr>hr_epoch := e, hr_handle := h, hr_permits := (hr_permits s)[i := p]\<rparr>)"
| hs_rejected: "i < length (hr_permits s) \<Longrightarrow>
     try_start_attempt (hr_epoch s) (hr_handle s) r (hr_permits s ! i) = Some (e, h, Inl x) \<Longrightarrow>
     handle_step s (s\<lparr>hr_epoch := e, hr_handle := h,
                      hr_permits := take i (hr_permits s) @ drop (Suc i) (hr_permits s)\<rparr>)"
| hs_rolled_back: "i < length (hr_permits s) \<Longrightarrow>
     permit_rollback (hr_epoch s) (hr_handle s) (hr_permits s ! i) = Some (e, h) \<Longrightarrow>
     handle_step s (s\<lparr>hr_epoch := e, hr_handle := h,
                      hr_permits := take i (hr_permits s) @ drop (Suc i) (hr_permits s)\<rparr>)"
| hs_dropped: "i < length (hr_permits s) \<Longrightarrow>
     routing_permit_drop (hr_handle s) = Some h \<Longrightarrow>
     handle_step s (s\<lparr>hr_handle := h,
                      hr_permits := take i (hr_permits s) @ drop (Suc i) (hr_permits s)\<rparr>)"
| hs_reconciled: "handle_reconcile (hr_handle s) rpm d a r = (h, b) \<Longrightarrow>
     handle_step s (s\<lparr>hr_handle := h\<rparr>)"
| hs_waiter: "register_fixed_waiter (hr_handle s) = Some h \<Longrightarrow>
     handle_step s (s\<lparr>hr_handle := h, hr_waiters := Suc (hr_waiters s)\<rparr>)"
| hs_waiter_gone: "0 < hr_waiters s \<Longrightarrow>
     release_fixed_waiter (hr_epoch s) (hr_handle s) = Some (e, h) \<Longrightarrow>
     handle_step s (s\<lparr>hr_epoch := e, hr_handle := h, hr_waiters := hr_waiters s - 1\<rparr>)"

definition handle_run_start ::
  "scheduler_epoch \<Rightarrow> routing_credential_id \<Rightarrow> generation_definition \<Rightarrow> nat \<Rightarrow> nat \<Rightarrow> handle_run" where
  "handle_run_start e i d a r =
     \<lparr> hr_epoch = e, hr_handle = handle_new i d a r, hr_permits = [], hr_waiters = 0 \<rparr>"

definition run_counts :: "handle_run \<Rightarrow> bool" where
  "run_counts s \<longleftrightarrow>
     hd_in_flight (hr_handle s) = length (hr_permits s) \<and>
     hd_fixed_waiters (hr_handle s) = hr_waiters s \<and>
     length (hr_permits s) \<le> u32_max \<and> hr_waiters s \<le> u32_max"

lemma binding_try_reserve_eq:
  "binding_try_reserve h b fixed now =
     (case try_reserve (hd_rate_window h) now (cb_requests_per_minute b) (hd_fixed_waiters h) fixed of
        None \<Rightarrow> None
      | Some (w, Inl limited) \<Rightarrow> Some (h\<lparr>hd_rate_window := w\<rparr>, Inl limited)
      | Some (w, Inr reservation) \<Rightarrow>
          (if Suc (hd_in_flight h) \<le> u32_max
           then Some (h\<lparr>hd_rate_window := w, hd_in_flight := Suc (hd_in_flight h)\<rparr>,
                      Inr \<lparr> rp_generation = cb_generation b, rp_rate_reservation = reservation,
                            rp_route_admission = cb_route_admission b, rp_attempt_start = None \<rparr>)
           else None))"
  by (simp add: binding_try_reserve_def handle_try_reserve_def checked_add_u32_def
      split: option.split sum.split)

lemma reserve_counts:
  assumes "binding_try_reserve h b fixed now = Some (h', result)"
  shows "hd_fixed_waiters h' = hd_fixed_waiters h \<and>
         (case result of
            Inl _ \<Rightarrow> hd_in_flight h' = hd_in_flight h
          | Inr _ \<Rightarrow> hd_in_flight h' = Suc (hd_in_flight h) \<and> hd_in_flight h' \<le> u32_max)"
  using assms unfolding binding_try_reserve_eq
  by (auto split: option.split_asm prod.split_asm sum.split_asm if_split_asm)

lemma rollback_counts:
  assumes "permit_rollback e h p = Some (e', h')"
  shows "hd_fixed_waiters h' = hd_fixed_waiters h \<and> 0 < hd_in_flight h \<and>
         hd_in_flight h' = hd_in_flight h - 1"
  using assms
  by (auto simp: permit_rollback_def handle_ops Let_def split: option.split_asm prod.split_asm if_split_asm)

lemma start_counts:
  assumes "try_start_attempt e h r p = Some (e', h', result)"
  shows "hd_fixed_waiters h' = hd_fixed_waiters h \<and>
         (case result of
            Inr _ \<Rightarrow> hd_in_flight h' = hd_in_flight h
          | Inl _ \<Rightarrow> 0 < hd_in_flight h \<and> hd_in_flight h' = hd_in_flight h - 1)"
  using assms
  by (auto simp: try_start_attempt_def bind_eq_Some_conv dest!: rollback_counts
      split: if_split_asm option.split_asm sum.split_asm)

lemma handle_step_counts:
  assumes "handle_step s s'" "run_counts s"
  shows "run_counts s'"
  using assms
proof (induction rule: handle_step.induct)
  case (hs_reserve s b fixed now h p)
  then show ?case using reserve_counts [OF hs_reserve.hyps] by (simp add: run_counts_def)
next
  case (hs_limited s b fixed now h l)
  then show ?case using reserve_counts [OF hs_limited.hyps] by (simp add: run_counts_def)
next
  case (hs_started i s r e h p)
  then show ?case using start_counts [OF hs_started.hyps(2)] by (simp add: run_counts_def)
next
  case (hs_rejected i s r e h x)
  then show ?case using start_counts [OF hs_rejected.hyps(2)] by (auto simp: run_counts_def)
next
  case (hs_rolled_back i s e h)
  then show ?case using rollback_counts [OF hs_rolled_back.hyps(2)] by (auto simp: run_counts_def)
qed (auto simp: run_counts_def routing_permit_drop_def handle_reconcile_def Let_def handle_ops
      split: if_split_asm)

lemma handle_run_start_counts: "run_counts (handle_run_start e i d a r)"
  by (simp add: run_counts_def handle_run_start_def handle_new_def)

lemma handle_reachable_counts:
  "handle_step\<^sup>*\<^sup>* (handle_run_start e i d a r) s \<Longrightarrow> run_counts s"
  by (induction rule: rtranclp_induct) (auto intro: handle_step_counts handle_run_start_counts)

lemma rollback_total:
  assumes "0 < hd_in_flight h" "hd_changes h < u64_max" "ep_current e < u64_max"
  shows "\<exists>e' h'. permit_rollback e h p = Some (e', h')"
  using assms
  by (auto simp: permit_rollback_def handle_rollback_def handle_release_in_flight_def notify_change_def
      checked_sub_def checked_add_u64_def Let_def advance_Some_iff bind_eq_Some_conv split: prod.split)

lemma release_waiter_total:
  assumes "0 < hd_fixed_waiters h" "hd_changes h < u64_max" "ep_current e < u64_max"
  shows "\<exists>e' h'. release_fixed_waiter e h = Some (e', h')"
  using assms
  by (auto simp: release_fixed_waiter_def notify_change_def checked_sub_def checked_add_u64_def
      advance_Some_iff bind_eq_Some_conv)

lemma rollback_window:
  assumes "permit_rollback e h p = Some (e', h')"
  shows "hd_rate_window h' =
           (case rp_rate_reservation p of
              None \<Rightarrow> hd_rate_window h
            | Some r \<Rightarrow> fst (rate_rollback (hd_rate_window h) r))"
  using assms
  by (auto simp: permit_rollback_def handle_ops Let_def split: option.split_asm prod.split_asm if_split_asm)

text \<open>Rolling back the reservation that was just made leaves the pruned window.\<close>

lemma try_reserve_rollback:
  assumes "rw_inv w" "try_reserve w now limit waiters fixed = Some (w', Inr reservation)"
  shows "rw_attempts (case reservation of
                        None \<Rightarrow> w' | Some r \<Rightarrow> fst (rate_rollback w' r)) =
         rw_attempts (rate_prune now w)"
proof -
  have new: "rw_next_reservation_id (rate_prune now w) \<notin> res_id ` set (rw_attempts (rate_prune now w))"
    using rate_prune_inv [OF assms(1), of now] by (auto simp: rw_inv_def)
  then have "filter (\<lambda>r. res_id r \<noteq> rw_next_reservation_id (rate_prune now w)) (rw_attempts (rate_prune now w)) =
      rw_attempts (rate_prune now w)"
    by (auto simp: filter_id_conv image_iff)
  moreover have "remove_position (\<lambda>r. res_id r = i) (xs @ [\<lparr>res_id = i, res_started_at = t\<rparr>]) = xs"
    if "i \<notin> res_id ` set xs" for i t and xs :: "rate_reservation list"
    using that by (induction xs) auto
  ultimately show ?thesis
    using assms(2) new
    by (auto simp: try_reserve_def rate_rollback_def Let_def split: option.split_asm if_split_asm)
qed

text \<open>A credential with a limit of one request per minute, for the examples below.\<close>

definition sample_definition :: generation_definition where
  "sample_definition =
     \<lparr> gd_routing_generation = 1, gd_authentication_version = 1, gd_authentication = ProviderApiKey 9 \<rparr>"

definition sample_handle :: credential_handle where
  "sample_handle = handle_new (ProviderCredential 1) sample_definition 0 1"

definition sample_binding :: credential_binding where
  "sample_binding = with_route_admission (current_binding sample_handle (Some 1)) (Some 0)"

definition sample_reserved :: credential_handle where
  "sample_reserved =
     sample_handle\<lparr>hd_rate_window := \<lparr> rw_attempts = [\<lparr> res_id = 0, res_started_at = 5 \<rparr>],
                                       rw_next_reservation_id = 1 \<rparr>,
                   hd_in_flight := 1\<rparr>"

definition sample_permit :: routing_permit where
  "sample_permit =
     \<lparr> rp_generation = cb_generation sample_binding,
       rp_rate_reservation = Some \<lparr> res_id = 0, res_started_at = 5 \<rparr>,
       rp_route_admission = Some 0, rp_attempt_start = None \<rparr>"

lemmas sample_credential_defs =
  sample_handle_def sample_binding_def sample_reserved_def sample_permit_def sample_definition_def
  with_route_admission_def current_binding_def handle_new_def rate_window_new_def

lemma sample_reserve: "binding_try_reserve sample_handle sample_binding False 5 =
    Some (sample_reserved, Inr sample_permit)"
  by (simp add: binding_try_reserve_eq sample_credential_defs try_reserve_def rate_prune_def Let_def
      checked_add_u64_def u32_max_def u64_max_def)

section \<open>Properties\<close>



text \<open>An attempt that may not start leaves no trace: when the route of a fresh reservation has
  been revoked, starting the attempt is rejected and gives the slot in the request window and the
  place in flight back, so the credential is as it was before the reservation.\<close>

lemma rejected_start_undone:
  assumes "rw_inv (hd_rate_window h)"
    and "binding_try_reserve h b fixed now = Some (h1, Inr p)"
    and "\<forall>a. cb_route_admission b = Some a \<longrightarrow> \<not> is_active r a"
    and "hd_changes h < u64_max" and "ep_current e < u64_max"
  shows "\<exists>e' h2. try_start_attempt e h1 r p = Some (e', h2, Inl AttemptStartRejected) \<and>
           rw_attempts (hd_rate_window h2) = rw_attempts (rate_prune now (hd_rate_window h)) \<and>
           hd_in_flight h2 = hd_in_flight h \<and> hd_fixed_waiters h2 = hd_fixed_waiters h"
proof -
  obtain w reservation where res:
      "try_reserve (hd_rate_window h) now (cb_requests_per_minute b) (hd_fixed_waiters h) fixed =
         Some (w, Inr reservation)"
      "h1 = h\<lparr>hd_rate_window := w, hd_in_flight := Suc (hd_in_flight h)\<rparr>"
      "rp_rate_reservation p = reservation" "rp_attempt_start p = None"
      "rp_route_admission p = cb_route_admission b"
    using assms(2) unfolding binding_try_reserve_eq
    by (auto split: option.split_asm prod.split_asm sum.split_asm if_split_asm)
  obtain e' h2 where roll: "permit_rollback e h1 p = Some (e', h2)"
    using rollback_total [of h1 e p] assms(4,5) res(2) by auto
  have "try_start_attempt e h1 r p = Some (e', h2, Inl AttemptStartRejected)"
    using assms(3) by (auto simp: try_start_attempt_def res(3-5) roll try_start_def split: option.split)
  moreover have "rw_attempts (hd_rate_window h2) = rw_attempts (rate_prune now (hd_rate_window h))"
    using try_reserve_rollback [OF assms(1) res(1)] rollback_window [OF roll]
    by (cases reservation) (simp_all add: res(2,3))
  ultimately show ?thesis using rollback_counts [OF roll] by (simp add: res(2))
qed

text \<open>Replacing the secret of a credential keeps what is known about its routing health and
  forgets its authentication health; a new routing generation forgets both; and an unchanged
  definition keeps the generation itself.\<close>

lemma reconcile_keeps_health:
  assumes "handle_reconcile h rpm d fresh_auth fresh_routing = (h', b)"
  shows "generation_matches (cb_generation b) d \<and> hd_current_generation h' = cb_generation b \<and>
         (generation_matches (hd_current_generation h) d \<longrightarrow>
            cb_generation b = hd_current_generation h) \<and>
         (\<not> generation_matches (hd_current_generation h) d \<longrightarrow>
            cg_authentication_health (cb_generation b) = fresh_auth \<and>
            cg_routing_health (cb_generation b) =
              (if matches_routing_generation (hd_current_generation h) d
               then cg_routing_health (hd_current_generation h) else fresh_routing))"
  using assms
  by (auto simp: handle_reconcile_def Let_def generation_matches_def matches_routing_generation_def
      with_reused_routing_health_def generation_new_def)

end
