(* ===== verification/Candidate_State.thy ===== *)
theory Candidate_State
  imports Credential_Runtime
begin

text \<open>
  What one request remembers about the candidates it tried:
  \<open>crates/runtime/src/routing/candidates/identity.rs\<close> and the identities of
  \<open>crates/runtime/src/routing/candidates/route.rs\<close>.

  A failure has a scope: it excludes, or defers for some time, every candidate that agrees with
  the failed one in what the scope names. Sets and maps of the code are sets and maps here.
\<close>

section \<open>Candidates\<close>

text \<open>The shared health and admission objects of a candidate are addresses.\<close>

record route_candidate =
  rc_target_id :: target_id
  rc_operation :: protocol_operation
  rc_endpoint_id :: endpoint_id
  rc_endpoint_config_version :: nat
  rc_credential_id :: routing_credential_id
  rc_routing_generation :: nat
  rc_provider_kind :: provider_kind
  rc_base_url :: string
  rc_upstream_model :: string
  rc_upstream_protocol_dialect :: protocol_dialect
  rc_proxy_id :: proxy_id
  rc_proxy_config_version :: nat
  rc_endpoint_health :: "nat option"
  rc_proxy_health :: "nat option"
  rc_egress_path_health :: nat
  rc_candidate_path_health :: nat
  rc_binding :: credential_binding
  rc_route_admission :: nat

record egress_path_ident =
  epi_endpoint_id :: endpoint_id
  epi_endpoint_config_version :: nat
  epi_proxy_id :: proxy_id
  epi_proxy_config_version :: nat

record credential_generation_ident =
  cgi_credential_id :: routing_credential_id
  cgi_routing_generation :: nat

record candidate_ident =
  ci_target_id :: target_id
  ci_operation :: protocol_operation
  ci_credential_id :: routing_credential_id
  ci_routing_generation :: nat
  ci_endpoint_id :: endpoint_id
  ci_endpoint_config_version :: nat
  ci_proxy_id :: proxy_id
  ci_proxy_config_version :: nat

definition identity :: "route_candidate \<Rightarrow> candidate_ident" where
  "identity c =
     \<lparr> ci_target_id = rc_target_id c, ci_operation = rc_operation c,
       ci_credential_id = rc_credential_id c, ci_routing_generation = rc_routing_generation c,
       ci_endpoint_id = rc_endpoint_id c,
       ci_endpoint_config_version = rc_endpoint_config_version c,
       ci_proxy_id = rc_proxy_id c, ci_proxy_config_version = rc_proxy_config_version c \<rparr>"

definition egress_path_identity :: "route_candidate \<Rightarrow> egress_path_ident" where
  "egress_path_identity c =
     \<lparr> epi_endpoint_id = rc_endpoint_id c,
       epi_endpoint_config_version = rc_endpoint_config_version c,
       epi_proxy_id = rc_proxy_id c, epi_proxy_config_version = rc_proxy_config_version c \<rparr>"

definition credential_generation_identity :: "route_candidate \<Rightarrow> credential_generation_ident" where
  "credential_generation_identity c =
     \<lparr> cgi_credential_id = rc_credential_id c, cgi_routing_generation = rc_routing_generation c \<rparr>"

definition route_operation_identity :: "route_candidate \<Rightarrow> target_id \<times> protocol_operation" where
  "route_operation_identity c = (rc_target_id c, rc_operation c)"

datatype candidate_failure_scope =
    CS_ExactCandidate | CS_Credential | CS_CredentialModel | CS_RouteOperation
  | CS_EgressPath | CS_Proxy | CS_Endpoint

section \<open>Selection state\<close>

record selection_state =
  ss_candidates :: "candidate_ident set"
  ss_credentials :: "routing_credential_id set"
  ss_credential_models :: "credential_generation_ident \<rightharpoonup> string set"
  ss_route_operations :: "(target_id \<times> protocol_operation) set"
  ss_endpoints :: "endpoint_id set"
  ss_proxies :: "proxy_id set"
  ss_egress_paths :: "egress_path_ident set"
  ss_attempted_candidates :: "candidate_ident set"
  ss_attempted_credentials :: "credential_generation_ident set"
  ss_attempted_egress_paths :: "egress_path_ident set"
  ss_candidate_not_before :: "candidate_ident \<rightharpoonup> instant"
  ss_credential_not_before :: "credential_generation_ident \<rightharpoonup> instant"
  ss_credential_model_not_before :: "credential_generation_ident \<rightharpoonup> (string \<rightharpoonup> instant)"
  ss_route_operation_not_before :: "target_id \<times> protocol_operation \<rightharpoonup> instant"
  ss_egress_path_not_before :: "egress_path_ident \<rightharpoonup> instant"
  ss_proxy_not_before :: "proxy_id \<rightharpoonup> instant"
  ss_endpoint_not_before :: "endpoint_id \<rightharpoonup> instant"

definition selection_state_default :: selection_state where
  "selection_state_default =
     \<lparr> ss_candidates = {}, ss_credentials = {}, ss_credential_models = Map.empty,
       ss_route_operations = {}, ss_endpoints = {}, ss_proxies = {}, ss_egress_paths = {},
       ss_attempted_candidates = {}, ss_attempted_credentials = {}, ss_attempted_egress_paths = {},
       ss_candidate_not_before = Map.empty, ss_credential_not_before = Map.empty,
       ss_credential_model_not_before = Map.empty, ss_route_operation_not_before = Map.empty,
       ss_egress_path_not_before = Map.empty, ss_proxy_not_before = Map.empty,
       ss_endpoint_not_before = Map.empty \<rparr>"

definition RETRY_PREFERENCE_LEVELS :: nat where
  "RETRY_PREFERENCE_LEVELS = 5"

definition credential_model_excluded :: "selection_state \<Rightarrow> route_candidate \<Rightarrow> bool" where
  "credential_model_excluded s c =
     (case ss_credential_models s (credential_generation_identity c) of
        None \<Rightarrow> False
      | Some models \<Rightarrow> rc_upstream_model c \<in> models)"

definition allows :: "selection_state \<Rightarrow> route_candidate \<Rightarrow> bool" where
  "allows s c \<longleftrightarrow>
     identity c \<notin> ss_candidates s \<and>
     rc_credential_id c \<notin> ss_credentials s \<and>
     \<not> credential_model_excluded s c \<and>
     route_operation_identity c \<notin> ss_route_operations s \<and>
     rc_endpoint_id c \<notin> ss_endpoints s \<and>
     rc_proxy_id c \<notin> ss_proxies s \<and>
     egress_path_identity c \<notin> ss_egress_paths s"

definition retry_preference :: "selection_state \<Rightarrow> route_candidate \<Rightarrow> nat" where
  "retry_preference s c =
     (if identity c \<in> ss_attempted_candidates s then 4
      else (case (credential_generation_identity c \<notin> ss_attempted_credentials s,
                  egress_path_identity c \<notin> ss_attempted_egress_paths s) of
              (True, True) \<Rightarrow> 0
            | (True, False) \<Rightarrow> 1
            | (False, True) \<Rightarrow> 2
            | (False, False) \<Rightarrow> 3))"

definition note_failed :: "route_candidate \<Rightarrow> selection_state \<Rightarrow> selection_state" where
  "note_failed c s =
     s\<lparr>ss_attempted_candidates := insert (identity c) (ss_attempted_candidates s),
       ss_attempted_credentials :=
         insert (credential_generation_identity c) (ss_attempted_credentials s),
       ss_attempted_egress_paths := insert (egress_path_identity c) (ss_attempted_egress_paths s)\<rparr>"

definition or_default :: "'v \<Rightarrow> 'v option \<Rightarrow> 'v" where
  "or_default d x = (case x of None \<Rightarrow> d | Some v \<Rightarrow> v)"

fun exclude :: "route_candidate \<Rightarrow> candidate_failure_scope \<Rightarrow> selection_state \<Rightarrow> selection_state" where
  "exclude c CS_ExactCandidate s = s\<lparr>ss_candidates := insert (identity c) (ss_candidates s)\<rparr>"
| "exclude c CS_Credential s = s\<lparr>ss_credentials := insert (rc_credential_id c) (ss_credentials s)\<rparr>"
| "exclude c CS_CredentialModel s =
     (let k = credential_generation_identity c
      in s\<lparr>ss_credential_models := (ss_credential_models s)
             (k \<mapsto> insert (rc_upstream_model c) (or_default {} (ss_credential_models s k)))\<rparr>)"
| "exclude c CS_RouteOperation s =
     s\<lparr>ss_route_operations := insert (route_operation_identity c) (ss_route_operations s)\<rparr>"
| "exclude c CS_EgressPath s =
     s\<lparr>ss_egress_paths := insert (egress_path_identity c) (ss_egress_paths s)\<rparr>"
| "exclude c CS_Proxy s = s\<lparr>ss_proxies := insert (rc_proxy_id c) (ss_proxies s)\<rparr>"
| "exclude c CS_Endpoint s = s\<lparr>ss_endpoints := insert (rc_endpoint_id c) (ss_endpoints s)\<rparr>"

definition extend_deadline :: "('k \<rightharpoonup> instant) \<Rightarrow> 'k \<Rightarrow> instant \<Rightarrow> ('k \<rightharpoonup> instant)" where
  "extend_deadline deadlines key not_before =
     (case deadlines key of
        Some current \<Rightarrow> deadlines(key \<mapsto> max current not_before)
      | None \<Rightarrow> deadlines(key \<mapsto> not_before))"

fun defer_candidate ::
  "route_candidate \<Rightarrow> candidate_failure_scope \<Rightarrow> instant \<Rightarrow> selection_state \<Rightarrow> selection_state" where
  "defer_candidate c CS_ExactCandidate t s =
     s\<lparr>ss_candidate_not_before := extend_deadline (ss_candidate_not_before s) (identity c) t\<rparr>"
| "defer_candidate c CS_Credential t s =
     s\<lparr>ss_credential_not_before :=
         extend_deadline (ss_credential_not_before s) (credential_generation_identity c) t\<rparr>"
| "defer_candidate c CS_CredentialModel t s =
     (let k = credential_generation_identity c
      in s\<lparr>ss_credential_model_not_before := (ss_credential_model_not_before s)
             (k \<mapsto> extend_deadline (or_default Map.empty (ss_credential_model_not_before s k))
                       (rc_upstream_model c) t)\<rparr>)"
| "defer_candidate c CS_RouteOperation t s =
     s\<lparr>ss_route_operation_not_before :=
         extend_deadline (ss_route_operation_not_before s) (route_operation_identity c) t\<rparr>"
| "defer_candidate c CS_EgressPath t s =
     s\<lparr>ss_egress_path_not_before :=
         extend_deadline (ss_egress_path_not_before s) (egress_path_identity c) t\<rparr>"
| "defer_candidate c CS_Proxy t s =
     s\<lparr>ss_proxy_not_before := extend_deadline (ss_proxy_not_before s) (rc_proxy_id c) t\<rparr>"
| "defer_candidate c CS_Endpoint t s =
     s\<lparr>ss_endpoint_not_before := extend_deadline (ss_endpoint_not_before s) (rc_endpoint_id c) t\<rparr>"

text \<open>\<open>flatten\<close> and \<open>max\<close> of an iterator of optional instants.\<close>

fun max_instant :: "instant option list \<Rightarrow> instant option" where
  "max_instant [] = None"
| "max_instant (None # ts) = max_instant ts"
| "max_instant (Some t # ts) =
     (case max_instant ts of None \<Rightarrow> Some t | Some u \<Rightarrow> Some (max t u))"

definition deferred_until :: "selection_state \<Rightarrow> route_candidate \<Rightarrow> instant option" where
  "deferred_until s c =
     max_instant
       [ss_candidate_not_before s (identity c),
        ss_credential_not_before s (credential_generation_identity c),
        (case ss_credential_model_not_before s (credential_generation_identity c) of
           None \<Rightarrow> None
         | Some models \<Rightarrow> models (rc_upstream_model c)),
        ss_route_operation_not_before s (route_operation_identity c),
        ss_egress_path_not_before s (egress_path_identity c),
        ss_proxy_not_before s (rc_proxy_id c),
        ss_endpoint_not_before s (rc_endpoint_id c)]"

section \<open>Scopes\<close>

text \<open>
  What a failure scope covers, stated on the candidates themselves. An exclusion of a credential
  outlives its generation, a deferral does not, so the two differ in the credential scope.
\<close>

definition same_path :: "route_candidate \<Rightarrow> route_candidate \<Rightarrow> bool" where
  "same_path c d \<longleftrightarrow>
     rc_endpoint_id c = rc_endpoint_id d \<and>
     rc_endpoint_config_version c = rc_endpoint_config_version d \<and>
     rc_proxy_id c = rc_proxy_id d \<and> rc_proxy_config_version c = rc_proxy_config_version d"

definition same_generation :: "route_candidate \<Rightarrow> route_candidate \<Rightarrow> bool" where
  "same_generation c d \<longleftrightarrow>
     rc_credential_id c = rc_credential_id d \<and> rc_routing_generation c = rc_routing_generation d"

fun covers :: "candidate_failure_scope \<Rightarrow> route_candidate \<Rightarrow> route_candidate \<Rightarrow> bool" where
  "covers CS_ExactCandidate c d \<longleftrightarrow>
     same_path c d \<and> same_generation c d \<and>
     rc_target_id c = rc_target_id d \<and> rc_operation c = rc_operation d"
| "covers CS_Credential c d \<longleftrightarrow> same_generation c d"
| "covers CS_CredentialModel c d \<longleftrightarrow>
     same_generation c d \<and> rc_upstream_model c = rc_upstream_model d"
| "covers CS_RouteOperation c d \<longleftrightarrow>
     rc_target_id c = rc_target_id d \<and> rc_operation c = rc_operation d"
| "covers CS_EgressPath c d \<longleftrightarrow> same_path c d"
| "covers CS_Proxy c d \<longleftrightarrow> rc_proxy_id c = rc_proxy_id d"
| "covers CS_Endpoint c d \<longleftrightarrow> rc_endpoint_id c = rc_endpoint_id d"

definition excludes :: "candidate_failure_scope \<Rightarrow> route_candidate \<Rightarrow> route_candidate \<Rightarrow> bool" where
  "excludes scope c d \<longleftrightarrow>
     (if scope = CS_Credential then rc_credential_id c = rc_credential_id d else covers scope c d)"

lemma identity_eq_iff:
  "identity c = identity d \<longleftrightarrow> covers CS_ExactCandidate c d"
  "egress_path_identity c = egress_path_identity d \<longleftrightarrow> same_path c d"
  "credential_generation_identity c = credential_generation_identity d \<longleftrightarrow> same_generation c d"
  "route_operation_identity c = route_operation_identity d \<longleftrightarrow> covers CS_RouteOperation c d"
  by (auto simp: identity_def egress_path_identity_def credential_generation_identity_def
      route_operation_identity_def same_path_def same_generation_def)

lemma or_default_simps [simp]: "or_default d None = d" "or_default d (Some v) = v"
  by (simp_all add: or_default_def)

text \<open>The later of two optional deadlines.\<close>

definition later :: "instant option \<Rightarrow> instant option \<Rightarrow> instant option" where
  "later a b =
     (case a of None \<Rightarrow> b | Some t \<Rightarrow> (case b of None \<Rightarrow> Some t | Some u \<Rightarrow> Some (max t u)))"

lemma later_None [simp]: "later None b = b" "later a None = a"
  by (simp_all add: later_def split: option.split)

lemma later_ac:
  "later (later a b) c = later a (later b c)" "later a b = later b a"
  "later a (later b c) = later b (later a c)"
  by (auto simp: later_def max.assoc max.commute max.left_commute split: option.split)

lemma max_instant_Cons: "max_instant (t # ts) = later t (max_instant ts)"
  by (cases t) (simp_all add: later_def)

lemma extend_deadline_apply:
  "extend_deadline m k t k' = (if k' = k then later (m k') (Some t) else m k')"
  by (simp add: extend_deadline_def later_def split: option.split)

section \<open>What excluding and deferring do\<close>

lemma same_sym: "same_path d c = same_path c d" "same_generation d c = same_generation c d"
  by (auto simp: same_path_def same_generation_def)

lemma same_generation_key:
  "same_generation c d \<Longrightarrow> credential_generation_identity d = credential_generation_identity c"
  by (simp add: identity_eq_iff same_sym)

lemma credential_model_excluded_iff:
  "credential_model_excluded s d \<longleftrightarrow>
     rc_upstream_model d \<in> or_default {} (ss_credential_models s (credential_generation_identity d))"
  by (simp add: credential_model_excluded_def or_default_def split: option.split)

lemma allows_exclude:
  "allows (exclude c scope s) d \<longleftrightarrow> allows s d \<and> \<not> excludes scope c d"
  by (cases scope)
    (auto simp: allows_def credential_model_excluded_iff excludes_def Let_def
      identity_eq_iff [of d c] same_sym same_generation_key [of c d])

lemma deferred_until_unfold:
  "deferred_until s d =
     later (ss_candidate_not_before s (identity d))
     (later (ss_credential_not_before s (credential_generation_identity d))
     (later (or_default Map.empty
               (ss_credential_model_not_before s (credential_generation_identity d))
               (rc_upstream_model d))
     (later (ss_route_operation_not_before s (route_operation_identity d))
     (later (ss_egress_path_not_before s (egress_path_identity d))
     (later (ss_proxy_not_before s (rc_proxy_id d))
            (ss_endpoint_not_before s (rc_endpoint_id d)))))))"
  by (simp add: deferred_until_def max_instant_Cons or_default_def split: option.split)

lemma deferred_until_defer:
  "deferred_until (defer_candidate c scope t s) d =
     (if covers scope c d then later (deferred_until s d) (Some t) else deferred_until s d)"
  by (cases scope)
    (auto simp: deferred_until_unfold extend_deadline_apply identity_eq_iff [of d c] same_sym
      same_generation_key [of c d] later_ac Let_def)

lemma note_failed_keeps [simp]:
  "allows (note_failed c s) d = allows s d"
  "deferred_until (note_failed c s) d = deferred_until s d"
  by (simp_all add: note_failed_def allows_def credential_model_excluded_def deferred_until_def)

lemma selection_state_default_simps [simp]:
  "allows selection_state_default d" "deferred_until selection_state_default d = None"
  "retry_preference selection_state_default d = 0"
  by (simp_all add: selection_state_default_def allows_def credential_model_excluded_def
      deferred_until_def retry_preference_def)

section \<open>Properties\<close>

text \<open>C38. Excluding a failed candidate with a scope forbids exactly the candidates that agree with it
  in what the scope names, in addition to those forbidden before, and changes no deferral;
  deferring moves the deadline of exactly the candidates the scope covers to the later of the old
  and the new one, and forbids nothing.\<close>

theorem failure_scope_exact:
  "(allows (exclude c scope s) d \<longleftrightarrow> allows s d \<and> \<not> excludes scope c d) \<and>
   deferred_until (exclude c scope s) d = deferred_until s d \<and>
   (allows (defer_candidate c scope t s) d \<longleftrightarrow> allows s d) \<and>
   deferred_until (defer_candidate c scope t s) d =
     (if covers scope c d then later (deferred_until s d) (Some t) else deferred_until s d)"
proof (intro conjI)
  show "deferred_until (exclude c scope s) d = deferred_until s d"
    by (cases scope) (simp_all add: deferred_until_def Let_def)
  show "allows (defer_candidate c scope t s) d \<longleftrightarrow> allows s d"
    by (cases scope) (simp_all add: allows_def credential_model_excluded_def Let_def)
qed (rule allows_exclude, rule deferred_until_defer)

text \<open>The preference for a retry orders the candidates by how much of a failed attempt they
  reuse: the failed candidate itself comes last, one with a new credential and a new egress path
  comes first, and noting a failure never makes a candidate more attractive.\<close>

lemma retry_preference_order:
  "retry_preference s d < RETRY_PREFERENCE_LEVELS \<and>
   retry_preference (note_failed c s) c = RETRY_PREFERENCE_LEVELS - 1 \<and>
   retry_preference s d \<le> retry_preference (note_failed c s) d \<and>
   (\<not> same_generation c d \<and> \<not> same_path c d \<longrightarrow>
      retry_preference (note_failed c s) d = retry_preference s d)"
  by (auto simp: retry_preference_def note_failed_def RETRY_PREFERENCE_LEVELS_def
      identity_eq_iff [of d c] same_sym split: bool.split)

text \<open>Two candidates of the same credential on different endpoints.\<close>

definition sample_candidate :: "endpoint_id \<Rightarrow> route_candidate" where
  "sample_candidate endpoint =
     \<lparr> rc_target_id = 1, rc_operation = PO_Responses, rc_endpoint_id = endpoint,
       rc_endpoint_config_version = 1, rc_credential_id = ProviderCredential 1,
       rc_routing_generation = 1, rc_provider_kind = PK_OpenAi, rc_base_url = ''u'',
       rc_upstream_model = ''m'', rc_upstream_protocol_dialect = PD_OpenAiResponses,
       rc_proxy_id = endpoint, rc_proxy_config_version = 1, rc_endpoint_health = None,
       rc_proxy_health = None, rc_egress_path_health = 0, rc_candidate_path_health = 0,
       rc_binding = sample_binding, rc_route_admission = 0 \<rparr>"

end
