(* ===== verification/Endpoint_Health.thy ===== *)
theory Endpoint_Health
  imports Circuit Upstream_Error
begin

text \<open>
  The health of endpoints, egress paths, candidate paths and proxies:
  \<open>crates/runtime/src/health/policy.rs\<close>, \<open>runtime/time.rs\<close>, \<open>runtime/error.rs\<close>,
  \<open>runtime/endpoint.rs\<close> and \<open>runtime/proxy.rs\<close> below the same directory.

  An endpoint has a circuit and a transient block of its own; a proxy is a circuit. Each
  operation reads the clock once; where the source reads it again further down the call, both
  readings are the same argument.
\<close>

section \<open>The reliability policy\<close>

definition MAX_TOTAL_ATTEMPTS :: nat where "MAX_TOTAL_ATTEMPTS = 3"
definition MAX_CREDENTIAL_SWITCHES :: nat where "MAX_CREDENTIAL_SWITCHES = 2"
definition MAX_SAME_CREDENTIAL_RETRIES :: nat where "MAX_SAME_CREDENTIAL_RETRIES = 1"
definition BASE_DELAY :: duration where "BASE_DELAY = from_secs 1"
definition MAX_DELAY :: duration where "MAX_DELAY = from_secs 2"
definition JITTER_RATIO :: nat where "JITTER_RATIO = 20"
definition RATE_LIMIT_FALLBACK :: duration where "RATE_LIMIT_FALLBACK = from_secs 60"
definition MODEL_UNSUPPORTED :: duration where "MODEL_UNSUPPORTED = from_secs 3600"
definition PERMISSION_DENIED :: duration where "PERMISSION_DENIED = from_secs 900"
definition TRANSIENT_ENDPOINT :: duration where "TRANSIENT_ENDPOINT = from_secs 15"
definition ENDPOINT_FAILURE_THRESHOLD :: nat where "ENDPOINT_FAILURE_THRESHOLD = 3"
definition ENDPOINT_FAILURE_WINDOW :: duration where "ENDPOINT_FAILURE_WINDOW = from_secs 30"
definition ENDPOINT_OPEN_DURATION :: duration where "ENDPOINT_OPEN_DURATION = from_secs 15"
definition PROXY_FAILURE_THRESHOLD :: nat where "PROXY_FAILURE_THRESHOLD = 3"
definition PROXY_FAILURE_WINDOW :: duration where "PROXY_FAILURE_WINDOW = from_secs 30"
definition PROXY_OPEN_DURATION :: duration where "PROXY_OPEN_DURATION = from_secs 30"
definition HALF_OPEN_MAX_PROBES :: nat where "HALF_OPEN_MAX_PROBES = 1"

record reliability_policy =
  rp_max_total_attempts :: nat
  rp_max_credential_switches :: nat
  rp_max_same_credential_retries :: nat
  rp_precommit_total_budget :: duration
  rp_base_delay :: duration
  rp_max_delay :: duration
  rp_jitter_ratio :: nat
  rp_rate_limit_fallback :: duration
  rp_model_unsupported :: duration
  rp_permission_denied :: duration
  rp_transient_endpoint :: duration
  rp_endpoint_failure_threshold :: nat
  rp_endpoint_failure_window :: duration
  rp_endpoint_open_duration :: duration
  rp_proxy_failure_threshold :: nat
  rp_proxy_failure_window :: duration
  rp_proxy_open_duration :: duration
  rp_half_open_max_probes :: nat

text \<open>The only configurable part is the total budget, in seconds.\<close>

definition policy_from_settings :: "nat \<Rightarrow> reliability_policy" where
  "policy_from_settings precommit_total_budget_secs =
     \<lparr> rp_max_total_attempts = MAX_TOTAL_ATTEMPTS,
       rp_max_credential_switches = MAX_CREDENTIAL_SWITCHES,
       rp_max_same_credential_retries = MAX_SAME_CREDENTIAL_RETRIES,
       rp_precommit_total_budget = from_secs precommit_total_budget_secs,
       rp_base_delay = BASE_DELAY,
       rp_max_delay = MAX_DELAY,
       rp_jitter_ratio = JITTER_RATIO,
       rp_rate_limit_fallback = RATE_LIMIT_FALLBACK,
       rp_model_unsupported = MODEL_UNSUPPORTED,
       rp_permission_denied = PERMISSION_DENIED,
       rp_transient_endpoint = TRANSIENT_ENDPOINT,
       rp_endpoint_failure_threshold = ENDPOINT_FAILURE_THRESHOLD,
       rp_endpoint_failure_window = ENDPOINT_FAILURE_WINDOW,
       rp_endpoint_open_duration = ENDPOINT_OPEN_DURATION,
       rp_proxy_failure_threshold = PROXY_FAILURE_THRESHOLD,
       rp_proxy_failure_window = PROXY_FAILURE_WINDOW,
       rp_proxy_open_duration = PROXY_OPEN_DURATION,
       rp_half_open_max_probes = HALF_OPEN_MAX_PROBES \<rparr>"

section \<open>Deadlines\<close>

definition MAX_HEALTH_DELAY :: duration where
  "MAX_HEALTH_DELAY = from_secs MAX_RETRY_AFTER_SECONDS"

definition health_retry_delay :: "retry_after_hint option \<Rightarrow> duration \<Rightarrow> nat \<Rightarrow> duration" where
  "health_retry_delay hint fallback system_now =
     min (case hint of Some h \<Rightarrow> delay_from h system_now | None \<Rightarrow> fallback) MAX_HEALTH_DELAY"

definition health_deadline :: "instant \<Rightarrow> duration \<Rightarrow> instant" where
  "health_deadline now delay = now + min delay MAX_HEALTH_DELAY"

definition max_deadline :: "instant option \<Rightarrow> instant option \<Rightarrow> instant option" where
  "max_deadline current following =
     (case (current, following) of
        (None, following) \<Rightarrow> following
      | (current, None) \<Rightarrow> current
      | (Some a, Some b) \<Rightarrow> Some (max a b))"

section \<open>Refusals\<close>

datatype unavailability_cause = Outage | RateLimitCooldown

record temporary_unavailability =
  tu_until :: instant
  tu_cause :: unavailability_cause

datatype health_acquire_error = Temporary temporary_unavailability | Permanent

definition outage :: "instant \<Rightarrow> temporary_unavailability" where
  "outage until = \<lparr> tu_until = until, tu_cause = Outage \<rparr>"

definition rate_limit_cooldown :: "instant \<Rightarrow> temporary_unavailability" where
  "rate_limit_cooldown until = \<lparr> tu_until = until, tu_cause = RateLimitCooldown \<rparr>"

section \<open>Endpoints\<close>

record endpoint_health =
  eh_circuit :: circuit
  eh_transient_until :: "instant option"
  eh_transient_wake :: nat

definition endpoint_new :: "scheduler_epoch \<Rightarrow> (scheduler_epoch \<times> endpoint_health) option" where
  "endpoint_new e =
     do { (e, slot) \<leftarrow> wake_slot e;
          (e, c) \<leftarrow> circuit_new e;
          Some (e, \<lparr> eh_circuit = c, eh_transient_until = None, eh_transient_wake = slot \<rparr>) }"

definition check_transient :: "endpoint_health \<Rightarrow> instant \<Rightarrow> health_acquire_error + unit" where
  "check_transient h now =
     (case eh_transient_until h of
        Some until \<Rightarrow> if now < until then Inl (Temporary (outage until)) else Inr ()
      | None \<Rightarrow> Inr ())"

definition endpoint_try_acquire ::
  "endpoint_health \<Rightarrow> reliability_policy \<Rightarrow> instant \<Rightarrow>
   endpoint_health \<times> (health_acquire_error + circuit_permit)" where
  "endpoint_try_acquire h policy now =
     (case check_transient h now of
        Inl err \<Rightarrow> (h, Inl err)
      | Inr _ \<Rightarrow>
          (case circuit_try_acquire (eh_circuit h) now (rp_half_open_max_probes policy) of
             (c, Inl until) \<Rightarrow> (h\<lparr>eh_circuit := c\<rparr>, Inl (Temporary (outage until)))
           | (c, Inr permit) \<Rightarrow> (h\<lparr>eh_circuit := c\<rparr>, Inr permit)))"

definition endpoint_availability ::
  "endpoint_health \<Rightarrow> reliability_policy \<Rightarrow> instant \<Rightarrow> health_acquire_error + unit" where
  "endpoint_availability h policy now =
     (case check_transient h now of
        Inl err \<Rightarrow> Inl err
      | Inr _ \<Rightarrow>
          (case circuit_availability (eh_circuit h) now (rp_half_open_max_probes policy) of
             Inl until \<Rightarrow> Inl (Temporary (outage until))
           | Inr _ \<Rightarrow> Inr ()))"

definition endpoint_transient ::
  "scheduler_epoch \<Rightarrow> endpoint_health \<Rightarrow> reliability_policy \<Rightarrow> circuit_permit option \<Rightarrow> instant \<Rightarrow>
   (scheduler_epoch \<times> endpoint_health) option" where
  "endpoint_transient e h policy permit now =
     (let until = health_deadline now (rp_transient_endpoint policy);
          current = max_deadline (eh_transient_until h) (Some until);
          h = h\<lparr>eh_transient_until := current\<rparr>
      in do { deadline \<leftarrow> current;
              e \<leftarrow> slot_schedule e (eh_transient_wake h) deadline;
              case permit of
                None \<Rightarrow> Some (e, h)
              | Some p \<Rightarrow>
                  do { (e, c, u) \<leftarrow> permit_failure e (eh_circuit h) p now
                         (rp_endpoint_failure_threshold policy)
                         (rp_endpoint_failure_window policy)
                         (rp_endpoint_open_duration policy);
                       Some (e, h\<lparr>eh_circuit := c\<rparr>) } })"

definition endpoint_success ::
  "scheduler_epoch \<Rightarrow> endpoint_health \<Rightarrow> instant \<Rightarrow> circuit_permit option \<Rightarrow>
   (scheduler_epoch \<times> endpoint_health) option" where
  "endpoint_success e h started_at permit =
     do { (e, h) \<leftarrow> (case permit of
                        None \<Rightarrow> Some (e, h)
                      | Some p \<Rightarrow>
                          do { (e, c) \<leftarrow> permit_success e (eh_circuit h) p;
                               Some (e, h\<lparr>eh_circuit := c\<rparr>) });
          if (case eh_transient_until h of None \<Rightarrow> False | Some until \<Rightarrow> until \<le> started_at)
          then do { e \<leftarrow> slot_cancel e (eh_transient_wake h);
                    Some (e, h\<lparr>eh_transient_until := None\<rparr>) }
          else Some (e, h) }"

text \<open>A neutral outcome, and dropping the permit, only drop the circuit's permit.\<close>

definition endpoint_neutral ::
  "scheduler_epoch \<Rightarrow> endpoint_health \<Rightarrow> circuit_permit option \<Rightarrow>
   (scheduler_epoch \<times> endpoint_health) option" where
  "endpoint_neutral e h permit =
     (case permit of
        None \<Rightarrow> Some (e, h)
      | Some p \<Rightarrow>
          do { (e, c) \<leftarrow> permit_drop e (eh_circuit h) p; Some (e, h\<lparr>eh_circuit := c\<rparr>) })"

section \<open>Proxies\<close>

definition proxy_try_acquire ::
  "circuit \<Rightarrow> reliability_policy \<Rightarrow> instant \<Rightarrow> circuit \<times> (health_acquire_error + circuit_permit)" where
  "proxy_try_acquire c policy now =
     (case circuit_try_acquire c now (rp_half_open_max_probes policy) of
        (c, Inl until) \<Rightarrow> (c, Inl (Temporary (outage until)))
      | (c, Inr permit) \<Rightarrow> (c, Inr permit))"

definition proxy_availability ::
  "circuit \<Rightarrow> reliability_policy \<Rightarrow> instant \<Rightarrow> health_acquire_error + unit" where
  "proxy_availability c policy now =
     (case circuit_availability c now (rp_half_open_max_probes policy) of
        Inl until \<Rightarrow> Inl (Temporary (outage until))
      | Inr _ \<Rightarrow> Inr ())"

definition proxy_success ::
  "scheduler_epoch \<Rightarrow> circuit \<Rightarrow> circuit_permit option \<Rightarrow> (scheduler_epoch \<times> circuit) option" where
  "proxy_success e c permit =
     (case permit of None \<Rightarrow> Some (e, c) | Some p \<Rightarrow> permit_success e c p)"

definition proxy_failure ::
  "scheduler_epoch \<Rightarrow> circuit \<Rightarrow> reliability_policy \<Rightarrow> circuit_permit option \<Rightarrow> instant \<Rightarrow>
   (scheduler_epoch \<times> circuit) option" where
  "proxy_failure e c policy permit now =
     (case permit of
        None \<Rightarrow> Some (e, c)
      | Some p \<Rightarrow>
          do { (e, c, u) \<leftarrow> permit_failure e c p now (rp_proxy_failure_threshold policy)
                 (rp_proxy_failure_window policy) (rp_proxy_open_duration policy);
               Some (e, c) })"

definition proxy_neutral ::
  "scheduler_epoch \<Rightarrow> circuit \<Rightarrow> circuit_permit option \<Rightarrow> (scheduler_epoch \<times> circuit) option" where
  "proxy_neutral e c permit =
     (case permit of None \<Rightarrow> Some (e, c) | Some p \<Rightarrow> permit_drop e c p)"

section \<open>What the operations keep\<close>

lemma max_deadline_Some [simp]:
  "max_deadline current (Some t) = Some (case current of None \<Rightarrow> t | Some c \<Rightarrow> max c t)"
  by (simp add: max_deadline_def split: option.splits)

lemma circuit_availability_agrees:
  "circuit_availability c now n = Inr () \<longleftrightarrow> (\<exists>c' p. circuit_try_acquire c now n = (c', Inr p))"
  "circuit_availability c now n = Inl t \<longleftrightarrow> circuit_try_acquire c now n = (c, Inl t)"
  by (auto simp: circuit_availability_def circuit_try_acquire_def split: option.splits if_splits)

lemma endpoint_transient_Some:
  assumes "ep_inv e" "endpoint_transient e h policy permit now = Some (e', h')"
  shows "\<exists>until\<ge>health_deadline now (rp_transient_endpoint policy).
     eh_transient_until h' = Some until \<and>
     (case eh_transient_until h of None \<Rightarrow> True | Some u \<Rightarrow> u \<le> until)"
    "eh_transient_wake h' = eh_transient_wake h"
    "permit = None \<Longrightarrow> eh_circuit h' = eh_circuit h"
  using assms(2)
  by (auto simp: endpoint_transient_def Let_def bind_eq_Some_conv split: option.splits)

lemma availability_eq:
  "endpoint_availability h policy now =
     map_sum (\<lambda>err. err) (\<lambda>_. ()) (snd (endpoint_try_acquire h policy now))"
  "proxy_availability c policy now =
     map_sum (\<lambda>err. err) (\<lambda>_. ()) (snd (proxy_try_acquire c policy now))"
  by (auto simp: endpoint_availability_def endpoint_try_acquire_def proxy_availability_def
      proxy_try_acquire_def circuit_availability_def circuit_try_acquire_def
      split: sum.splits option.splits)

section \<open>Properties\<close>

text \<open>
  Asking whether an endpoint or a proxy is available and trying to acquire it at the same
  instant agree: one is refused exactly when the other is, with the same refusal, so a candidate
  that selection keeps because it looked available is not refused by a different rule.
\<close>

lemma availability_agrees_with_acquire:
  "endpoint_availability h policy now =
     map_sum (\<lambda>err. err) (\<lambda>_. ()) (snd (endpoint_try_acquire h policy now)) \<and>
   proxy_availability c policy now =
     map_sum (\<lambda>err. err) (\<lambda>_. ()) (snd (proxy_try_acquire c policy now))"
  by (intro conjI availability_eq)

text \<open>
  A failure blamed on an endpoint blocks it at once: from then until the block's end every
  attempt to acquire it is refused as an outage until that end, and a block already in force is
  never shortened.
\<close>

lemma endpoint_failure_blocks:
  assumes "ep_inv e" "endpoint_transient e h policy permit now = Some (e', h')"
  shows "\<exists>until \<ge> now + min (rp_transient_endpoint policy) MAX_HEALTH_DELAY.
     (\<forall>u. eh_transient_until h = Some u \<longrightarrow> u \<le> until) \<and>
     (\<forall>t < until. endpoint_try_acquire h' policy t = (h', Inl (Temporary (outage until))))"
proof -
  obtain until where until: "health_deadline now (rp_transient_endpoint policy) \<le> until"
      "eh_transient_until h' = Some until"
      "case eh_transient_until h of None \<Rightarrow> True | Some u \<Rightarrow> u \<le> until"
    using endpoint_transient_Some(1) [OF assms] by blast
  then show ?thesis
    by (intro exI [of _ until])
      (auto simp: health_deadline_def endpoint_try_acquire_def check_transient_def)
qed

end
