(* ===== verification/Credential_Health.thy ===== *)
theory Credential_Health
  imports Endpoint_Health
begin

text \<open>
  The health of a credential, \<open>crates/runtime/src/health/runtime/credential/\<close>: an authentication
  flag that only an explicit action clears, a cooldown of the whole credential, cooldowns per
  model, and an observed quota exhaustion.

  The map of model cooldowns is an association list with distinct keys; its order stands for the
  unspecified iteration order of the hash map. Dropping a model cooldown cancels its wake slot.
\<close>

section \<open>State\<close>

record model_cooldown =
  mc_until :: instant
  mc_cause :: unavailability_cause
  mc_wake :: nat

record quota_exhaustion =
  qe_observed_at :: nat
  qe_used :: "nat option"
  qe_limit :: "nat option"
  qe_retry_at :: instant

record credential_health =
  ch_auth_error :: bool
  ch_cooldown_until :: "instant option"
  ch_model_cooldowns :: "(string \<times> model_cooldown) list"
  ch_quota_exhaustion :: "quota_exhaustion option"
  ch_cooldown_wake :: nat
  ch_quota_wake :: nat

definition credential_health_new ::
  "scheduler_epoch \<Rightarrow> (scheduler_epoch \<times> credential_health) option" where
  "credential_health_new e =
     do { (e, cooldown_wake) \<leftarrow> wake_slot e;
          (e, quota_wake) \<leftarrow> wake_slot e;
          Some (e, \<lparr> ch_auth_error = False, ch_cooldown_until = None, ch_model_cooldowns = [],
                     ch_quota_exhaustion = None, ch_cooldown_wake = cooldown_wake,
                     ch_quota_wake = quota_wake \<rparr>) }"

section \<open>Authentication\<close>

definition auth_update ::
  "scheduler_epoch \<Rightarrow> credential_health \<Rightarrow> bool \<Rightarrow> (scheduler_epoch \<times> credential_health \<times> bool) option" where
  "auth_update e h v =
     (if ch_auth_error h = v then Some (e, h, False)
      else do { (e, n) \<leftarrow> advance e; Some (e, h\<lparr>ch_auth_error := v\<rparr>, True) })"

definition auth_availability :: "credential_health \<Rightarrow> health_acquire_error + unit" where
  "auth_availability h = (if ch_auth_error h then Inl Permanent else Inr ())"

section \<open>Cooldowns\<close>

definition unavailability :: "model_cooldown \<Rightarrow> temporary_unavailability" where
  "unavailability m = \<lparr> tu_until = mc_until m, tu_cause = mc_cause m \<rparr>"

definition expired_models :: "credential_health \<Rightarrow> instant \<Rightarrow> (string \<times> model_cooldown) list" where
  "expired_models h now = filter (\<lambda>(model, m). mc_until m \<le> now) (ch_model_cooldowns h)"

fun drop_cooldowns ::
  "scheduler_epoch \<Rightarrow> (string \<times> model_cooldown) list \<Rightarrow> scheduler_epoch option" where
  "drop_cooldowns e [] = Some e"
| "drop_cooldowns e ((model, m) # ms) =
     do { e \<leftarrow> slot_cancel e (mc_wake m); drop_cooldowns e ms }"

definition prune_expired ::
  "scheduler_epoch \<Rightarrow> credential_health \<Rightarrow> instant \<Rightarrow> (scheduler_epoch \<times> credential_health) option" where
  "prune_expired e h now =
     do { e' \<leftarrow> drop_cooldowns e (expired_models h now);
          Some (e', h\<lparr>ch_model_cooldowns :=
                        filter (\<lambda>(model, m). \<not> mc_until m \<le> now) (ch_model_cooldowns h)\<rparr>) }"

text \<open>\<open>Iterator::max_by_key\<close> keeps the last of several greatest elements.\<close>

fun max_by_until :: "temporary_unavailability list \<Rightarrow> temporary_unavailability option" where
  "max_by_until [] = None"
| "max_by_until (u # us) =
     (case max_by_until us of
        None \<Rightarrow> Some u
      | Some v \<Rightarrow> if tu_until u \<le> tu_until v then Some v else Some u)"

definition blocks :: "credential_health \<Rightarrow> string \<Rightarrow> temporary_unavailability list" where
  "blocks h model =
     (case ch_cooldown_until h of None \<Rightarrow> [] | Some t \<Rightarrow> [outage t]) @
     (case map_of (ch_model_cooldowns h) model of None \<Rightarrow> [] | Some m \<Rightarrow> [unavailability m]) @
     (case ch_quota_exhaustion h of None \<Rightarrow> [] | Some q \<Rightarrow> [rate_limit_cooldown (qe_retry_at q)])"

definition routing_availability ::
  "scheduler_epoch \<Rightarrow> credential_health \<Rightarrow> string \<Rightarrow> instant \<Rightarrow>
   (scheduler_epoch \<times> credential_health \<times> (health_acquire_error + unit)) option" where
  "routing_availability e h model now =
     do { (e, h) \<leftarrow> prune_expired e h now;
          Some (e, h, case max_by_until (blocks h model) of
                        Some u \<Rightarrow> (if now < tu_until u then Inl (Temporary u) else Inr ())
                      | None \<Rightarrow> Inr ()) }"

definition credential_availability ::
  "scheduler_epoch \<Rightarrow> credential_health \<Rightarrow> string \<Rightarrow> instant \<Rightarrow>
   (scheduler_epoch \<times> credential_health \<times> (health_acquire_error + unit)) option" where
  "credential_availability e h model now =
     (case auth_availability h of
        Inl err \<Rightarrow> Some (e, h, Inl err)
      | Inr _ \<Rightarrow> routing_availability e h model now)"

definition clear_temporary_cooldowns ::
  "scheduler_epoch \<Rightarrow> credential_health \<Rightarrow> (scheduler_epoch \<times> credential_health \<times> bool) option" where
  "clear_temporary_cooldowns e h =
     (let changed = (ch_cooldown_until h \<noteq> None \<or> ch_model_cooldowns h \<noteq> [] \<or>
                     ch_quota_exhaustion h \<noteq> None)
      in do { e \<leftarrow> slot_cancel e (ch_cooldown_wake h);
              e \<leftarrow> slot_cancel e (ch_quota_wake h);
              e \<leftarrow> drop_cooldowns e (ch_model_cooldowns h);
              e \<leftarrow> (if changed then map_option fst (advance e) else Some e);
              Some (e, h\<lparr>ch_cooldown_until := None, ch_model_cooldowns := [],
                         ch_quota_exhaustion := None\<rparr>, changed) })"

definition clear_quota_exhaustion ::
  "scheduler_epoch \<Rightarrow> credential_health \<Rightarrow> (scheduler_epoch \<times> credential_health \<times> bool) option" where
  "clear_quota_exhaustion e h =
     (if ch_quota_exhaustion h = None then Some (e, h, False)
      else do { e \<leftarrow> slot_cancel e (ch_quota_wake h);
                (e, n) \<leftarrow> advance e;
                Some (e, h\<lparr>ch_quota_exhaustion := None\<rparr>, True) })"

definition record_quota_exhaustion ::
  "scheduler_epoch \<Rightarrow> credential_health \<Rightarrow> duration \<Rightarrow> nat option \<Rightarrow> nat option \<Rightarrow> instant \<Rightarrow> nat \<Rightarrow>
   (scheduler_epoch \<times> credential_health) option" where
  "record_quota_exhaustion e h delay used limit now unix_now =
     (let retry_at = health_deadline now delay
      in do { e \<leftarrow> slot_schedule e (ch_quota_wake h) retry_at;
              (e, n) \<leftarrow> advance e;
              Some (e, h\<lparr>ch_quota_exhaustion :=
                          Some \<lparr> qe_observed_at = unix_now, qe_used = used, qe_limit = limit,
                                 qe_retry_at = retry_at \<rparr>\<rparr>) })"

definition record_model_cooldown ::
  "scheduler_epoch \<Rightarrow> credential_health \<Rightarrow> string \<Rightarrow> instant \<Rightarrow> unavailability_cause \<Rightarrow>
   (scheduler_epoch \<times> credential_health) option" where
  "record_model_cooldown e h model until cause =
     do { (e, m, rest) \<leftarrow>
            (case map_of (ch_model_cooldowns h) model of
               Some m \<Rightarrow> Some (e, m, filter (\<lambda>(k, _). k \<noteq> model) (ch_model_cooldowns h))
             | None \<Rightarrow>
                 do { (e, slot) \<leftarrow> wake_slot e;
                      Some (e, \<lparr> mc_until = until, mc_cause = cause, mc_wake = slot \<rparr>,
                            ch_model_cooldowns h) });
          let m = (if mc_until m \<le> until then m\<lparr>mc_until := until, mc_cause := cause\<rparr> else m);
          e \<leftarrow> slot_schedule e (mc_wake m) (mc_until m);
          Some (e, h\<lparr>ch_model_cooldowns := (model, m) # rest\<rparr>) }"

definition routing_record ::
  "scheduler_epoch \<Rightarrow> credential_health \<Rightarrow> string \<Rightarrow> upstream_error_classification \<Rightarrow>
   reliability_policy \<Rightarrow> instant \<Rightarrow> nat \<Rightarrow> nat \<Rightarrow> (scheduler_epoch \<times> credential_health) option" where
  "routing_record e h model c policy now system_now unix_now =
     do { (e, h) \<leftarrow> prune_expired e h now;
          case uc_kind c of
            UK_QuotaExhausted \<Rightarrow>
              record_quota_exhaustion e h
                (health_retry_delay (uc_retry_after c) (rp_permission_denied policy) system_now)
                (map_option uq_used (uc_quota_exhaustion c))
                (map_option uq_limit (uc_quota_exhaustion c)) now unix_now
          | UK_PermissionDenied \<Rightarrow>
              (let until = max_deadline (ch_cooldown_until h)
                             (Some (health_deadline now (rp_permission_denied policy)))
               in do { t \<leftarrow> until;
                       e \<leftarrow> slot_schedule e (ch_cooldown_wake h) t;
                       Some (e, h\<lparr>ch_cooldown_until := until\<rparr>) })
          | UK_RateLimited \<Rightarrow>
              record_model_cooldown e h model
                (health_deadline now
                  (health_retry_delay (uc_retry_after c) (rp_rate_limit_fallback policy) system_now))
                RateLimitCooldown
          | UK_ModelUnavailable \<Rightarrow>
              record_model_cooldown e h model
                (health_deadline now (rp_model_unsupported policy)) Outage
          | _ \<Rightarrow> Some (e, h) }"

definition credential_record ::
  "scheduler_epoch \<Rightarrow> credential_health \<Rightarrow> string \<Rightarrow> upstream_error_classification \<Rightarrow>
   reliability_policy \<Rightarrow> instant \<Rightarrow> nat \<Rightarrow> nat \<Rightarrow> (scheduler_epoch \<times> credential_health) option" where
  "credential_record e h model c policy now system_now unix_now =
     (case uc_attribution c of
        UA_Authentication \<Rightarrow>
          (if uc_kind c = UK_Authentication
           then do { (e, h, changed) \<leftarrow> auth_update e h True; Some (e, h) }
           else Some (e, h))
      | UA_Credential \<Rightarrow> routing_record e h model c policy now system_now unix_now
      | UA_CredentialModel \<Rightarrow> routing_record e h model c policy now system_now unix_now
      | _ \<Rightarrow> Some (e, h))"

section \<open>Which block is in force\<close>

definition ch_inv :: "credential_health \<Rightarrow> bool" where
  "ch_inv h \<longleftrightarrow> distinct (map fst (ch_model_cooldowns h))"

lemma max_by_until_None [simp]: "max_by_until us = None \<longleftrightarrow> us = []"
  by (cases us) (auto split: option.splits)

lemma max_by_until_Some:
  "max_by_until us = Some u \<Longrightarrow> u \<in> set us \<and> (\<forall>v\<in>set us. tu_until v \<le> tu_until u)"
proof (induction us arbitrary: u)
  case (Cons v us)
  then show ?case
    by (cases "max_by_until us") (fastforce split: if_splits)+
qed simp

lemma map_of_filter_val:
  "distinct (map fst xs) \<Longrightarrow>
   map_of (filter (\<lambda>(k, v). P v) xs) k =
     (case map_of xs k of None \<Rightarrow> None | Some v \<Rightarrow> if P v then Some v else None)"
  by (induction xs) (auto split: option.splits simp: image_iff dest: map_of_SomeD)

lemma prune_expired_Some:
  assumes "prune_expired e h now = Some (e', h')" "ch_inv h"
  shows "ch_inv h'" "ch_auth_error h' = ch_auth_error h"
    "ch_cooldown_until h' = ch_cooldown_until h" "ch_quota_exhaustion h' = ch_quota_exhaustion h"
    "map_of (ch_model_cooldowns h') model =
       (case map_of (ch_model_cooldowns h) model of
          None \<Rightarrow> None | Some m \<Rightarrow> if now < mc_until m then Some m else None)"
proof -
  have h': "h' = h\<lparr>ch_model_cooldowns :=
      filter (\<lambda>(model, m). \<not> mc_until m \<le> now) (ch_model_cooldowns h)\<rparr>"
    using assms(1) by (auto simp: prune_expired_def bind_eq_Some_conv)
  show "ch_inv h'"
    using assms(2) by (simp add: h' ch_inv_def distinct_map_filter_intro)
  show "ch_auth_error h' = ch_auth_error h" "ch_cooldown_until h' = ch_cooldown_until h"
    "ch_quota_exhaustion h' = ch_quota_exhaustion h"
    by (simp_all add: h')
  show "map_of (ch_model_cooldowns h') model =
       (case map_of (ch_model_cooldowns h) model of
          None \<Rightarrow> None | Some m \<Rightarrow> if now < mc_until m then Some m else None)"
    using map_of_filter_val [of "ch_model_cooldowns h" "\<lambda>m. \<not> mc_until m \<le> now" model] assms(2)
    by (simp add: h' ch_inv_def not_le split: option.splits)
qed

text \<open>Pruning removes only blocks that are over.\<close>

lemma prune_expired_blocks:
  assumes "prune_expired e h now = Some (e', h')" "ch_inv h"
  shows "set (blocks h' model) \<subseteq> set (blocks h model)"
    "u \<in> set (blocks h model) \<Longrightarrow> now < tu_until u \<Longrightarrow> u \<in> set (blocks h' model)"
  using prune_expired_Some [OF assms]
  by (auto simp: blocks_def unavailability_def split: option.splits if_splits)

lemma drop_cooldowns_inv:
  "drop_cooldowns e ms = Some e' \<Longrightarrow> ep_inv e \<Longrightarrow> ep_inv e' \<and> ep_current e' = ep_current e"
proof (induction e ms rule: drop_cooldowns.induct)
  case (2 e model m ms)
  then obtain e1 where "slot_cancel e (mc_wake m) = Some e1" "drop_cooldowns e1 ms = Some e'"
    by (auto simp: bind_eq_Some_conv)
  then show ?case
    using 2 slot_cancel_ok(1,2) [of e "mc_wake m" e1] by simp
qed simp

lemma record_model_cooldown_Some:
  assumes "record_model_cooldown e h model until cause = Some (e', h')" "ch_inv h"
  shows "ch_inv h'" "ch_auth_error h' = ch_auth_error h"
    "ch_cooldown_until h' = ch_cooldown_until h" "ch_quota_exhaustion h' = ch_quota_exhaustion h"
    "\<exists>m. map_of (ch_model_cooldowns h') model = Some m \<and> until \<le> mc_until m"
    "model' \<noteq> model \<Longrightarrow> map_of (ch_model_cooldowns h') model' = map_of (ch_model_cooldowns h) model'"
proof -
  let ?rest = "filter (\<lambda>(k, _). k \<noteq> model) (ch_model_cooldowns h)"
  have rest: "?rest = ch_model_cooldowns h" if "map_of (ch_model_cooldowns h) model = None"
    using that by (force simp: map_of_eq_None_iff filter_id_conv)
  obtain m where h': "h' = h\<lparr>ch_model_cooldowns := (model, m) # ?rest\<rparr>" "until \<le> mc_until m"
    using assms(1) rest
    by (auto simp: record_model_cooldown_def bind_eq_Some_conv Let_def split: option.splits if_splits)
  have lookup: "map_of ?rest k = (if k = model then None else map_of (ch_model_cooldowns h) k)" for k
    using bt_remove_lookup [of model "ch_model_cooldowns h"] by (simp add: bt_remove_def fun_upd_def)
  show "ch_inv h'"
    using assms(2) by (auto simp: h' ch_inv_def distinct_map_filter_intro)
  show "ch_auth_error h' = ch_auth_error h" "ch_cooldown_until h' = ch_cooldown_until h"
    "ch_quota_exhaustion h' = ch_quota_exhaustion h"
    "\<exists>m. map_of (ch_model_cooldowns h') model = Some m \<and> until \<le> mc_until m"
    using h' by simp_all
  show "map_of (ch_model_cooldowns h') model' = map_of (ch_model_cooldowns h) model'"
    if "model' \<noteq> model"
    using that lookup [of model'] by (simp add: h')
qed

section \<open>Properties\<close>


text \<open>A credential with a permission cooldown, for the examples.\<close>

definition cooling_credential :: credential_health where
  "cooling_credential =
     \<lparr> ch_auth_error = False, ch_cooldown_until = Some 50, ch_model_cooldowns = [],
       ch_quota_exhaustion = None, ch_cooldown_wake = 1, ch_quota_wake = 2 \<rparr>"


text \<open>
  A rate limit or an unavailable model that the upstream attributes to a model blocks that
  model until at least the announced time, and nothing else: no other model of the credential, no
  authentication state and no other kind of block changes, expired cooldowns aside.
\<close>

lemma model_cooldown_isolated:
  assumes "ch_inv h" "uc_attribution c = UA_CredentialModel"
    and "uc_kind c = UK_RateLimited \<or> uc_kind c = UK_ModelUnavailable"
    and "credential_record e h model c policy now system_now unix_now = Some (e', h')"
  defines "delay \<equiv> (if uc_kind c = UK_RateLimited
      then health_retry_delay (uc_retry_after c) (rp_rate_limit_fallback policy) system_now
      else rp_model_unsupported policy)"
  shows "ch_inv h' \<and> ch_auth_error h' = ch_auth_error h \<and>
    (\<exists>u\<in>set (blocks h' model). health_deadline now delay \<le> tu_until u) \<and>
    (\<forall>other. other \<noteq> model \<longrightarrow>
       (\<forall>u. now < tu_until u \<longrightarrow> u \<in> set (blocks h' other) \<longleftrightarrow> u \<in> set (blocks h other)))"
proof -
  obtain e1 h1 cause where p: "prune_expired e h now = Some (e1, h1)"
    and rec: "record_model_cooldown e1 h1 model (health_deadline now delay) cause = Some (e', h')"
    using assms(2,3,4)
    by (auto simp: credential_record_def routing_record_def bind_eq_Some_conv delay_def)
  note p1 = prune_expired_Some [OF p assms(1)]
  note r1 = record_model_cooldown_Some [OF rec p1(1)]
  obtain m where m: "map_of (ch_model_cooldowns h') model = Some m" "health_deadline now delay \<le> mc_until m"
    using r1(5) by blast
  then have "unavailability m \<in> set (blocks h' model)"
    by (simp add: blocks_def)
  then have blocked: "\<exists>u\<in>set (blocks h' model). health_deadline now delay \<le> tu_until u"
    using m(2) by (intro bexI [of _ "unavailability m"]) (simp_all add: unavailability_def)
  have "blocks h' other = blocks h1 other" if "other \<noteq> model" for other
    using r1(3,4) r1(6) [OF that] by (simp add: blocks_def)
  then have "u \<in> set (blocks h' other) \<longleftrightarrow> u \<in> set (blocks h other)"
    if "other \<noteq> model" "now < tu_until u" for other u
    using prune_expired_blocks [OF p assms(1), where model = other] that by auto
  then show ?thesis
    using r1(1,2) p1(2) blocked by simp
qed

end
