(* ===== verification/Attempt_Health.thy ===== *)
theory Attempt_Health
  imports Credential_Health
begin

text \<open>
  How the outcome of one upstream attempt reaches the health of what it used:
  \<open>crates/runtime/src/health/runtime/attempt.rs\<close>.

  An attempt holds a permit of the endpoint, of the proxy, of the egress path and of the
  candidate path. Its outcome is attributed to one of them or to the credential; every other
  permit is resolved as a success or dropped. The four runtimes are distinct objects, so they are
  distinct fields of the state.
\<close>

section \<open>State\<close>

record health_state =
  hs_epoch :: scheduler_epoch
  hs_credential :: credential_health
  hs_endpoint :: endpoint_health
  hs_proxy :: circuit
  hs_egress_path :: endpoint_health
  hs_candidate_path :: endpoint_health

record attempt_health =
  ah_model :: string
  ah_endpoint :: "circuit_permit option"
  ah_proxy :: "circuit_permit option"
  ah_egress_path :: "circuit_permit option"
  ah_candidate_path :: "circuit_permit option"
  ah_policy :: reliability_policy
  ah_started_at :: instant

datatype transport_failure_scope = TF_Endpoint | TF_Proxy | TF_EgressPath | TF_Unattributed

section \<open>Resolving one permit\<close>

text \<open>The three outcomes of a permit, on the field of the state it belongs to.\<close>

datatype outcome = Success | Failure | Neutral

definition resolve ::
  "outcome \<Rightarrow> scheduler_epoch \<Rightarrow> endpoint_health \<Rightarrow> circuit_permit option \<Rightarrow> attempt_health \<Rightarrow>
   instant \<Rightarrow> (scheduler_epoch \<times> endpoint_health) option" where
  "resolve out e h permit a now =
     (case permit of
        None \<Rightarrow> Some (e, h)
      | Some p \<Rightarrow>
          (case out of
             Success \<Rightarrow> endpoint_success e h (ah_started_at a) (Some p)
           | Failure \<Rightarrow> endpoint_transient e h (ah_policy a) (Some p) now
           | Neutral \<Rightarrow> endpoint_neutral e h (Some p)))"

definition resolve_endpoint :: "outcome \<Rightarrow> attempt_health \<Rightarrow> instant \<Rightarrow> health_state \<Rightarrow> health_state option" where
  "resolve_endpoint out a now s =
     do { (e, h) \<leftarrow> resolve out (hs_epoch s) (hs_endpoint s) (ah_endpoint a) a now;
          Some (s\<lparr>hs_epoch := e, hs_endpoint := h\<rparr>) }"

definition resolve_egress :: "outcome \<Rightarrow> attempt_health \<Rightarrow> instant \<Rightarrow> health_state \<Rightarrow> health_state option" where
  "resolve_egress out a now s =
     do { (e, h) \<leftarrow> resolve out (hs_epoch s) (hs_egress_path s) (ah_egress_path a) a now;
          Some (s\<lparr>hs_epoch := e, hs_egress_path := h\<rparr>) }"

definition resolve_candidate :: "outcome \<Rightarrow> attempt_health \<Rightarrow> instant \<Rightarrow> health_state \<Rightarrow> health_state option" where
  "resolve_candidate out a now s =
     do { (e, h) \<leftarrow> resolve out (hs_epoch s) (hs_candidate_path s) (ah_candidate_path a) a now;
          Some (s\<lparr>hs_epoch := e, hs_candidate_path := h\<rparr>) }"

definition resolve_proxy :: "outcome \<Rightarrow> attempt_health \<Rightarrow> instant \<Rightarrow> health_state \<Rightarrow> health_state option" where
  "resolve_proxy out a now s =
     do { (e, c) \<leftarrow> (case out of
                        Success \<Rightarrow> proxy_success (hs_epoch s) (hs_proxy s) (ah_proxy a)
                      | Failure \<Rightarrow> proxy_failure (hs_epoch s) (hs_proxy s) (ah_policy a) (ah_proxy a) now
                      | Neutral \<Rightarrow> proxy_neutral (hs_epoch s) (hs_proxy s) (ah_proxy a));
          Some (s\<lparr>hs_epoch := e, hs_proxy := c\<rparr>) }"

section \<open>Outcomes of an attempt\<close>

definition attempt_success :: "attempt_health \<Rightarrow> instant \<Rightarrow> health_state \<Rightarrow> health_state option" where
  "attempt_success a now s =
     do { (e, c, changed) \<leftarrow> clear_quota_exhaustion (hs_epoch s) (hs_credential s);
          s \<leftarrow> resolve_endpoint Success a now (s\<lparr>hs_epoch := e, hs_credential := c\<rparr>);
          s \<leftarrow> resolve_egress Success a now s;
          s \<leftarrow> resolve_candidate Success a now s;
          resolve_proxy Success a now s }"

text \<open>The permits of endpoint, egress path and candidate path after an upstream failure.\<close>

definition resolve_upstream ::
  "attempt_health \<Rightarrow> upstream_error_classification \<Rightarrow> instant \<Rightarrow> health_state \<Rightarrow> health_state option" where
  "resolve_upstream a c now s =
     (case uc_attribution c of
        UA_Endpoint \<Rightarrow>
          do { s \<leftarrow> resolve_egress Neutral a now s;
               s \<leftarrow> resolve_candidate Neutral a now s;
               resolve_endpoint Failure a now s }
      | UA_EgressPath \<Rightarrow>
          do { s \<leftarrow> resolve_endpoint Neutral a now s;
               s \<leftarrow> resolve_candidate Neutral a now s;
               resolve_egress Failure a now s }
      | UA_RouteOperation \<Rightarrow>
          do { s \<leftarrow> resolve_endpoint Neutral a now s;
               s \<leftarrow> resolve_egress Success a now s;
               resolve_candidate Failure a now s }
      | UA_Unattributed \<Rightarrow>
          do { s \<leftarrow> resolve_endpoint Neutral a now s;
               s \<leftarrow> resolve_egress Neutral a now s;
               if uc_kind c \<noteq> UK_InvalidRequest then resolve_candidate Failure a now s
               else resolve_candidate Neutral a now s }
      | _ \<Rightarrow>
          do { s \<leftarrow> resolve_endpoint Neutral a now s;
               s \<leftarrow> resolve_egress Success a now s;
               resolve_candidate Success a now s })"

definition attempt_upstream_failure ::
  "attempt_health \<Rightarrow> upstream_error_classification \<Rightarrow> instant \<Rightarrow> nat \<Rightarrow> nat \<Rightarrow> health_state \<Rightarrow>
   health_state option" where
  "attempt_upstream_failure a c now system_now unix_now s =
     do { (e, cr) \<leftarrow> credential_record (hs_epoch s) (hs_credential s) (ah_model a) c (ah_policy a)
                       now system_now unix_now;
          let s = s\<lparr>hs_epoch := e, hs_credential := cr\<rparr>;
          s \<leftarrow> resolve_upstream a c now s;
          resolve_proxy Success a now s }"

definition attempt_transport_failure ::
  "attempt_health \<Rightarrow> transport_failure_scope \<Rightarrow> instant \<Rightarrow> health_state \<Rightarrow> health_state option" where
  "attempt_transport_failure a scope now s =
     (case scope of
        TF_Endpoint \<Rightarrow>
          do { s \<leftarrow> resolve_egress Neutral a now s;
               s \<leftarrow> resolve_candidate Neutral a now s;
               s \<leftarrow> resolve_proxy Neutral a now s;
               resolve_endpoint Failure a now s }
      | TF_Proxy \<Rightarrow>
          do { s \<leftarrow> resolve_endpoint Neutral a now s;
               s \<leftarrow> resolve_egress Neutral a now s;
               s \<leftarrow> resolve_candidate Neutral a now s;
               resolve_proxy Failure a now s }
      | TF_EgressPath \<Rightarrow>
          do { s \<leftarrow> resolve_endpoint Neutral a now s;
               s \<leftarrow> resolve_proxy Neutral a now s;
               s \<leftarrow> resolve_egress Failure a now s;
               resolve_candidate Failure a now s }
      | TF_Unattributed \<Rightarrow>
          do { s \<leftarrow> resolve_endpoint Neutral a now s;
               s \<leftarrow> resolve_proxy Neutral a now s;
               s \<leftarrow> resolve_egress Neutral a now s;
               resolve_candidate Failure a now s })"

text \<open>Dropping an attempt that never completed.\<close>

definition attempt_drop :: "attempt_health \<Rightarrow> instant \<Rightarrow> health_state \<Rightarrow> health_state option" where
  "attempt_drop a now s =
     do { s \<leftarrow> resolve_endpoint Neutral a now s;
          s \<leftarrow> resolve_egress Neutral a now s;
          s \<leftarrow> resolve_candidate Neutral a now s;
          resolve_proxy Neutral a now s }"

section \<open>Blame\<close>

text \<open>
  \<open>not_blamed c c'\<close>: between the two states the circuit recorded no failure; it was left alone,
  gave back a probe, or was closed by a success. For an endpoint the transient block did not grow
  either.
\<close>

definition not_blamed :: "circuit \<Rightarrow> circuit \<Rightarrow> bool" where
  "not_blamed c c' \<longleftrightarrow>
     (ci_failure_times c', ci_open_until c', ci_last_failure_at c') \<in>
       {(ci_failure_times c, ci_open_until c, ci_last_failure_at c), ([], None, None)}"

definition endpoint_not_blamed :: "endpoint_health \<Rightarrow> endpoint_health \<Rightarrow> bool" where
  "endpoint_not_blamed h h' \<longleftrightarrow>
     not_blamed (eh_circuit h) (eh_circuit h') \<and> eh_transient_until h' \<in> {eh_transient_until h, None}"

lemma not_blamed_refl [simp]: "not_blamed c c" "endpoint_not_blamed h h"
  by (simp_all add: not_blamed_def endpoint_not_blamed_def)

lemma permit_success_not_blamed: "permit_success e c p = Some (e', c') \<Longrightarrow> not_blamed c c'"
  by (auto simp: permit_success_eq circuit_success_def release_in_flight_def not_blamed_def Let_def
      bind_eq_Some_conv split: if_splits)

lemma permit_drop_not_blamed: "permit_drop e c p = Some (e', c') \<Longrightarrow> not_blamed c c'"
  by (auto simp: permit_drop_def release_probe_def not_blamed_def bind_eq_Some_conv split: if_splits)

lemma resolve_not_blamed:
  "resolve out e h p a now = Some (e', h') \<Longrightarrow> out \<noteq> Failure \<Longrightarrow> endpoint_not_blamed h h'"
  by (cases out)
    (auto simp: resolve_def endpoint_success_def endpoint_neutral_def endpoint_not_blamed_def
      bind_eq_Some_conv split: option.splits if_splits
      dest: permit_success_not_blamed permit_drop_not_blamed)

lemma not_blamed_trans:
  "not_blamed a b \<Longrightarrow> not_blamed b c \<Longrightarrow> not_blamed a c"
  "endpoint_not_blamed h i \<Longrightarrow> endpoint_not_blamed i j \<Longrightarrow> endpoint_not_blamed h j"
  by (auto simp: not_blamed_def endpoint_not_blamed_def)

text \<open>\<open>blames B s s'\<close>: going from \<open>s\<close> to \<open>s'\<close> holds a failure at most against the layers in \<open>B\<close>.\<close>

datatype layer = L_Credential | L_Endpoint | L_Proxy | L_EgressPath | L_CandidatePath

definition blames :: "layer set \<Rightarrow> health_state \<Rightarrow> health_state \<Rightarrow> bool" where
  "blames B s s' \<longleftrightarrow>
     (L_Credential \<notin> B \<longrightarrow> hs_credential s' = hs_credential s) \<and>
     (L_Endpoint \<notin> B \<longrightarrow> endpoint_not_blamed (hs_endpoint s) (hs_endpoint s')) \<and>
     (L_Proxy \<notin> B \<longrightarrow> not_blamed (hs_proxy s) (hs_proxy s')) \<and>
     (L_EgressPath \<notin> B \<longrightarrow> endpoint_not_blamed (hs_egress_path s) (hs_egress_path s')) \<and>
     (L_CandidatePath \<notin> B \<longrightarrow> endpoint_not_blamed (hs_candidate_path s) (hs_candidate_path s'))"

lemma blames_trans: "blames B s s1 \<Longrightarrow> blames C s1 s2 \<Longrightarrow> blames (B \<union> C) s s2"
  unfolding blames_def by (intro conjI impI; simp; blast intro: not_blamed_trans)

definition blame_of :: "layer \<Rightarrow> outcome \<Rightarrow> layer set" where
  "blame_of l out = (if out = Failure then {l} else {})"

lemma blame_of_simps [simp]:
  "blame_of l Failure = {l}" "blame_of l Success = {}" "blame_of l Neutral = {}"
  by (simp_all add: blame_of_def)

lemma resolve_blames:
  "resolve_endpoint out a now s = Some s' \<Longrightarrow> blames (blame_of L_Endpoint out) s s'"
  "resolve_egress out a now s = Some s' \<Longrightarrow> blames (blame_of L_EgressPath out) s s'"
  "resolve_candidate out a now s = Some s' \<Longrightarrow> blames (blame_of L_CandidatePath out) s s'"
  "resolve_proxy out a now s = Some s' \<Longrightarrow> blames (blame_of L_Proxy out) s s'"
  by (auto simp: resolve_endpoint_def resolve_egress_def resolve_candidate_def resolve_proxy_def
      proxy_success_def proxy_neutral_def bind_eq_Some_conv blames_def blame_of_def
      split: outcome.splits option.splits
      dest: resolve_not_blamed permit_success_not_blamed permit_drop_not_blamed)

text \<open>Which layers each outcome of an attempt can be held against.\<close>

definition upstream_blame :: "upstream_error_classification \<Rightarrow> layer set" where
  "upstream_blame c =
     (case uc_attribution c of
        UA_Endpoint \<Rightarrow> {L_Endpoint}
      | UA_EgressPath \<Rightarrow> {L_EgressPath}
      | UA_RouteOperation \<Rightarrow> {L_CandidatePath}
      | UA_Unattributed \<Rightarrow> if uc_kind c = UK_InvalidRequest then {} else {L_CandidatePath}
      | _ \<Rightarrow> {L_Credential})"

fun transport_blame :: "transport_failure_scope \<Rightarrow> layer set" where
  "transport_blame TF_Endpoint = {L_Endpoint}"
| "transport_blame TF_Proxy = {L_Proxy}"
| "transport_blame TF_EgressPath = {L_EgressPath, L_CandidatePath}"
| "transport_blame TF_Unattributed = {L_CandidatePath}"

lemma blames_mono: "blames B s s' \<Longrightarrow> B \<subseteq> C \<Longrightarrow> blames C s s'"
  unfolding blames_def by blast

lemma blames_trans3:
  assumes "blames A s s1" "blames B s1 s2" "blames C s2 s3" "A \<union> B \<union> C \<subseteq> D"
  shows "blames D s s3"
  using blames_trans [OF blames_trans [OF assms(1,2)] assms(3)] assms(4) by (rule blames_mono)

lemma resolve_upstream_blames:
  assumes "resolve_upstream a c now s = Some s'"
  shows "blames (upstream_blame c - {L_Credential}) s s'"
proof -
  define cand where "cand =
    (case uc_attribution c of
       UA_RouteOperation \<Rightarrow> Failure
     | UA_Unattributed \<Rightarrow> if uc_kind c = UK_InvalidRequest then Neutral else Failure
     | _ \<Rightarrow> Success)"
  define egress where "egress = (if uc_attribution c = UA_Unattributed then Neutral else Success)"
  consider (endpoint) "uc_attribution c = UA_Endpoint" | (egress) "uc_attribution c = UA_EgressPath"
    | (other) "do { s \<leftarrow> resolve_endpoint Neutral a now s; s \<leftarrow> resolve_egress egress a now s;
                    resolve_candidate cand a now s } = Some s'"
      "blame_of L_EgressPath egress \<union> blame_of L_CandidatePath cand \<subseteq> upstream_blame c - {L_Credential}"
    using assms
    by (cases "uc_attribution c"; cases "uc_kind c = UK_InvalidRequest")
      (simp_all add: resolve_upstream_def cand_def egress_def upstream_blame_def)
  then show ?thesis
  proof cases
    case endpoint
    then obtain s1 s2 where r: "resolve_egress Neutral a now s = Some s1"
        "resolve_candidate Neutral a now s1 = Some s2" "resolve_endpoint Failure a now s2 = Some s'"
      using assms by (auto simp: resolve_upstream_def bind_eq_Some_conv)
    from blames_trans3 [OF resolve_blames(2) [OF r(1)] resolve_blames(3) [OF r(2)]
        resolve_blames(1) [OF r(3)]] endpoint
    show ?thesis by (simp add: upstream_blame_def)
  next
    case egress
    then obtain s1 s2 where r: "resolve_endpoint Neutral a now s = Some s1"
        "resolve_candidate Neutral a now s1 = Some s2" "resolve_egress Failure a now s2 = Some s'"
      using assms by (auto simp: resolve_upstream_def bind_eq_Some_conv)
    from blames_trans3 [OF resolve_blames(1) [OF r(1)] resolve_blames(3) [OF r(2)]
        resolve_blames(2) [OF r(3)]] egress
    show ?thesis by (simp add: upstream_blame_def)
  next
    case other
    then obtain s1 s2 where r: "resolve_endpoint Neutral a now s = Some s1"
        "resolve_egress egress a now s1 = Some s2" "resolve_candidate cand a now s2 = Some s'"
      by (auto simp: bind_eq_Some_conv)
    from blames_trans3 [OF resolve_blames(1) [OF r(1)] resolve_blames(2) [OF r(2)]
        resolve_blames(3) [OF r(3)]] other(2)
    show ?thesis by simp
  qed
qed

lemma credential_record_blame:
  assumes "credential_record e h model c policy now system_now unix_now = Some (e', h')"
    "L_Credential \<notin> upstream_blame c"
  shows "h' = h"
  using assms
  by (auto simp: credential_record_def upstream_blame_def split: upstream_failure_attribution.splits)

section \<open>Properties\<close>


text \<open>
  A transport failure is held against the layer the transport names and never against the
  credential; only an egress-path failure counts against two layers, the path and the candidate
  that uses it. Dropping an attempt without an outcome is held against nobody.
\<close>

lemma transport_failure_blame:
  assumes "attempt_transport_failure a scope now s = Some s'" "attempt_drop a now s = Some d"
  shows "blames (transport_blame scope) s s' \<and> blames {} s d"
proof
  show "blames (transport_blame scope) s s'"
  proof (cases scope)
    case TF_Endpoint
    then show ?thesis
      using assms(1) unfolding attempt_transport_failure_def
      by (auto simp: bind_eq_Some_conv dest!: resolve_blames) (metis Un_empty_left blames_trans)
  next
    case TF_Proxy
    then show ?thesis
      using assms(1) unfolding attempt_transport_failure_def
      by (auto simp: bind_eq_Some_conv dest!: resolve_blames) (metis Un_empty_left blames_trans)
  next
    case TF_EgressPath
    then show ?thesis
      using assms(1) unfolding attempt_transport_failure_def
      by (auto simp: bind_eq_Some_conv dest!: resolve_blames)
        (metis Un_empty_left Un_insert_left blames_trans)
  next
    case TF_Unattributed
    then show ?thesis
      using assms(1) unfolding attempt_transport_failure_def
      by (auto simp: bind_eq_Some_conv dest!: resolve_blames) (metis Un_empty_left blames_trans)
  qed
  show "blames {} s d"
    using assms(2) unfolding attempt_drop_def
    by (auto simp: bind_eq_Some_conv dest!: resolve_blames) (metis Un_empty_left blames_trans)
qed

text \<open>A state in which nothing has failed yet, and an attempt on it, for the examples.\<close>

definition quiet_circuit :: "nat \<Rightarrow> circuit" where
  "quiet_circuit slot =
     \<lparr> ci_failure_times = [], ci_open_until = None, ci_half_open_in_flight = 0,
       ci_last_failure_at = None, ci_wake = slot \<rparr>"

definition quiet_endpoint :: "nat \<Rightarrow> endpoint_health" where
  "quiet_endpoint slot =
     \<lparr> eh_circuit = quiet_circuit slot, eh_transient_until = None, eh_transient_wake = Suc slot \<rparr>"

definition quiet_state :: health_state where
  "quiet_state =
     \<lparr> hs_epoch = epoch_new, hs_credential = cooling_credential, hs_endpoint = quiet_endpoint 3,
       hs_proxy = quiet_circuit 5, hs_egress_path = quiet_endpoint 6,
       hs_candidate_path = quiet_endpoint 8 \<rparr>"

definition quiet_attempt :: attempt_health where
  "quiet_attempt =
     (let p = Some \<lparr> cp_half_open = False, cp_resolved = False, cp_started_at = 2 \<rparr>
      in \<lparr> ah_model = ''m'', ah_endpoint = p, ah_proxy = p, ah_egress_path = p,
           ah_candidate_path = p, ah_policy = policy_from_settings 30, ah_started_at = 2 \<rparr>)"

lemmas attempt_eval =
  quiet_state_def quiet_attempt_def quiet_endpoint_def quiet_circuit_def circuit_eval
  resolve_endpoint_def resolve_egress_def resolve_candidate_def resolve_proxy_def resolve_def
  endpoint_transient_def endpoint_success_def endpoint_neutral_def proxy_success_def
  proxy_neutral_def permit_success_eq circuit_success_def permit_drop_def slot_cancel_def
  prepare_cancellation_def ws_cancel_def health_deadline_def policy_from_settings_def
  classification_new_def ENDPOINT_FAILURE_THRESHOLD_def permit_failure_eq


end
