(* ===== verification/Candidate_Health.thy ===== *)
theory Candidate_Health
  imports Candidate_State Attempt_Health
begin

text \<open>
  Acquiring everything an attempt needs: \<open>RouteCandidate::health_availability\<close> and
  \<open>RouteCandidate::acquire_health\<close> in \<open>crates/runtime/src/routing/candidates/route.rs\<close>.

  Four permits are acquired one after the other; when one is refused the ones acquired before are
  dropped. The clock reading is the same for all checks of one call.
\<close>

record candidate_health_error =
  che_kind :: credential_filter_kind
  che_source :: health_acquire_error

definition candidate_health_error_new ::
  "credential_filter_kind \<Rightarrow> health_acquire_error \<Rightarrow> candidate_health_error" where
  "candidate_health_error_new kind source = \<lparr> che_kind = kind, che_source = source \<rparr>"

text \<open>\<open>Result::map_err\<close> with the error wrapped.\<close>

definition filtered_as ::
  "credential_filter_kind \<Rightarrow> health_acquire_error + 'a \<Rightarrow> candidate_health_error + 'a" where
  "filtered_as kind r =
     (case r of Inl err \<Rightarrow> Inl (candidate_health_error_new kind err) | Inr a \<Rightarrow> Inr a)"

definition and_then :: "'e + 'a \<Rightarrow> ('a \<Rightarrow> 'e + 'b) \<Rightarrow> 'e + 'b" where
  "and_then r f = (case r of Inl err \<Rightarrow> Inl err | Inr a \<Rightarrow> f a)"

text \<open>The read-only checks of endpoint, proxy and paths, in the order of the code.\<close>

definition paths_availability ::
  "health_state \<Rightarrow> route_candidate \<Rightarrow> reliability_policy \<Rightarrow> instant \<Rightarrow> candidate_health_error + unit" where
  "paths_availability s c policy now =
     and_then (if rc_endpoint_health c = None then Inr ()
               else filtered_as FK_EndpointHealth (endpoint_availability (hs_endpoint s) policy now)) (\<lambda>_.
     and_then (if rc_proxy_health c = None then Inr ()
               else filtered_as FK_ProxyHealth (proxy_availability (hs_proxy s) policy now)) (\<lambda>_.
     and_then (filtered_as FK_EgressPathHealth
                 (endpoint_availability (hs_egress_path s) policy now)) (\<lambda>_.
     filtered_as FK_CandidateHealth (endpoint_availability (hs_candidate_path s) policy now))))"

definition health_availability ::
  "health_state \<Rightarrow> route_candidate \<Rightarrow> reliability_policy \<Rightarrow> instant \<Rightarrow>
   (health_state \<times> (candidate_health_error + unit)) option" where
  "health_availability s c policy now =
     do { (e, h, result) \<leftarrow> credential_availability (hs_epoch s) (hs_credential s) (rc_upstream_model c) now;
          let s = s\<lparr>hs_epoch := e, hs_credential := h\<rparr>;
          Some (s, and_then (filtered_as FK_CredentialHealth result)
                     (\<lambda>_. paths_availability s c policy now)) }"

section \<open>Acquiring\<close>

definition drop_endpoint :: "circuit_permit option \<Rightarrow> health_state \<Rightarrow> health_state option" where
  "drop_endpoint p s =
     do { (e, h) \<leftarrow> endpoint_neutral (hs_epoch s) (hs_endpoint s) p;
          Some (s\<lparr>hs_epoch := e, hs_endpoint := h\<rparr>) }"

definition drop_proxy :: "circuit_permit option \<Rightarrow> health_state \<Rightarrow> health_state option" where
  "drop_proxy p s =
     do { (e, c) \<leftarrow> proxy_neutral (hs_epoch s) (hs_proxy s) p;
          Some (s\<lparr>hs_epoch := e, hs_proxy := c\<rparr>) }"

definition drop_egress :: "circuit_permit \<Rightarrow> health_state \<Rightarrow> health_state option" where
  "drop_egress p s =
     do { (e, h) \<leftarrow> endpoint_neutral (hs_epoch s) (hs_egress_path s) (Some p);
          Some (s\<lparr>hs_epoch := e, hs_egress_path := h\<rparr>) }"

definition acquire_endpoint ::
  "health_state \<Rightarrow> route_candidate \<Rightarrow> reliability_policy \<Rightarrow> instant \<Rightarrow>
   health_state \<times> (candidate_health_error + circuit_permit option)" where
  "acquire_endpoint s c policy now =
     (case rc_endpoint_health c of
        None \<Rightarrow> (s, Inr None)
      | Some _ \<Rightarrow>
          (let (h, r) = endpoint_try_acquire (hs_endpoint s) policy now
           in (s\<lparr>hs_endpoint := h\<rparr>, filtered_as FK_EndpointHealth (map_sum (\<lambda>err. err) Some r))))"

definition acquire_proxy ::
  "health_state \<Rightarrow> route_candidate \<Rightarrow> reliability_policy \<Rightarrow> instant \<Rightarrow>
   health_state \<times> (candidate_health_error + circuit_permit option)" where
  "acquire_proxy s c policy now =
     (case rc_proxy_health c of
        None \<Rightarrow> (s, Inr None)
      | Some _ \<Rightarrow>
          (let (p, r) = proxy_try_acquire (hs_proxy s) policy now
           in (s\<lparr>hs_proxy := p\<rparr>, filtered_as FK_ProxyHealth (map_sum (\<lambda>err. err) Some r))))"

definition acquire_paths ::
  "health_state \<Rightarrow> route_candidate \<Rightarrow> reliability_policy \<Rightarrow> instant \<Rightarrow>
   (health_state \<times> (candidate_health_error + attempt_health)) option" where
  "acquire_paths s c policy now =
     (case acquire_endpoint s c policy now of
        (s, Inl err) \<Rightarrow> Some (s, Inl err)
      | (s, Inr endpoint) \<Rightarrow>
     (case acquire_proxy s c policy now of
        (s, Inl err) \<Rightarrow> do { s \<leftarrow> drop_endpoint endpoint s; Some (s, Inl err) }
      | (s, Inr proxy) \<Rightarrow>
     (case endpoint_try_acquire (hs_egress_path s) policy now of
        (h, Inl err) \<Rightarrow>
          do { s \<leftarrow> drop_endpoint endpoint (s\<lparr>hs_egress_path := h\<rparr>);
               s \<leftarrow> drop_proxy proxy s;
               Some (s, Inl (candidate_health_error_new FK_EgressPathHealth err)) }
      | (h, Inr egress_path) \<Rightarrow>
     (let s = s\<lparr>hs_egress_path := h\<rparr> in
      case endpoint_try_acquire (hs_candidate_path s) policy now of
        (h, Inl err) \<Rightarrow>
          do { s \<leftarrow> drop_endpoint endpoint (s\<lparr>hs_candidate_path := h\<rparr>);
               s \<leftarrow> drop_proxy proxy s;
               s \<leftarrow> drop_egress egress_path s;
               Some (s, Inl (candidate_health_error_new FK_CandidateHealth err)) }
      | (h, Inr candidate_path) \<Rightarrow>
          Some (s\<lparr>hs_candidate_path := h\<rparr>,
                Inr \<lparr> ah_model = rc_upstream_model c, ah_endpoint = endpoint, ah_proxy = proxy,
                      ah_egress_path = Some egress_path, ah_candidate_path = Some candidate_path,
                      ah_policy = policy, ah_started_at = now \<rparr>)))))"

definition acquire_health ::
  "health_state \<Rightarrow> route_candidate \<Rightarrow> reliability_policy \<Rightarrow> instant \<Rightarrow>
   (health_state \<times> (candidate_health_error + attempt_health)) option" where
  "acquire_health s c policy now =
     do { (e, h, result) \<leftarrow> credential_availability (hs_epoch s) (hs_credential s) (rc_upstream_model c) now;
          let s = s\<lparr>hs_epoch := e, hs_credential := h\<rparr>;
          case filtered_as FK_CredentialHealth result of
            Inl err \<Rightarrow> Some (s, Inl err)
          | Inr _ \<Rightarrow> acquire_paths s c policy now }"

section \<open>Probes\<close>

text \<open>The four circuits of a state and the permits of an attempt on them.\<close>

definition probes :: "health_state \<Rightarrow> nat list" where
  "probes s =
     [ci_half_open_in_flight (eh_circuit (hs_endpoint s)), ci_half_open_in_flight (hs_proxy s),
      ci_half_open_in_flight (eh_circuit (hs_egress_path s)),
      ci_half_open_in_flight (eh_circuit (hs_candidate_path s))]"

fun held :: "circuit_permit option \<Rightarrow> nat" where
  "held None = 0"
| "held (Some p) = (if cp_half_open p \<and> \<not> cp_resolved p then 1 else 0)"

definition attempt_probes :: "attempt_health \<Rightarrow> nat list" where
  "attempt_probes a =
     [held (ah_endpoint a), held (ah_proxy a), held (ah_egress_path a), held (ah_candidate_path a)]"

lemma circuit_acquire_probes:
  assumes "circuit_try_acquire c now n = (c', r)"
  shows "ci_half_open_in_flight c' =
     ci_half_open_in_flight c + (case r of Inl _ \<Rightarrow> 0 | Inr p \<Rightarrow> held (Some p))"
  using assms by (auto simp: circuit_try_acquire_def split: option.splits if_splits)

lemma endpoint_acquire_probes:
  assumes "endpoint_try_acquire h policy now = (h', r)"
  shows "ci_half_open_in_flight (eh_circuit h') =
     ci_half_open_in_flight (eh_circuit h) + (case r of Inl _ \<Rightarrow> 0 | Inr p \<Rightarrow> held (Some p))"
  using assms circuit_acquire_probes
  by (fastforce simp: endpoint_try_acquire_def split: sum.splits prod.splits)

lemma proxy_acquire_probes:
  assumes "proxy_try_acquire c policy now = (c', r)"
  shows "ci_half_open_in_flight c' =
     ci_half_open_in_flight c + (case r of Inl _ \<Rightarrow> 0 | Inr p \<Rightarrow> held (Some p))"
  using assms circuit_acquire_probes
  by (fastforce simp: proxy_try_acquire_def split: sum.splits prod.splits)

lemma permit_drop_probes:
  "permit_drop e c p = Some (e', c') \<Longrightarrow>
   ci_half_open_in_flight c' = ci_half_open_in_flight c - held (Some p)"
  by (auto simp: permit_drop_def release_probe_def bind_eq_Some_conv split: if_splits)

lemma endpoint_neutral_probes:
  "endpoint_neutral e h p = Some (e', h') \<Longrightarrow>
   ci_half_open_in_flight (eh_circuit h') = ci_half_open_in_flight (eh_circuit h) - held p"
  by (auto simp: endpoint_neutral_def bind_eq_Some_conv dest!: permit_drop_probes split: option.splits)

lemma proxy_neutral_probes:
  "proxy_neutral e c p = Some (e', c') \<Longrightarrow>
   ci_half_open_in_flight c' = ci_half_open_in_flight c - held p"
  by (auto simp: proxy_neutral_def dest!: permit_drop_probes split: option.splits)

lemma acquire_endpoint_probes:
  assumes "acquire_endpoint s c policy now = (s', r)"
  shows "\<exists>h. s' = s\<lparr>hs_endpoint := h\<rparr> \<and>
     ci_half_open_in_flight (eh_circuit h) =
       ci_half_open_in_flight (eh_circuit (hs_endpoint s)) + (case r of Inl _ \<Rightarrow> 0 | Inr p \<Rightarrow> held p)"
proof (cases "rc_endpoint_health c")
  case None
  then show ?thesis using assms by (auto simp: acquire_endpoint_def intro: exI [of _ "hs_endpoint s"])
next
  case (Some a)
  obtain h q where q: "endpoint_try_acquire (hs_endpoint s) policy now = (h, q)" by fastforce
  show ?thesis
    using assms Some endpoint_acquire_probes [OF q]
    by (auto simp: acquire_endpoint_def q filtered_as_def split: sum.splits intro!: exI [of _ h])
qed

lemma acquire_proxy_probes:
  assumes "acquire_proxy s c policy now = (s', r)"
  shows "\<exists>p. s' = s\<lparr>hs_proxy := p\<rparr> \<and>
     ci_half_open_in_flight p =
       ci_half_open_in_flight (hs_proxy s) + (case r of Inl _ \<Rightarrow> 0 | Inr q \<Rightarrow> held q)"
proof (cases "rc_proxy_health c")
  case None
  then show ?thesis using assms by (auto simp: acquire_proxy_def intro: exI [of _ "hs_proxy s"])
next
  case (Some a)
  obtain p q where q: "proxy_try_acquire (hs_proxy s) policy now = (p, q)" by fastforce
  show ?thesis
    using assms Some proxy_acquire_probes [OF q]
    by (auto simp: acquire_proxy_def q filtered_as_def split: sum.splits intro!: exI [of _ p])
qed

lemma drop_probes:
  "drop_endpoint p s = Some s' \<Longrightarrow> \<exists>e h. s' = s\<lparr>hs_epoch := e, hs_endpoint := h\<rparr> \<and>
     ci_half_open_in_flight (eh_circuit h) = ci_half_open_in_flight (eh_circuit (hs_endpoint s)) - held p"
  "drop_proxy p s = Some s' \<Longrightarrow> \<exists>e c. s' = s\<lparr>hs_epoch := e, hs_proxy := c\<rparr> \<and>
     ci_half_open_in_flight c = ci_half_open_in_flight (hs_proxy s) - held p"
  "drop_egress q s = Some s' \<Longrightarrow> \<exists>e h. s' = s\<lparr>hs_epoch := e, hs_egress_path := h\<rparr> \<and>
     ci_half_open_in_flight (eh_circuit h) =
       ci_half_open_in_flight (eh_circuit (hs_egress_path s)) - held (Some q)"
  by (auto simp: drop_endpoint_def drop_proxy_def drop_egress_def bind_eq_Some_conv
      dest!: endpoint_neutral_probes proxy_neutral_probes simp del: held.simps)

lemma acquire_paths_probes:
  assumes "acquire_paths s c policy now = Some (s', result)"
  shows "case result of
           Inl _ \<Rightarrow> probes s' = probes s
         | Inr a \<Rightarrow> probes s' = map2 (+) (probes s) (attempt_probes a)"
proof -
  obtain s1 r1 where a1: "acquire_endpoint s c policy now = (s1, r1)" by fastforce
  obtain s2 r2 where a2: "acquire_proxy s1 c policy now = (s2, r2)" by fastforce
  obtain h3 r3 where a3: "endpoint_try_acquire (hs_egress_path s2) policy now = (h3, r3)" by fastforce
  obtain h4 r4 where a4: "endpoint_try_acquire (hs_candidate_path s2) policy now = (h4, r4)" by fastforce
  note p1 = acquire_endpoint_probes [OF a1] and p2 = acquire_proxy_probes [OF a2]
    and p3 = endpoint_acquire_probes [OF a3] and p4 = endpoint_acquire_probes [OF a4]
  show ?thesis
    using assms p1 p2 p3 p4
    by (auto simp: acquire_paths_def a1 a2 a3 a4 Let_def probes_def attempt_probes_def
        bind_eq_Some_conv dest!: drop_probes split: sum.split_asm)
qed

lemma filtered_as_forget:
  "map_sum (\<lambda>err. err) (\<lambda>_. ()) (filtered_as k (map_sum (\<lambda>err. err) f r)) =
   filtered_as k (map_sum (\<lambda>err. err) (\<lambda>_. ()) r)"
  by (cases r) (simp_all add: filtered_as_def)

lemma acquire_paths_agrees:
  assumes "acquire_paths s c policy now = Some (s', result)"
  shows "paths_availability s c policy now = map_sum (\<lambda>err. err) (\<lambda>_. ()) result"
proof -
  obtain s1 r1 where a1: "acquire_endpoint s c policy now = (s1, r1)" by fastforce
  obtain s2 r2 where a2: "acquire_proxy s1 c policy now = (s2, r2)" by fastforce
  obtain h3 r3 where a3: "endpoint_try_acquire (hs_egress_path s2) policy now = (h3, r3)" by fastforce
  obtain h4 r4 where a4: "endpoint_try_acquire (hs_candidate_path s2) policy now = (h4, r4)" by fastforce
  have s1: "hs_proxy s1 = hs_proxy s" "hs_egress_path s1 = hs_egress_path s"
    "hs_candidate_path s1 = hs_candidate_path s"
    using acquire_endpoint_probes [OF a1] by auto
  have s2: "hs_egress_path s2 = hs_egress_path s" "hs_candidate_path s2 = hs_candidate_path s"
    using acquire_proxy_probes [OF a2] s1 by auto
  have e: "(if rc_endpoint_health c = None then Inr ()
       else filtered_as FK_EndpointHealth (endpoint_availability (hs_endpoint s) policy now)) =
     map_sum (\<lambda>err. err) (\<lambda>_. ()) r1"
    using a1 by (auto simp: acquire_endpoint_def availability_eq filtered_as_forget
        case_prod_unfold Let_def split: option.split_asm)
  have p: "(if rc_proxy_health c = None then Inr ()
       else filtered_as FK_ProxyHealth (proxy_availability (hs_proxy s) policy now)) =
     map_sum (\<lambda>err. err) (\<lambda>_. ()) r2"
    using a2 by (auto simp: acquire_proxy_def s1 availability_eq filtered_as_forget
        case_prod_unfold Let_def split: option.split_asm)
  have q: "endpoint_availability (hs_egress_path s) policy now = map_sum (\<lambda>err. err) (\<lambda>_. ()) r3"
    "endpoint_availability (hs_candidate_path s) policy now = map_sum (\<lambda>err. err) (\<lambda>_. ()) r4"
    using a3 a4 by (simp_all add: availability_eq s2)
  show ?thesis
    using assms
    by (auto simp: paths_availability_def and_then_def e p q acquire_paths_def a1 a2 a3 a4 Let_def
        filtered_as_def bind_eq_Some_conv split: sum.split_asm sum.split)
qed

lemma probes_credential [simp]: "probes (s\<lparr>hs_epoch := e, hs_credential := h\<rparr>) = probes s"
  by (simp add: probes_def)

lemma acquire_health_cases:
  assumes "acquire_health s c policy now = Some (s', result)"
  obtains e h r where
    "credential_availability (hs_epoch s) (hs_credential s) (rc_upstream_model c) now = Some (e, h, r)"
    "case filtered_as FK_CredentialHealth r of
       Inl err \<Rightarrow> s' = s\<lparr>hs_epoch := e, hs_credential := h\<rparr> \<and> result = Inl err
     | Inr _ \<Rightarrow> acquire_paths (s\<lparr>hs_epoch := e, hs_credential := h\<rparr>) c policy now = Some (s', result)"
proof -
  obtain e h r where cr: "credential_availability (hs_epoch s) (hs_credential s)
      (rc_upstream_model c) now = Some (e, h, r)"
    using assms by (auto simp: acquire_health_def bind_eq_Some_conv)
  show thesis
    by (rule that [OF cr])
      (use assms cr in \<open>auto simp: acquire_health_def Let_def split: sum.split_asm sum.split\<close>)
qed

text \<open>An endpoint that may be probed behind an egress path that is blocked, for the examples.\<close>

definition probing_state :: health_state where
  "probing_state =
     quiet_state\<lparr>hs_credential := cooling_credential\<lparr>ch_model_cooldowns := [], ch_cooldown_until := None,
                                      ch_quota_exhaustion := None\<rparr>,
                 hs_endpoint := (quiet_endpoint 3)\<lparr>eh_circuit := (quiet_circuit 3)\<lparr>ci_open_until := Some 3\<rparr>\<rparr>,
                 hs_egress_path := (quiet_endpoint 6)\<lparr>eh_transient_until := Some 100\<rparr>\<rparr>"

definition probing_candidate :: route_candidate where
  "probing_candidate = (sample_candidate 1)\<lparr>rc_endpoint_health := Some 0\<rparr>"

lemma probing_refused:
  "\<exists>s. acquire_health probing_state probing_candidate (policy_from_settings 30) 7 =
     Some (s, Inl (candidate_health_error_new FK_EgressPathHealth (Temporary (outage 100))))"
  "\<exists>s r. health_availability probing_state probing_candidate (policy_from_settings 30) 7 = Some (s, r)"
  by (simp_all add: acquire_health_def health_availability_def probing_state_def
      probing_candidate_def sample_candidate_def quiet_state_def quiet_endpoint_def
      quiet_circuit_def cooling_credential_def credential_availability_def auth_availability_def
      routing_availability_def prune_expired_def expired_models_def blocks_def
      filtered_as_def acquire_paths_def acquire_endpoint_def acquire_proxy_def
      endpoint_try_acquire_def check_transient_def circuit_try_acquire_def
      policy_from_settings_def HALF_OPEN_MAX_PROBES_def drop_endpoint_def drop_proxy_def
      endpoint_neutral_def proxy_neutral_def permit_drop_def release_probe_def
      advance_def advance_claim_def advance_publish_def epoch_new_def checked_add_u64_def
      u64_max_def Let_def)

section \<open>Properties\<close>

text \<open>C14. Acquiring the health of a candidate is all or nothing: when any of the five checks refuses,
  every probe slot taken by the checks before it is given back, and when all agree the attempt
  holds exactly the slots that were taken.\<close>

theorem acquire_all_or_nothing:
  assumes "acquire_health s c policy now = Some (s', result)"
  shows "case result of
           Inl _ \<Rightarrow> probes s' = probes s
         | Inr a \<Rightarrow> probes s' = map2 (+) (probes s) (attempt_probes a)"
proof -
  from assms obtain e h r where cr:
      "credential_availability (hs_epoch s) (hs_credential s) (rc_upstream_model c) now = Some (e, h, r)"
    and r: "case filtered_as FK_CredentialHealth r of
       Inl err \<Rightarrow> s' = s\<lparr>hs_epoch := e, hs_credential := h\<rparr> \<and> result = Inl err
     | Inr _ \<Rightarrow> acquire_paths (s\<lparr>hs_epoch := e, hs_credential := h\<rparr>) c policy now = Some (s', result)"
    by (rule acquire_health_cases)
  show ?thesis
  proof (cases "filtered_as FK_CredentialHealth r")
    case (Inl err)
    then show ?thesis using r by simp
  next
    case (Inr u)
    then show ?thesis
      using r acquire_paths_probes [of "s\<lparr>hs_epoch := e, hs_credential := h\<rparr>" c policy now s' result]
      by (cases result) simp_all
  qed
qed

theorem acquire_all_or_nothing_witness:
  "\<exists>s err. acquire_health probing_state probing_candidate (policy_from_settings 30) 7 =
     Some (s, Inl err) \<and> che_kind err = FK_EgressPathHealth \<and> probes s = [0, 0, 0, 0]"
proof -
  obtain s where s: "acquire_health probing_state probing_candidate (policy_from_settings 30) 7 =
     Some (s, Inl (candidate_health_error_new FK_EgressPathHealth (Temporary (outage 100))))"
    using probing_refused(1) by blast
  have "probes s = [0, 0, 0, 0]"
    using acquire_all_or_nothing [OF s]
    by (simp add: probes_def probing_state_def quiet_state_def quiet_endpoint_def quiet_circuit_def)
  then show ?thesis using s by (auto simp: candidate_health_error_new_def)
qed

text \<open>C39. The check that selection makes and the acquisition that follows it use the same rules: at
  the same instant on the same state they refuse for the same reason, reported under the same
  filter, or both succeed.\<close>

theorem acquire_agrees_with_availability:
  assumes "acquire_health s c policy now = Some (s', result)"
    and "health_availability s c policy now = Some (s'', available)"
  shows "available = map_sum (\<lambda>err. err) (\<lambda>_. ()) result"
proof -
  from assms(1) obtain e h r where cr:
      "credential_availability (hs_epoch s) (hs_credential s) (rc_upstream_model c) now = Some (e, h, r)"
    and r: "case filtered_as FK_CredentialHealth r of
       Inl err \<Rightarrow> s' = s\<lparr>hs_epoch := e, hs_credential := h\<rparr> \<and> result = Inl err
     | Inr _ \<Rightarrow> acquire_paths (s\<lparr>hs_epoch := e, hs_credential := h\<rparr>) c policy now = Some (s', result)"
    by (rule acquire_health_cases)
  have av: "available = and_then (filtered_as FK_CredentialHealth r)
      (\<lambda>_. paths_availability (s\<lparr>hs_epoch := e, hs_credential := h\<rparr>) c policy now)"
    using assms(2) cr by (auto simp: health_availability_def Let_def)
  show ?thesis
    using r acquire_paths_agrees [of "s\<lparr>hs_epoch := e, hs_credential := h\<rparr>" c policy now s' result]
    by (cases "filtered_as FK_CredentialHealth r") (simp_all add: av and_then_def)
qed

theorem acquire_agrees_with_availability_witness:
  "\<exists>s err. health_availability probing_state probing_candidate (policy_from_settings 30) 7 =
     Some (s, Inl err) \<and> che_kind err = FK_EgressPathHealth"
proof -
  obtain s1 s2 r where s:
    "acquire_health probing_state probing_candidate (policy_from_settings 30) 7 =
       Some (s1, Inl (candidate_health_error_new FK_EgressPathHealth (Temporary (outage 100))))"
    "health_availability probing_state probing_candidate (policy_from_settings 30) 7 = Some (s2, r)"
    using probing_refused by blast
  show ?thesis
    using acquire_agrees_with_availability [OF s] s(2) by (auto simp: candidate_health_error_new_def)
qed

end
