(* ===== verification/Retry_Budget.thy ===== *)
theory Retry_Budget
  imports Candidate_State Endpoint_Health
begin

text \<open>
  How often and how soon one request may be retried:
  \<open>crates/runtime/src/public_request/retry/budget.rs\<close>.

  The counters are \<open>u32\<close> in the code. They stay below the limits of the policy, which are \<open>u32\<close>
  themselves, so they are natural numbers here. The system clock counts nanoseconds since the
  epoch; an operation that reads it twice takes both readings.
\<close>

section \<open>State\<close>

record retry_budget =
  rb_policy :: reliability_policy
  rb_deadline :: instant
  rb_attempts :: nat
  rb_switches :: nat
  rb_last_credential :: "routing_credential_id option"
  rb_attempts_by_credential :: "routing_credential_id \<rightharpoonup> nat"
  rb_attempts_by_candidate :: "candidate_ident \<rightharpoonup> nat"

definition budget_new ::
  "reliability_policy \<Rightarrow> protocol_operation \<Rightarrow> execution_profile \<Rightarrow> instant \<Rightarrow> retry_budget" where
  "budget_new policy operation profile now =
     \<lparr> rb_policy = policy,
       rb_deadline = now + retry_budget_limit operation profile (rp_precommit_total_budget policy),
       rb_attempts = 0, rb_switches = 0, rb_last_credential = None,
       rb_attempts_by_credential = Map.empty, rb_attempts_by_candidate = Map.empty \<rparr>"

definition remaining :: "retry_budget \<Rightarrow> instant \<Rightarrow> duration" where
  "remaining b now = duration_since (rb_deadline b) now"

definition switches_credential :: "retry_budget \<Rightarrow> routing_credential_id \<Rightarrow> bool" where
  "switches_credential b credential_id =
     (case rb_last_credential b of None \<Rightarrow> False | Some previous \<Rightarrow> previous \<noteq> credential_id)"

definition can_register_attempt :: "retry_budget \<Rightarrow> routing_credential_id \<Rightarrow> instant \<Rightarrow> bool" where
  "can_register_attempt b credential_id now \<longleftrightarrow>
     (if rp_max_total_attempts (rb_policy b) \<le> rb_attempts b \<or> remaining b now = 0 then False
      else if switches_credential b credential_id \<and>
              rp_max_credential_switches (rb_policy b) \<le> rb_switches b then False
      else or_default 0 (rb_attempts_by_credential b credential_id)
             \<le> rp_max_same_credential_retries (rb_policy b))"

definition register_attempt ::
  "retry_budget \<Rightarrow> route_candidate \<Rightarrow> instant \<Rightarrow> retry_budget \<times> nat option" where
  "register_attempt b c now =
     (let credential_id = rc_credential_id c in
      if \<not> can_register_attempt b credential_id now then (b, None)
      else
        (let b = (if switches_credential b credential_id
                  then b\<lparr>rb_switches := rb_switches b + 1\<rparr> else b);
             prior = or_default 0 (rb_attempts_by_credential b credential_id);
             candidate_attempts = or_default 0 (rb_attempts_by_candidate b (identity c));
             b = b\<lparr>rb_attempts_by_credential :=
                     (rb_attempts_by_credential b)(credential_id \<mapsto> prior + 1),
                   rb_attempts_by_candidate :=
                     (rb_attempts_by_candidate b)(identity c \<mapsto> candidate_attempts + 1),
                   rb_last_credential := Some credential_id,
                   rb_attempts := rb_attempts b + 1\<rparr>
         in (b, Some (rb_attempts b))))"

definition can_retry :: "retry_budget \<Rightarrow> instant \<Rightarrow> bool" where
  "can_retry b now \<longleftrightarrow> rb_attempts b < rp_max_total_attempts (rb_policy b) \<and> remaining b now \<noteq> 0"

definition can_wait :: "retry_budget \<Rightarrow> duration \<Rightarrow> instant \<Rightarrow> bool" where
  "can_wait b delay now \<longleftrightarrow> delay < remaining b now"

section \<open>Delays\<close>

definition duration_saturating_mul :: "duration \<Rightarrow> nat \<Rightarrow> duration" where
  "duration_saturating_mul d n = min (d * n) duration_max"

definition saturating_mul_u32 :: "nat \<Rightarrow> nat \<Rightarrow> nat" where
  "saturating_mul_u32 a b = min (a * b) u32_max"

definition saturating_add_u32 :: "nat \<Rightarrow> nat \<Rightarrow> nat" where
  "saturating_add_u32 a b = min (a + b) u32_max"

text \<open>The last cast of the code, from \<open>i64\<close> to \<open>u32\<close>, keeps the low 32 bits.\<close>

definition jitter :: "duration \<Rightarrow> nat \<Rightarrow> nat \<Rightarrow> duration" where
  "jitter delay ratio system_now =
     (if ratio = 0 \<or> delay = 0 then delay
      else
        (let nanos = system_now mod nanos_per_sec;
             width = saturating_add_u32 (saturating_mul_u32 ratio 2) 1;
             offset = int (nanos mod width) - int ratio;
             percent = nat (max (100 + offset) 0) mod 2 ^ 32
         in duration_saturating_mul delay percent div 100))"

definition delay_for_attempt_count ::
  "retry_budget \<Rightarrow> nat \<Rightarrow> retry_after_hint option \<Rightarrow> nat \<Rightarrow> nat \<Rightarrow> duration" where
  "delay_for_attempt_count b attempt_count retry_after jitter_now hint_now =
     (let exponent = min (attempt_count - 1) 31;
          multiplier = 2 ^ exponent;
          base = min (duration_saturating_mul (rp_base_delay (rb_policy b)) multiplier)
                   (rp_max_delay (rb_policy b));
          fallback = jitter base (rp_jitter_ratio (rb_policy b)) jitter_now;
          retry_after = (case retry_after of None \<Rightarrow> 0 | Some hint \<Rightarrow> delay_from hint hint_now)
      in max fallback retry_after)"

text \<open>\<open>None\<close> is the panic when the candidate was never registered.\<close>

definition next_delay ::
  "retry_budget \<Rightarrow> route_candidate \<Rightarrow> retry_after_hint option \<Rightarrow> nat \<Rightarrow> nat \<Rightarrow> duration option" where
  "next_delay b c retry_after jitter_now hint_now =
     map_option (\<lambda>candidate_attempts.
         delay_for_attempt_count b candidate_attempts retry_after jitter_now hint_now)
       (rb_attempts_by_candidate b (identity c))"

definition next_request_delay ::
  "retry_budget \<Rightarrow> retry_after_hint option \<Rightarrow> nat \<Rightarrow> nat \<Rightarrow> duration" where
  "next_request_delay b retry_after jitter_now hint_now =
     delay_for_attempt_count b (rb_attempts b) retry_after jitter_now hint_now"

section \<open>The counters\<close>

text \<open>
  What the counters mean for the list of candidates that were attempted, oldest first, and the
  limits they respect.
\<close>

fun credential_switches :: "routing_credential_id list \<Rightarrow> nat" where
  "credential_switches (x # y # xs) = (if x = y then 0 else 1) + credential_switches (y # xs)"
| "credential_switches xs = 0"

lemma credential_switches_snoc:
  "credential_switches (xs @ [y]) =
     credential_switches xs + (if xs = [] \<or> last xs = y then 0 else 1)"
  by (induction xs rule: credential_switches.induct) auto

definition tracks_attempts :: "retry_budget \<Rightarrow> route_candidate list \<Rightarrow> bool" where
  "tracks_attempts b cs \<longleftrightarrow>
     rb_attempts b = length cs \<and>
     rb_switches b = credential_switches (map rc_credential_id cs) \<and>
     rb_last_credential b = (if cs = [] then None else Some (rc_credential_id (last cs))) \<and>
     (\<forall>i. or_default 0 (rb_attempts_by_credential b i) =
            length (filter (\<lambda>c. rc_credential_id c = i) cs)) \<and>
     (\<forall>i. rb_attempts_by_candidate b i =
            (let n = length (filter (\<lambda>c. identity c = i) cs) in if n = 0 then None else Some n))"

definition within_limits :: "reliability_policy \<Rightarrow> route_candidate list \<Rightarrow> bool" where
  "within_limits policy cs \<longleftrightarrow>
     length cs \<le> rp_max_total_attempts policy \<and>
     credential_switches (map rc_credential_id cs) \<le> rp_max_credential_switches policy \<and>
     (\<forall>i. length (filter (\<lambda>c. rc_credential_id c = i) cs) \<le> rp_max_same_credential_retries policy + 1)"

lemma budget_new_tracks [inv_intros]: "tracks_attempts (budget_new policy op profile now) []"
  by (simp add: tracks_attempts_def budget_new_def)

lemma switches_credential_iff:
  "tracks_attempts b cs \<Longrightarrow>
   switches_credential b i \<longleftrightarrow> cs \<noteq> [] \<and> last (map rc_credential_id cs) \<noteq> i"
  by (auto simp: tracks_attempts_def switches_credential_def last_map)

lemma register_attempt_tracks [inv_intros]:
  assumes "tracks_attempts b cs" "register_attempt b c now = (b', Some n)"
  shows "tracks_attempts b' (cs @ [c])" "n = Suc (length cs)" "rb_policy b' = rb_policy b"
    "rb_deadline b' = rb_deadline b"
proof -
  have sw: "credential_switches (map rc_credential_id cs @ [rc_credential_id c]) =
      credential_switches (map rc_credential_id cs) +
      (if switches_credential b (rc_credential_id c) then 1 else 0)"
    using switches_credential_iff [OF assms(1)] by (auto simp: credential_switches_snoc)
  have b': "b' = b\<lparr>rb_switches := rb_switches b + (if switches_credential b (rc_credential_id c) then 1 else 0),
      rb_attempts_by_credential := (rb_attempts_by_credential b)
        (rc_credential_id c \<mapsto> or_default 0 (rb_attempts_by_credential b (rc_credential_id c)) + 1),
      rb_attempts_by_candidate := (rb_attempts_by_candidate b)
        (identity c \<mapsto> or_default 0 (rb_attempts_by_candidate b (identity c)) + 1),
      rb_last_credential := Some (rc_credential_id c), rb_attempts := rb_attempts b + 1\<rparr>"
    and n: "n = rb_attempts b + 1"
    using assms(2) by (auto simp: register_attempt_def Let_def split: if_split_asm)
  show "tracks_attempts b' (cs @ [c])"
    using assms(1) sw unfolding b' by (auto simp: tracks_attempts_def Let_def split: if_split_asm)
  show "n = Suc (length cs)" using assms(1) n by (simp add: tracks_attempts_def)
  show "rb_policy b' = rb_policy b" "rb_deadline b' = rb_deadline b" by (simp_all add: b')
qed

lemma register_attempt_limits:
  assumes "tracks_attempts b cs" "within_limits (rb_policy b) cs"
    and "register_attempt b c now = (b', Some n)"
  shows "within_limits (rb_policy b) (cs @ [c])"
proof -
  have can: "can_register_attempt b (rc_credential_id c) now"
    using assms(3) by (auto simp: register_attempt_def Let_def split: if_split_asm)
  show ?thesis
    using assms(1,2) can switches_credential_iff [OF assms(1), of "rc_credential_id c"]
    by (auto simp: within_limits_def can_register_attempt_def tracks_attempts_def
        credential_switches_snoc split: if_split_asm)
qed

section \<open>Bounds on the delay\<close>

lemma jitter_bounds:
  assumes "ratio \<le> 100" "delay * 200 \<le> duration_max"
  shows "delay * (100 - ratio) div 100 \<le> jitter delay ratio t"
    "jitter delay ratio t \<le> delay * (100 + ratio) div 100"
proof -
  show "delay * (100 - ratio) div 100 \<le> jitter delay ratio t"
    and "jitter delay ratio t \<le> delay * (100 + ratio) div 100"
  proof (atomize (full), cases "ratio = 0 \<or> delay = 0")
    case True
    then show "delay * (100 - ratio) div 100 \<le> jitter delay ratio t \<and>
        jitter delay ratio t \<le> delay * (100 + ratio) div 100"
      by (auto simp: jitter_def)
  next
    case False
    define offset where "offset = t mod nanos_per_sec mod (2 * ratio + 1)"
    have off: "offset \<le> 2 * ratio" by (simp add: offset_def less_Suc_eq_le [symmetric])
    have width: "saturating_add_u32 (saturating_mul_u32 ratio 2) 1 = 2 * ratio + 1"
      using assms(1) by (simp add: saturating_add_u32_def saturating_mul_u32_def u32_max_def)
    have percent: "nat (max (100 + (int offset - int ratio)) 0) mod 2 ^ 32 = 100 + offset - ratio"
      using assms(1) off by (simp add: nat_diff_distrib')
    have le: "100 + offset - ratio \<le> 200" using off assms(1) by linarith
    have "delay * (100 + offset - ratio) \<le> duration_max"
      using mult_le_mono2 [OF le, of delay] assms(2) by (rule order_trans)
    then have "duration_saturating_mul delay (100 + offset - ratio) = delay * (100 + offset - ratio)"
      by (simp add: duration_saturating_mul_def)
    then have j: "jitter delay ratio t = delay * (100 + offset - ratio) div 100"
      using False percent by (simp add: jitter_def width [unfolded One_nat_def] offset_def Let_def)
    have "delay * (100 - ratio) \<le> delay * (100 + offset - ratio)"
      "delay * (100 + offset - ratio) \<le> delay * (100 + ratio)"
      using off assms(1) by (auto intro!: mult_le_mono2)
    then show "delay * (100 - ratio) div 100 \<le> jitter delay ratio t \<and>
        jitter delay ratio t \<le> delay * (100 + ratio) div 100"
      unfolding j by (intro conjI div_le_mono)
  qed
qed

section \<open>Properties\<close>

text \<open>The delay before a retry is bounded on both sides for every number of attempts and every
  reading of the clock: at least 0.8 seconds, at least what the upstream asked for, and no more
  than the larger of 2.4 seconds and what the upstream asked for. The doubling never overflows.
  The upper bound is the policy's largest delay of 2 seconds plus the jitter of 20 percent.\<close>

lemma retry_delay_bounds:
  assumes "rb_policy b = policy_from_settings secs"
  shows "from_millis 800 \<le> delay_for_attempt_count b n retry_after jitter_now hint_now \<and>
         (case retry_after of None \<Rightarrow> 0 | Some hint \<Rightarrow> delay_from hint hint_now)
            \<le> delay_for_attempt_count b n retry_after jitter_now hint_now \<and>
         delay_for_attempt_count b n retry_after jitter_now hint_now
            \<le> max (from_millis 2400) (case retry_after of None \<Rightarrow> 0 | Some hint \<Rightarrow> delay_from hint hint_now)"
proof -
  define base where "base = min (duration_saturating_mul (from_secs 1) (2 ^ min (n - 1) 31)) (from_secs 2)"
  have pow: "(1::nat) \<le> 2 ^ min (n - 1) 31" by simp
  have "from_secs 1 * 1 \<le> from_secs 1 * 2 ^ min (n - 1) 31" using pow by (rule mult_le_mono2)
  then have base: "from_secs 1 \<le> base" "base \<le> from_secs 2"
    by (auto simp: base_def duration_saturating_mul_def duration_max_def u64_max_def nanos_per_sec_def)
  have small: "base * 200 \<le> duration_max"
    using base(2) by (simp add: duration_max_def u64_max_def nanos_per_sec_def)
  have "from_millis 800 \<le> jitter base 20 jitter_now" "jitter base 20 jitter_now \<le> from_millis 2400"
    using jitter_bounds [of 20 base jitter_now] small base
    by (simp_all add: nanos_per_sec_def)
  moreover have "delay_for_attempt_count b n retry_after jitter_now hint_now =
      max (jitter base 20 jitter_now)
        (case retry_after of None \<Rightarrow> 0 | Some hint \<Rightarrow> delay_from hint hint_now)"
    by (simp add: delay_for_attempt_count_def assms policy_from_settings_def BASE_DELAY_def
        MAX_DELAY_def JITTER_RATIO_def base_def Let_def)
  ultimately show ?thesis by auto
qed

end
