(* ===== verification/Retry_Decision.thy ===== *)
theory Retry_Decision
  imports Retry_Budget Attempt_Health
begin

text \<open>
  What a failed attempt means for the request: \<open>crates/runtime/src/public_request/upstream/failure.rs\<close>
  and \<open>crates/runtime/src/public_request/retry/decision.rs\<close>, with the errors they carry
  (\<open>crates/domain/src/error.rs\<close>, \<open>crates/transport/src/error.rs\<close>,
  \<open>crates/runtime/src/public_request/response/final_failure.rs\<close>).

  Constructors carry a prefix: \<open>PE\<close> public error code, \<open>TS\<close> transport stage, \<open>AF\<close> attempt failure,
  \<open>UO\<close> origin of an upstream failure, \<open>RD\<close> retry decision, \<open>TD\<close> and \<open>FS\<close> the decision and the
  failure scope that telemetry records.
\<close>

section \<open>Errors\<close>

datatype public_error_code =
    PE_Unauthorized | PE_InvalidRequest | PE_PayloadTooLarge | PE_PublicApiNotFound
  | PE_MethodNotAllowed | PE_ModelNotFound | PE_NoAvailableCredential | PE_LocalRateLimit
  | PE_SessionBindingLost | PE_UpstreamError | PE_GatewayTimeout | PE_InternalError

record public_error =
  pe_code :: public_error_code
  pe_message :: string
  pe_retry_after_seconds :: "nat option"

definition public_error_new :: "public_error_code \<Rightarrow> string \<Rightarrow> public_error" where
  "public_error_new code message =
     \<lparr> pe_code = code, pe_message = message, pe_retry_after_seconds = None \<rparr>"

datatype transport_error_stage =
    TS_Dns | TS_Tcp | TS_ProxyHandshake | TS_Tls | TS_WriteRequest | TS_AwaitHeaders | TS_ReadBody

record transport_error =
  te_stage :: transport_error_stage
  te_failure_scope :: transport_failure_scope
  te_retry_safety :: retry_safety
  te_message :: string

record upstream_error =
  ue_classification :: upstream_error_classification
  ue_official_message :: "string option"

type_synonym headers = "(string \<times> string) list"

record egress_response =
  er_status :: nat
  er_headers :: headers
  er_body :: "byte list"

datatype final_failure =
    FF_Local public_error
  | FF_Upstream egress_response error_class

definition final_failure_upstream ::
  "headers \<Rightarrow> nat \<Rightarrow> byte list \<Rightarrow> upstream_error \<Rightarrow> final_failure" where
  "final_failure_upstream hs status body upstream =
     FF_Upstream \<lparr> er_status = status, er_headers = hs, er_body = body \<rparr>
       (kind_error_class (uc_kind (ue_classification upstream)))"

section \<open>Failed attempts\<close>

datatype retry_delay_basis = CandidateAttempts | RequestAttempts

datatype upstream_failure_origin =
    UO_HttpStatus (error_body_complete: bool)
  | UO_BufferedEnvelope
  | UO_PreSemanticStreamEnvelope retry_delay_basis

fun origin_retry_delay_basis :: "upstream_failure_origin \<Rightarrow> retry_delay_basis" where
  "origin_retry_delay_basis (UO_PreSemanticStreamEnvelope basis) = basis"
| "origin_retry_delay_basis (UO_HttpStatus _) = CandidateAttempts"
| "origin_retry_delay_basis UO_BufferedEnvelope = CandidateAttempts"

datatype attempt_failure =
    AF_Transport transport_error route_candidate bool
  | AF_Upstream upstream_failure_origin nat headers "byte list" upstream_error route_candidate bool
  | AF_Public public_error

fun failure_final :: "attempt_failure \<Rightarrow> final_failure" where
  "failure_final (AF_Transport _ _ _) =
     FF_Local (public_error_new PE_UpstreamError ''upstream request failed'')"
| "failure_final (AF_Upstream origin status hs body err c bound) =
     final_failure_upstream hs status body err"
| "failure_final (AF_Public err) = FF_Local err"

fun failure_retry_safety :: "attempt_failure \<Rightarrow> retry_safety" where
  "failure_retry_safety (AF_Transport err _ _) = te_retry_safety err"
| "failure_retry_safety (AF_Upstream _ _ _ _ err _ _) = uc_retry_safety (ue_classification err)"
| "failure_retry_safety (AF_Public _) = RS_Ambiguous"

fun failure_retry_after :: "attempt_failure \<Rightarrow> retry_after_hint option" where
  "failure_retry_after (AF_Upstream _ _ _ _ err _ _) = uc_retry_after (ue_classification err)"
| "failure_retry_after (AF_Transport _ _ _) = None"
| "failure_retry_after (AF_Public _) = None"

fun failure_candidate :: "attempt_failure \<Rightarrow> route_candidate option" where
  "failure_candidate (AF_Transport _ c _) = Some c"
| "failure_candidate (AF_Upstream _ _ _ _ _ c _) = Some c"
| "failure_candidate (AF_Public _) = None"

fun failure_bound :: "attempt_failure \<Rightarrow> bool" where
  "failure_bound (AF_Transport _ _ bound) = bound"
| "failure_bound (AF_Upstream _ _ _ _ _ _ bound) = bound"
| "failure_bound (AF_Public _) = True"

fun upstream_origin :: "attempt_failure \<Rightarrow> upstream_failure_origin option" where
  "upstream_origin (AF_Upstream origin _ _ _ _ _ _) = Some origin"
| "upstream_origin (AF_Transport _ _ _) = None"
| "upstream_origin (AF_Public _) = None"

definition allows_oauth_refresh :: "upstream_error_classification \<Rightarrow> bool" where
  "allows_oauth_refresh c \<longleftrightarrow>
     uc_kind c = UK_Authentication \<and> allows_automatic_retry (uc_retry_safety c)"

fun oauth_authentication_target :: "attempt_failure \<Rightarrow> (oauth_account_id \<times> nat) option" where
  "oauth_authentication_target (AF_Upstream _ _ _ _ err c _) =
     (if \<not> allows_oauth_refresh (ue_classification err) then None
      else map_option (\<lambda>i. (i, cg_authentication_version (cb_generation (rc_binding c))))
             (oauth_account_id_of (rc_credential_id c)))"
| "oauth_authentication_target (AF_Transport _ _ _) = None"
| "oauth_authentication_target (AF_Public _) = None"

section \<open>Decisions\<close>

datatype attempt_failure_scope =
    FS_Unattributed | FS_Authentication | FS_Credential | FS_CredentialModel | FS_RouteOperation
  | FS_ExactCandidate | FS_EgressPath | FS_Proxy | FS_Endpoint

datatype attempt_retry_decision = TD_Terminal | TD_OAuthRefresh | TD_RetrySamePath | TD_Reselect

datatype retry_decision =
    RD_Terminal
  | RD_OAuthRefresh oauth_account_id nat
  | RD_RetrySamePath duration
  | RD_PreferAlternate candidate_failure_scope duration
  | RD_Reselect candidate_failure_scope

fun decision_telemetry :: "retry_decision \<Rightarrow> attempt_retry_decision" where
  "decision_telemetry RD_Terminal = TD_Terminal"
| "decision_telemetry (RD_OAuthRefresh _ _) = TD_OAuthRefresh"
| "decision_telemetry (RD_RetrySamePath _) = TD_RetrySamePath"
| "decision_telemetry (RD_PreferAlternate _ _) = TD_Reselect"
| "decision_telemetry (RD_Reselect _) = TD_Reselect"

fun required_wait :: "retry_decision \<Rightarrow> duration option" where
  "required_wait (RD_RetrySamePath delay) = Some delay"
| "required_wait RD_Terminal = None"
| "required_wait (RD_OAuthRefresh _ _) = None"
| "required_wait (RD_PreferAlternate _ _) = None"
| "required_wait (RD_Reselect _) = None"

definition is_hard_reselection_kind :: "upstream_error_kind \<Rightarrow> bool" where
  "is_hard_reselection_kind kind \<longleftrightarrow>
     kind \<in> {UK_Authentication, UK_PermissionDenied, UK_QuotaExhausted, UK_ModelUnavailable,
             UK_OperationUnavailable}"

definition is_nonrecovering_bound_kind :: "upstream_error_kind \<Rightarrow> bool" where
  "is_nonrecovering_bound_kind kind = is_hard_reselection_kind kind"

fun transport_candidate_scope :: "transport_failure_scope \<Rightarrow> candidate_failure_scope" where
  "transport_candidate_scope TF_Endpoint = CS_Endpoint"
| "transport_candidate_scope TF_Proxy = CS_Proxy"
| "transport_candidate_scope TF_EgressPath = CS_EgressPath"
| "transport_candidate_scope TF_Unattributed = CS_ExactCandidate"

fun attribution_candidate_scope :: "upstream_failure_attribution \<Rightarrow> candidate_failure_scope" where
  "attribution_candidate_scope UA_Authentication = CS_Credential"
| "attribution_candidate_scope UA_Credential = CS_Credential"
| "attribution_candidate_scope UA_CredentialModel = CS_CredentialModel"
| "attribution_candidate_scope UA_RouteOperation = CS_RouteOperation"
| "attribution_candidate_scope UA_Endpoint = CS_Endpoint"
| "attribution_candidate_scope UA_EgressPath = CS_EgressPath"
| "attribution_candidate_scope UA_Unattributed = CS_ExactCandidate"

fun failure_scope :: "attempt_failure \<Rightarrow> candidate_failure_scope" where
  "failure_scope (AF_Transport err _ _) = transport_candidate_scope (te_failure_scope err)"
| "failure_scope (AF_Upstream _ _ _ _ err _ _) =
     attribution_candidate_scope (uc_attribution (ue_classification err))"
| "failure_scope (AF_Public _) = CS_ExactCandidate"

fun transport_telemetry_scope :: "transport_failure_scope \<Rightarrow> attempt_failure_scope" where
  "transport_telemetry_scope TF_Endpoint = FS_Endpoint"
| "transport_telemetry_scope TF_Proxy = FS_Proxy"
| "transport_telemetry_scope TF_EgressPath = FS_EgressPath"
| "transport_telemetry_scope TF_Unattributed = FS_ExactCandidate"

fun attribution_telemetry_scope :: "upstream_failure_attribution \<Rightarrow> attempt_failure_scope" where
  "attribution_telemetry_scope UA_Unattributed = FS_ExactCandidate"
| "attribution_telemetry_scope UA_Authentication = FS_Authentication"
| "attribution_telemetry_scope UA_Credential = FS_Credential"
| "attribution_telemetry_scope UA_CredentialModel = FS_CredentialModel"
| "attribution_telemetry_scope UA_RouteOperation = FS_RouteOperation"
| "attribution_telemetry_scope UA_EgressPath = FS_EgressPath"
| "attribution_telemetry_scope UA_Endpoint = FS_Endpoint"

fun telemetry_failure_scope :: "attempt_failure \<Rightarrow> attempt_failure_scope option" where
  "telemetry_failure_scope (AF_Transport err _ _) =
     Some (transport_telemetry_scope (te_failure_scope err))"
| "telemetry_failure_scope (AF_Upstream _ _ _ _ err _ _) =
     Some (attribution_telemetry_scope (uc_attribution (ue_classification err)))"
| "telemetry_failure_scope (AF_Public _) = None"

text \<open>The readings of the clocks one decision makes.\<close>

record readings =
  rd_now :: instant
  rd_jitter_now :: nat
  rd_hint_now :: nat

text \<open>\<open>None\<close> is the panic of \<open>next_delay\<close>, or of a failure without a candidate.\<close>

definition failure_next_delay :: "attempt_failure \<Rightarrow> retry_budget \<Rightarrow> readings \<Rightarrow> duration option" where
  "failure_next_delay failure b t =
     do { c \<leftarrow> failure_candidate failure;
          next_delay b c (failure_retry_after failure) (rd_jitter_now t) (rd_hint_now t) }"

definition failure_retry_delay :: "attempt_failure \<Rightarrow> retry_budget \<Rightarrow> readings \<Rightarrow> duration option" where
  "failure_retry_delay failure b t =
     (case or_default CandidateAttempts
             (map_option origin_retry_delay_basis (upstream_origin failure)) of
        CandidateAttempts \<Rightarrow> failure_next_delay failure b t
      | RequestAttempts \<Rightarrow>
          Some (next_request_delay b (failure_retry_after failure) (rd_jitter_now t) (rd_hint_now t)))"

definition upstream_decision ::
  "attempt_failure \<Rightarrow> upstream_error_classification \<Rightarrow> retry_budget \<Rightarrow> bool \<Rightarrow> readings \<Rightarrow>
   retry_decision option" where
  "upstream_decision failure classification b can_refresh_oauth t =
     (let kind = uc_kind classification in
      if upstream_origin failure = Some (UO_HttpStatus False) then Some RD_Terminal
      else if kind = UK_InvalidRequest then Some RD_Terminal
      else if \<not> allows_automatic_retry (uc_retry_safety classification) then Some RD_Terminal
      else case (if can_refresh_oauth then oauth_authentication_target failure else None) of
             Some (account_id, token_version) \<Rightarrow> Some (RD_OAuthRefresh account_id token_version)
           | None \<Rightarrow>
               (if failure_bound failure
                then (if is_nonrecovering_bound_kind kind then Some RD_Terminal
                      else map_option RD_RetrySamePath (failure_retry_delay failure b t))
                else if is_hard_reselection_kind kind then Some (RD_Reselect (failure_scope failure))
                else map_option (RD_PreferAlternate (failure_scope failure))
                       (failure_retry_delay failure b t)))"

definition decide_retry ::
  "attempt_failure \<Rightarrow> retry_budget \<Rightarrow> bool \<Rightarrow> readings \<Rightarrow> retry_decision option" where
  "decide_retry failure b can_refresh_oauth t =
     (if \<not> can_retry b (rd_now t) then Some RD_Terminal
      else case failure of
             AF_Public _ \<Rightarrow> Some RD_Terminal
           | AF_Transport err c bound \<Rightarrow>
               (if \<not> allows_automatic_retry (failure_retry_safety failure) then Some RD_Terminal
                else do { delay \<leftarrow> failure_next_delay failure b t;
                          Some (if failure_bound failure then RD_RetrySamePath delay
                                else RD_Reselect (failure_scope failure)) })
           | AF_Upstream origin status hs body err c bound \<Rightarrow>
               upstream_decision failure (ue_classification err) b can_refresh_oauth t)"

text \<open>\<open>Instant::checked_add\<close>: an instant holds a signed 64-bit number of seconds.\<close>

definition instant_max :: instant where
  "instant_max = (2 ^ 63 - 1) * nanos_per_sec + 999999999"

definition instant_checked_add :: "instant \<Rightarrow> duration \<Rightarrow> instant option" where
  "instant_checked_add t d = (if t + d \<le> instant_max then Some (t + d) else None)"

definition apply_candidate_recovery ::
  "selection_state \<Rightarrow> attempt_failure \<Rightarrow> retry_decision \<Rightarrow> instant \<Rightarrow> selection_state" where
  "apply_candidate_recovery s failure decision now =
     (case failure_candidate failure of
        None \<Rightarrow> s
      | Some c \<Rightarrow>
          (case decision of
             RD_PreferAlternate scope delay \<Rightarrow>
               (let s = note_failed c s
                in case instant_checked_add now delay of
                     Some not_before \<Rightarrow> defer_candidate c scope not_before s
                   | None \<Rightarrow> exclude c scope s)
           | RD_Reselect scope \<Rightarrow> exclude c scope (note_failed c s)
           | _ \<Rightarrow> s))"

section \<open>What a decision to go on presupposes\<close>

lemma decision_not_terminal:
  assumes "decide_retry failure b refresh t = Some d" "d \<noteq> RD_Terminal"
  shows "can_retry b (rd_now t) \<and> allows_automatic_retry (failure_retry_safety failure) \<and>
         failure_candidate failure \<noteq> None \<and> upstream_origin failure \<noteq> Some (UO_HttpStatus False)"
  using assms
  by (cases failure)
    (auto simp: decide_retry_def upstream_decision_def Let_def bind_eq_Some_conv split: if_split_asm)

lemma decision_refresh:
  assumes "decide_retry failure b refresh t = Some (RD_OAuthRefresh i v)"
  shows "refresh \<and> oauth_authentication_target failure = Some (i, v)"
  using assms
  by (cases failure)
    (auto simp: decide_retry_def upstream_decision_def Let_def bind_eq_Some_conv
      split: if_split_asm option.split_asm)

text \<open>A decision is made, without a panic, for every failure of a registered candidate.\<close>

lemma decision_total:
  assumes "\<forall>c. failure_candidate failure = Some c \<longrightarrow> rb_attempts_by_candidate b (identity c) \<noteq> None"
  shows "\<exists>d. decide_retry failure b refresh t = Some d"
  using assms
  by (cases failure)
    (auto simp: decide_retry_def upstream_decision_def Let_def failure_retry_delay_def
      failure_next_delay_def next_delay_def split: option.split retry_delay_basis.split)

end
