(* ===== verification/Retry_Execution.thy ===== *)
theory Retry_Execution
  imports Retry_Decision
begin

text \<open>
  The loop that serves one request: \<open>crates/runtime/src/public_request/retry.rs\<close>,
  \<open>retry/attempt.rs\<close> and \<open>retry/failure.rs\<close>.

  The loop selects a candidate, registers and executes an attempt, and decides about its failure.
  What happens outside it (which candidate the selection yields, whether a new configuration was
  published, what the upstream answers, how a token refresh ends) is an argument of each step.
  The state is \<open>RetryExecution\<close> without the snapshots and services, and with the log of the calls
  to the recorder and to the token refresher. \<open>None\<close> is a panic.
\<close>

section \<open>State\<close>

record begun_attempt =
  ba_attempt_no :: nat
  ba_candidate :: route_candidate
  ba_bound :: bool
  ba_allow_credential_bound_headers :: bool

record annotation =
  an_attempt_no :: nat
  an_failure_scope :: "attempt_failure_scope option"
  an_decision :: attempt_retry_decision

record retry_execution =
  rx_has_oauth :: bool
  rx_budget :: retry_budget
  rx_selection_state :: selection_state
  rx_previous_error :: "final_failure option"
  rx_oauth_refresh_attempted :: bool
  rx_refreshed_oauth_target :: "(oauth_account_id \<times> nat) option"
  rx_credential_bound_header_owner :: "routing_credential_id option"
  rx_begun :: "begun_attempt list"
  rx_annotations :: "annotation list"
  rx_refresh_calls :: "(oauth_account_id \<times> nat) list"
  rx_rejected_tokens :: "(oauth_account_id \<times> nat) list"

definition execution_new ::
  "reliability_policy \<Rightarrow> protocol_operation \<Rightarrow> execution_profile \<Rightarrow> bool \<Rightarrow> instant \<Rightarrow> retry_execution" where
  "execution_new policy operation profile has_oauth now =
     \<lparr> rx_has_oauth = has_oauth, rx_budget = budget_new policy operation profile now,
       rx_selection_state = selection_state_default, rx_previous_error = None,
       rx_oauth_refresh_attempted = False, rx_refreshed_oauth_target = None,
       rx_credential_bound_header_owner = None, rx_begun = [], rx_annotations = [],
       rx_refresh_calls = [], rx_rejected_tokens = [] \<rparr>"

definition ANY2API_UPSTREAM_TIMEOUT_MESSAGE :: string where
  "ANY2API_UPSTREAM_TIMEOUT_MESSAGE = ''any2api timed out waiting for an upstream response''"

definition budget_exhausted :: public_error where
  "budget_exhausted = public_error_new PE_GatewayTimeout ANY2API_UPSTREAM_TIMEOUT_MESSAGE"

definition binding_lost :: public_error where
  "binding_lost = public_error_new PE_SessionBindingLost ''session binding is missing or unavailable''"

text \<open>The failure of an earlier attempt wins over a later local one.\<close>

definition previous_or :: "retry_execution \<Rightarrow> final_failure \<Rightarrow> retry_execution \<times> final_failure" where
  "previous_or rx fallback =
     (rx\<lparr>rx_previous_error := None\<rparr>, or_default fallback (rx_previous_error rx))"

definition rebase_failed :: "retry_execution \<Rightarrow> public_error \<Rightarrow> retry_execution \<times> final_failure" where
  "rebase_failed rx err =
     (if pe_code err = PE_Unauthorized then (rx, FF_Local err) else previous_or rx (FF_Local err))"

section \<open>Selecting\<close>

text \<open>How a round of selection ends; a revision comes with the error of rebasing to it, if any.\<close>

datatype selection_wake =
    SW_Selected "public_error + route_candidate \<times> bool"
  | SW_Revision "public_error + public_error option"
  | SW_TimedOut

datatype select_result = SR_Failed final_failure | SR_Selected route_candidate bool | SR_Again

definition select_round ::
  "retry_execution \<Rightarrow> instant \<Rightarrow> selection_wake \<Rightarrow> retry_execution \<times> select_result" where
  "select_round rx now wake =
     (if remaining (rx_budget rx) now = 0
      then apsnd SR_Failed (previous_or rx (FF_Local budget_exhausted))
      else case wake of
             SW_Selected (Inr (c, bound)) \<Rightarrow> (rx, SR_Selected c bound)
           | SW_Selected (Inl err) \<Rightarrow> apsnd SR_Failed (previous_or rx (FF_Local err))
           | SW_Revision (Inl err) \<Rightarrow> apsnd SR_Failed (previous_or rx (FF_Local err))
           | SW_TimedOut \<Rightarrow> apsnd SR_Failed (previous_or rx (FF_Local budget_exhausted))
           | SW_Revision (Inr None) \<Rightarrow> (rx, SR_Again)
           | SW_Revision (Inr (Some err)) \<Rightarrow> apsnd SR_Failed (rebase_failed rx err))"

section \<open>Executing\<close>

definition annotate ::
  "nat \<Rightarrow> attempt_failure_scope option \<Rightarrow> attempt_retry_decision \<Rightarrow> retry_execution \<Rightarrow> retry_execution" where
  "annotate n scope decision rx =
     rx\<lparr>rx_annotations := rx_annotations rx @
          [\<lparr> an_attempt_no = n, an_failure_scope = scope, an_decision = decision \<rparr>]\<rparr>"

datatype 'r attempt_outcome = AO_TimedOut | AO_Response 'r | AO_Failure attempt_failure

datatype 'r attempt_execution =
    AE_Failed final_failure
  | AE_Reselect
  | AE_Completed nat "attempt_failure + 'r"

text \<open>
  \<open>refreshed\<close> is the outcome of rebasing to a newer snapshot if there is one, \<open>started\<close> whether the
  admission of the candidate's route still lets the attempt start.
\<close>

definition execute_attempt ::
  "retry_execution \<Rightarrow> route_candidate \<Rightarrow> bool \<Rightarrow> public_error option option \<Rightarrow> bool \<Rightarrow> instant \<Rightarrow>
   'r attempt_outcome \<Rightarrow> retry_execution \<times> 'r attempt_execution" where
  "execute_attempt rx c bound refreshed started now outcome =
     (case refreshed of
        Some (Some err) \<Rightarrow> apsnd AE_Failed (rebase_failed rx err)
      | Some None \<Rightarrow> (rx, AE_Reselect)
      | None \<Rightarrow>
          (if \<not> started then (rx, if bound then AE_Failed (FF_Local binding_lost) else AE_Reselect)
           else
             (case register_attempt (rx_budget rx) c now of
                (b, None) \<Rightarrow>
                  apsnd AE_Failed (previous_or (rx\<lparr>rx_budget := b\<rparr>) (FF_Local budget_exhausted))
              | (b, Some n) \<Rightarrow>
                  (let owner = rx_credential_bound_header_owner rx;
                       allow = (case owner of Some o' \<Rightarrow> o' = rc_credential_id c | None \<Rightarrow> True);
                       rx = rx\<lparr>rx_budget := b,
                               rx_credential_bound_header_owner :=
                                 Some (or_default (rc_credential_id c) owner),
                               rx_begun := rx_begun rx @
                                 [\<lparr> ba_attempt_no = n, ba_candidate = c, ba_bound = bound,
                                    ba_allow_credential_bound_headers = allow \<rparr>]\<rparr>
                   in case outcome of
                        AO_TimedOut \<Rightarrow>
                          apsnd AE_Failed
                            (previous_or (annotate n (Some FS_Unattributed) TD_Terminal rx)
                              (FF_Local budget_exhausted))
                      | AO_Response r \<Rightarrow> (rx, AE_Completed n (Inr r))
                      | AO_Failure failure \<Rightarrow> (rx, AE_Completed n (Inl failure))))))"

section \<open>Handling a failure\<close>

definition note_rejected_refreshed_token :: "retry_execution \<Rightarrow> attempt_failure \<Rightarrow> retry_execution" where
  "note_rejected_refreshed_token rx failure =
     (case rx_refreshed_oauth_target rx of
        None \<Rightarrow> rx
      | Some target \<Rightarrow>
          (if oauth_authentication_target failure = Some target \<and> rx_has_oauth rx
           then rx\<lparr>rx_rejected_tokens := rx_rejected_tokens rx @ [target],
                   rx_refreshed_oauth_target := None\<rparr>
           else rx))"

definition apply_retry_decision ::
  "retry_execution \<Rightarrow> nat \<Rightarrow> attempt_failure_scope option \<Rightarrow> attempt_failure \<Rightarrow> final_failure \<Rightarrow>
   retry_decision \<Rightarrow> instant \<Rightarrow> retry_execution \<times> (final_failure + unit)" where
  "apply_retry_decision rx n scope failure public decision now =
     (let go_on = (\<lambda>rx. ((annotate n scope (decision_telemetry decision) rx)
                           \<lparr>rx_previous_error := Some public\<rparr>, Inr ()))
      in case decision of
           RD_Terminal \<Rightarrow> (annotate n scope TD_Terminal rx, Inl public)
         | RD_RetrySamePath delay \<Rightarrow>
             (if \<not> can_wait (rx_budget rx) delay now
              then (annotate n scope TD_Terminal rx, Inl public)
              else go_on rx)
         | RD_PreferAlternate _ _ \<Rightarrow>
             go_on (rx\<lparr>rx_selection_state :=
                         apply_candidate_recovery (rx_selection_state rx) failure decision now\<rparr>)
         | RD_Reselect _ \<Rightarrow>
             go_on (rx\<lparr>rx_selection_state :=
                         apply_candidate_recovery (rx_selection_state rx) failure decision now\<rparr>)
         | RD_OAuthRefresh _ _ \<Rightarrow> go_on rx)"

text \<open>A refresh yields no snapshot, or one with the account's new token, and the rebase to it.\<close>

datatype refresh_outcome =
    RF_NotRefreshed
  | RF_Refreshed "(oauth_account_id \<times> nat) option" "public_error option"

definition can_refresh_oauth :: "retry_execution \<Rightarrow> attempt_failure \<Rightarrow> instant \<Rightarrow> bool" where
  "can_refresh_oauth rx failure now \<longleftrightarrow>
     \<not> rx_oauth_refresh_attempted rx \<and> rx_has_oauth rx \<and>
     (case failure_candidate failure of
        None \<Rightarrow> False
      | Some c \<Rightarrow> can_register_attempt (rx_budget rx) (rc_credential_id c) now)"

definition bounded_decision :: "retry_execution \<Rightarrow> retry_decision \<Rightarrow> instant \<Rightarrow> retry_decision" where
  "bounded_decision rx decision now =
     (case required_wait decision of
        None \<Rightarrow> decision
      | Some delay \<Rightarrow> if \<not> can_wait (rx_budget rx) delay now then RD_Terminal else decision)"

definition refresh_and_retry ::
  "retry_execution \<Rightarrow> nat \<Rightarrow> attempt_failure \<Rightarrow> oauth_account_id \<Rightarrow> nat \<Rightarrow> refresh_outcome \<Rightarrow> readings \<Rightarrow>
   (retry_execution \<times> (final_failure + unit)) option" where
  "refresh_and_retry rx n failure account_id token_version refresh t =
     (let rx = rx\<lparr>rx_oauth_refresh_attempted := True,
                 rx_refresh_calls := rx_refresh_calls rx @ [(account_id, token_version)]\<rparr>
      in case refresh of
           RF_Refreshed target (Some err) \<Rightarrow> Some (rx, Inl (FF_Local err))
         | RF_Refreshed target None \<Rightarrow>
             Some (apply_retry_decision (rx\<lparr>rx_refreshed_oauth_target := target\<rparr>) n
                     (telemetry_failure_scope failure) failure (failure_final failure)
                     (RD_OAuthRefresh account_id token_version) (rd_now t))
         | RF_NotRefreshed \<Rightarrow>
             do { decision \<leftarrow> decide_retry failure (rx_budget rx) False t;
                  Some (apply_retry_decision rx n (telemetry_failure_scope failure) failure
                          (failure_final failure) decision (rd_now t)) })"

definition handle_failure ::
  "retry_execution \<Rightarrow> nat \<Rightarrow> attempt_failure \<Rightarrow> readings \<Rightarrow> refresh_outcome \<Rightarrow> readings \<Rightarrow>
   (retry_execution \<times> (final_failure + unit)) option" where
  "handle_failure rx n failure t refresh t' =
     (let rx = note_rejected_refreshed_token rx failure
      in do { decided \<leftarrow> decide_retry failure (rx_budget rx) (can_refresh_oauth rx failure (rd_now t)) t;
              let decision = bounded_decision rx decided (rd_now t);
              case decision of
                RD_OAuthRefresh account_id token_version \<Rightarrow>
                  refresh_and_retry rx n failure account_id token_version refresh t'
              | _ \<Rightarrow> Some (apply_retry_decision rx n (telemetry_failure_scope failure) failure
                            (failure_final failure) decision (rd_now t)) })"

section \<open>The loop\<close>

datatype 'r run_state =
    Selecting retry_execution
  | Executing retry_execution route_candidate bool
  | Handling retry_execution nat attempt_failure
  | Finished retry_execution "final_failure + 'r"

text \<open>A failure of an attempt names the candidate of that attempt, if any.\<close>

inductive retry_step :: "'r run_state \<Rightarrow> 'r run_state \<Rightarrow> bool" where
  again: "select_round rx now wake = (rx', SR_Again) \<Longrightarrow>
     retry_step (Selecting rx) (Selecting rx')"
| not_selected: "select_round rx now wake = (rx', SR_Failed f) \<Longrightarrow>
     retry_step (Selecting rx) (Finished rx' (Inl f))"
| selected: "select_round rx now wake = (rx', SR_Selected c bound) \<Longrightarrow>
     retry_step (Selecting rx) (Executing rx' c bound)"
| reselect: "execute_attempt rx c bound refreshed started now (outcome :: 'r attempt_outcome) = (rx', AE_Reselect) \<Longrightarrow>
     retry_step (Executing rx c bound) (Selecting rx')"
| not_executed: "execute_attempt rx c bound refreshed started now (outcome :: 'r attempt_outcome) = (rx', AE_Failed f) \<Longrightarrow>
     retry_step (Executing rx c bound) (Finished rx' (Inl f))"
| responded: "execute_attempt rx c bound refreshed started now outcome =
       (rx', AE_Completed n (Inr r)) \<Longrightarrow>
     retry_step (Executing rx c bound) (Finished rx' (Inr r))"
| failed: "execute_attempt rx c bound refreshed started now (outcome :: 'r attempt_outcome) =
       (rx', AE_Completed n (Inl failure)) \<Longrightarrow>
     failure_candidate failure \<in> {None, Some c} \<Longrightarrow>
     retry_step (Executing rx c bound) (Handling rx' n failure)"
| retried: "handle_failure rx n failure t refresh t' = Some (rx', Inr ()) \<Longrightarrow>
     retry_step (Handling rx n failure) (Selecting rx')"
| given_up: "handle_failure rx n failure t refresh t' = Some (rx', Inl f) \<Longrightarrow>
     retry_step (Handling rx n failure) (Finished rx' (Inl f))"

fun execution_of :: "'r run_state \<Rightarrow> retry_execution" where
  "execution_of (Selecting rx) = rx"
| "execution_of (Executing rx c bound) = rx"
| "execution_of (Handling rx n failure) = rx"
| "execution_of (Finished rx r) = rx"

section \<open>Invariant\<close>

definition rx_inv :: "reliability_policy \<Rightarrow> retry_execution \<Rightarrow> bool" where
  "rx_inv policy rx \<longleftrightarrow>
     rb_policy (rx_budget rx) = policy \<and>
     tracks_attempts (rx_budget rx) (map ba_candidate (rx_begun rx)) \<and>
     within_limits policy (map ba_candidate (rx_begun rx)) \<and>
     map ba_attempt_no (rx_begun rx) = [1..<Suc (length (rx_begun rx))] \<and>
     rx_credential_bound_header_owner rx =
       (if rx_begun rx = [] then None else Some (rc_credential_id (ba_candidate (hd (rx_begun rx))))) \<and>
     (\<forall>a\<in>set (rx_begun rx). ba_allow_credential_bound_headers a \<longleftrightarrow>
        rc_credential_id (ba_candidate a) = rc_credential_id (ba_candidate (hd (rx_begun rx)))) \<and>
     length (rx_refresh_calls rx) = (if rx_oauth_refresh_attempted rx then 1 else 0)"

fun run_inv :: "reliability_policy \<Rightarrow> 'r run_state \<Rightarrow> bool" where
  "run_inv policy (Handling rx n failure) \<longleftrightarrow>
     rx_inv policy rx \<and>
     (\<forall>c. failure_candidate failure = Some c \<longrightarrow> c \<in> ba_candidate ` set (rx_begun rx))"
| "run_inv policy (Selecting rx) \<longleftrightarrow> rx_inv policy rx"
| "run_inv policy (Executing rx c bound) \<longleftrightarrow> rx_inv policy rx"
| "run_inv policy (Finished rx r) \<longleftrightarrow> rx_inv policy rx"

text \<open>Most updates leave everything the invariant looks at unchanged.\<close>

lemma rx_inv_update [simp]:
  "rx_inv policy (rx\<lparr>rx_previous_error := p\<rparr>) = rx_inv policy rx"
  "rx_inv policy (rx\<lparr>rx_selection_state := s\<rparr>) = rx_inv policy rx"
  "rx_inv policy (rx\<lparr>rx_refreshed_oauth_target := target\<rparr>) = rx_inv policy rx"
  "rx_inv policy (rx\<lparr>rx_rejected_tokens := ts\<rparr>) = rx_inv policy rx"
  "rx_inv policy (annotate n scope d rx) = rx_inv policy rx"
  by (simp_all add: rx_inv_def annotate_def)

lemma execution_new_inv [inv_intros]: "rx_inv policy (execution_new policy op profile oauth now)"
  using budget_new_tracks [of policy op profile now]
  by (simp add: rx_inv_def execution_new_def within_limits_def budget_new_def)

lemma previous_or_inv [simp]: "rx_inv policy (fst (previous_or rx f)) = rx_inv policy rx"
  by (simp add: previous_or_def)

lemma rebase_failed_inv [simp]: "rx_inv policy (fst (rebase_failed rx err)) = rx_inv policy rx"
  by (simp add: rebase_failed_def)

lemma select_round_inv:
  assumes "select_round rx now wake = (rx', r)" "rx_inv policy rx"
  shows "rx_inv policy rx'"
proof -
  have "rx_inv policy (fst (select_round rx now wake))"
    using assms(2) by (auto simp: select_round_def split: selection_wake.split sum.split option.split)
  then show ?thesis by (simp add: assms(1))
qed

text \<open>What a registered attempt adds to the state.\<close>

definition begin_attempt :: "retry_execution \<Rightarrow> retry_budget \<Rightarrow> nat \<Rightarrow> route_candidate \<Rightarrow> bool \<Rightarrow> retry_execution" where
  "begin_attempt rx b n c bound =
     rx\<lparr>rx_budget := b,
        rx_credential_bound_header_owner :=
          Some (or_default (rc_credential_id c) (rx_credential_bound_header_owner rx)),
        rx_begun := rx_begun rx @
          [\<lparr> ba_attempt_no = n, ba_candidate = c, ba_bound = bound,
             ba_allow_credential_bound_headers =
               (case rx_credential_bound_header_owner rx of
                  Some o' \<Rightarrow> o' = rc_credential_id c | None \<Rightarrow> True) \<rparr>]\<rparr>"

lemma begin_attempt_inv:
  assumes "rx_inv policy rx" "register_attempt (rx_budget rx) c now = (b, Some n)"
  shows "rx_inv policy (begin_attempt rx b n c bound)"
proof -
  have pol: "rb_policy (rx_budget rx) = policy"
    and tr: "tracks_attempts (rx_budget rx) (map ba_candidate (rx_begun rx))"
    and lim: "within_limits (rb_policy (rx_budget rx)) (map ba_candidate (rx_begun rx))"
    using assms(1) by (auto simp: rx_inv_def)
  note reg = register_attempt_tracks [OF tr assms(2)]
  have nos: "map ba_attempt_no (rx_begun (begin_attempt rx b n c bound)) =
      [1..<Suc (length (rx_begun (begin_attempt rx b n c bound)))]"
    using assms(1) reg(2) by (auto simp: rx_inv_def begin_attempt_def)
  have owner: "rx_credential_bound_header_owner (begin_attempt rx b n c bound) =
      Some (rc_credential_id (ba_candidate (hd (rx_begun (begin_attempt rx b n c bound)))))"
    using assms(1) by (auto simp: rx_inv_def begin_attempt_def)
  have allow: "\<forall>a\<in>set (rx_begun (begin_attempt rx b n c bound)).
      ba_allow_credential_bound_headers a \<longleftrightarrow> rc_credential_id (ba_candidate a) =
        rc_credential_id (ba_candidate (hd (rx_begun (begin_attempt rx b n c bound))))"
    using assms(1) by (auto simp: rx_inv_def begin_attempt_def)
  have "rx_begun (begin_attempt rx b n c bound) \<noteq> []" by (simp add: begin_attempt_def)
  moreover have "tracks_attempts (rx_budget (begin_attempt rx b n c bound))
      (map ba_candidate (rx_begun (begin_attempt rx b n c bound)))"
    using reg(1) by (simp add: begin_attempt_def)
  moreover have "within_limits policy (map ba_candidate (rx_begun (begin_attempt rx b n c bound)))"
    using register_attempt_limits [OF tr lim assms(2)] pol by (simp add: begin_attempt_def)
  moreover have "rb_policy (rx_budget (begin_attempt rx b n c bound)) = policy"
    using reg(3) pol by (simp add: begin_attempt_def)
  moreover have "length (rx_refresh_calls (begin_attempt rx b n c bound)) =
      (if rx_oauth_refresh_attempted (begin_attempt rx b n c bound) then 1 else 0)"
    using assms(1) by (simp add: rx_inv_def begin_attempt_def)
  ultimately show ?thesis using nos owner allow unfolding rx_inv_def by simp
qed

lemma execute_attempt_cases:
  assumes "execute_attempt rx c bound refreshed started now outcome = (rx', result)"
  shows "(\<exists>p. rx' = rx\<lparr>rx_previous_error := p\<rparr> \<and> (\<forall>n r. result \<noteq> AE_Completed n r)) \<or>
         (\<exists>b n. register_attempt (rx_budget rx) c now = (b, Some n) \<and>
            (rx' = begin_attempt rx b n c bound \<or>
             (\<exists>p. rx' = (annotate n (Some FS_Unattributed) TD_Terminal (begin_attempt rx b n c bound))
                     \<lparr>rx_previous_error := p\<rparr>) \<and> (\<forall>n r. result \<noteq> AE_Completed n r)))"
proof (cases "refreshed = None \<and> started")
  case True
  obtain b r where reg: "register_attempt (rx_budget rx) c now = (b, r)" by fastforce
  show ?thesis
  proof (cases r)
    case None
    then have "b = rx_budget rx"
      using reg by (auto simp: register_attempt_def Let_def split: if_split_asm)
    then show ?thesis using assms True reg None
      by (auto simp: execute_attempt_def previous_or_def)
  next
    case (Some n)
    then show ?thesis using assms True reg
      by (auto simp: execute_attempt_def previous_or_def begin_attempt_def Let_def
          split: attempt_outcome.split_asm)
  qed
next
  case False
  have same: "\<exists>p. r = r\<lparr>rx_previous_error := p\<rparr>" for r :: retry_execution
    by (rule exI [of _ "rx_previous_error r"]) simp
  show ?thesis using assms False
    by (auto simp: execute_attempt_def rebase_failed_def previous_or_def
        split: option.split_asm if_split_asm intro: same)
qed

lemma execute_attempt_inv:
  assumes "execute_attempt rx c bound refreshed started now outcome = (rx', result)" "rx_inv policy rx"
  shows "rx_inv policy rx'"
    "result = AE_Completed n (Inl failure) \<Longrightarrow> c \<in> ba_candidate ` set (rx_begun rx')"
  using execute_attempt_cases [OF assms(1)] begin_attempt_inv [OF assms(2)] assms(2)
  by (auto simp: begin_attempt_def)

lemma note_rejected_simps [simp]:
  "rx_inv policy (note_rejected_refreshed_token rx failure) = rx_inv policy rx"
  "rx_budget (note_rejected_refreshed_token rx failure) = rx_budget rx"
  "rx_oauth_refresh_attempted (note_rejected_refreshed_token rx failure) = rx_oauth_refresh_attempted rx"
  "rx_refresh_calls (note_rejected_refreshed_token rx failure) = rx_refresh_calls rx"
  by (simp_all add: note_rejected_refreshed_token_def split: option.split)

lemma apply_retry_decision_inv [simp]:
  "rx_inv policy (fst (apply_retry_decision rx n scope failure public decision now)) = rx_inv policy rx"
  by (cases decision) (simp_all add: apply_retry_decision_def Let_def)

lemma apply_retry_decision_continues:
  "snd (apply_retry_decision rx n scope failure public decision now) = Inr () \<Longrightarrow> decision \<noteq> RD_Terminal"
  by (auto simp: apply_retry_decision_def)

lemma bounded_decision_cases: "bounded_decision rx d now \<in> {d, RD_Terminal}"
  by (auto simp: bounded_decision_def split: option.split)

lemma refresh_and_retry_inv:
  assumes "refresh_and_retry rx n failure i v refresh t = Some (rx', result)"
    and "rx_inv policy rx" "\<not> rx_oauth_refresh_attempted rx"
  shows "rx_inv policy rx'"
proof -
  define rx1 where "rx1 = rx\<lparr>rx_oauth_refresh_attempted := True, rx_refresh_calls := rx_refresh_calls rx @ [(i, v)]\<rparr>"
  have inv: "rx_inv policy rx1" using assms(2,3) by (simp add: rx_inv_def rx1_def)
  have apply_inv: "rx_inv policy rx'"
    if "apply_retry_decision r n scope failure public d now = (rx', result)" "rx_inv policy r"
    for r scope public d now
    using apply_retry_decision_inv [of policy r n scope failure public d now] that by simp
  show ?thesis
    using assms(1) inv apply_inv
    by (auto simp: refresh_and_retry_def rx1_def [symmetric] Let_def bind_eq_Some_conv
        split: refresh_outcome.split_asm option.split_asm)
qed

text \<open>The ways \<open>handle_failure\<close> returns.\<close>

lemma handle_failure_cases:
  assumes "handle_failure rx n failure t refresh t' = Some (rx', result)"
  obtains (direct) d where
      "decide_retry failure (rx_budget rx)
         (can_refresh_oauth (note_rejected_refreshed_token rx failure) failure (rd_now t)) t = Some d"
      "apply_retry_decision (note_rejected_refreshed_token rx failure) n
         (telemetry_failure_scope failure) failure (failure_final failure)
         (bounded_decision (note_rejected_refreshed_token rx failure) d (rd_now t)) (rd_now t) =
       (rx', result)"
  | (refresh) i v where
      "decide_retry failure (rx_budget rx) True t = Some (RD_OAuthRefresh i v)"
      "\<not> rx_oauth_refresh_attempted rx"
      "refresh_and_retry (note_rejected_refreshed_token rx failure) n failure i v refresh t' =
       Some (rx', result)"
proof -
  let ?rx = "note_rejected_refreshed_token rx failure"
  let ?can = "can_refresh_oauth ?rx failure (rd_now t)"
  obtain d where d: "decide_retry failure (rx_budget rx) ?can t = Some d"
    using assms by (auto simp: handle_failure_def Let_def bind_eq_Some_conv)
  show thesis
  proof (cases "\<exists>i v. bounded_decision ?rx d (rd_now t) = RD_OAuthRefresh i v")
    case True
    then obtain i v where iv: "bounded_decision ?rx d (rd_now t) = RD_OAuthRefresh i v" by blast
    then have d_eq: "d = RD_OAuthRefresh i v"
      using bounded_decision_cases [of ?rx d "rd_now t"] by auto
    have can: ?can using decision_refresh d d_eq by blast
    show ?thesis
      by (rule refresh [of i v])
        (use assms d can d_eq iv in \<open>simp_all add: handle_failure_def Let_def can_refresh_oauth_def\<close>)
  next
    case False
    then show ?thesis
      using direct [OF d] assms d
      by (cases "bounded_decision ?rx d (rd_now t)") (simp_all add: handle_failure_def Let_def)
  qed
qed

lemma handle_failure_inv:
  assumes "handle_failure rx n failure t refresh t' = Some (rx', result)" "rx_inv policy rx"
  shows "rx_inv policy rx'"
  using assms(1)
proof (cases rule: handle_failure_cases)
  case (direct d)
  then show ?thesis
    using apply_retry_decision_inv [of policy "note_rejected_refreshed_token rx failure" n
        "telemetry_failure_scope failure" failure "failure_final failure"
        "bounded_decision (note_rejected_refreshed_token rx failure) d (rd_now t)" "rd_now t"] assms(2)
    by simp
next
  case (refresh i v)
  then show ?thesis using refresh_and_retry_inv [OF refresh(3)] assms(2) by simp
qed

lemma handle_failure_continues:
  assumes "handle_failure rx n failure t refresh t' = Some (rx', Inr ())"
  shows "\<exists>refreshable d. decide_retry failure (rx_budget rx) refreshable t = Some d \<and> d \<noteq> RD_Terminal"
  using assms
proof (cases rule: handle_failure_cases)
  case (direct d)
  have "bounded_decision (note_rejected_refreshed_token rx failure) d (rd_now t) \<noteq> RD_Terminal"
    using apply_retry_decision_continues [of "note_rejected_refreshed_token rx failure" n] direct(2)
    by (metis snd_conv)
  then have "d \<noteq> RD_Terminal"
    using bounded_decision_cases [of "note_rejected_refreshed_token rx failure" d "rd_now t"] by auto
  then show ?thesis using direct(1) by blast
qed blast

lemma handle_failure_total:
  assumes "\<forall>c. failure_candidate failure = Some c \<longrightarrow>
      rb_attempts_by_candidate (rx_budget rx) (identity c) \<noteq> None"
  shows "handle_failure rx n failure t refresh t' \<noteq> None"
proof -
  obtain d where d: "decide_retry failure (rx_budget rx)
      (can_refresh_oauth (note_rejected_refreshed_token rx failure) failure (rd_now t)) t = Some d"
    using decision_total [OF assms] by blast
  obtain d' where "decide_retry failure (rx_budget rx) False t' = Some d'"
    using decision_total [OF assms] by blast
  then show ?thesis
    using d by (simp add: handle_failure_def refresh_and_retry_def Let_def
        split: retry_decision.split refresh_outcome.split option.split)
qed

lemma retry_step_inv:
  "retry_step s s' \<Longrightarrow> run_inv policy s \<Longrightarrow> run_inv policy s'"
  by (induction rule: retry_step.induct)
    (auto dest: select_round_inv execute_attempt_inv handle_failure_inv)

lemma retry_reachable_inv:
  "retry_step\<^sup>*\<^sup>* (Selecting (execution_new policy op profile oauth now)) s \<Longrightarrow> run_inv policy s"
  by (induction rule: rtranclp_induct) (auto intro: retry_step_inv execution_new_inv)

lemma run_inv_execution: "run_inv policy s \<Longrightarrow> rx_inv policy (execution_of s)"
  by (cases s) auto

lemma begun_registered:
  assumes "rx_inv policy rx" "c \<in> ba_candidate ` set (rx_begun rx)"
  shows "rb_attempts_by_candidate (rx_budget rx) (identity c) \<noteq> None"
  using assms by (auto simp: rx_inv_def tracks_attempts_def Let_def filter_empty_conv)

text \<open>A request whose first attempt fails before it is sent, for the examples.\<close>

definition sample_execution :: retry_execution where
  "sample_execution = execution_new (policy_from_settings 30) PO_Responses EP_Standard False 0"

definition sample_failure :: attempt_failure where
  "sample_failure =
     AF_Transport \<lparr> te_stage = TS_Dns, te_failure_scope = TF_Endpoint,
                    te_retry_safety = RS_DefinitelyNotSent, te_message = [] \<rparr> (sample_candidate 1) False"

definition sample_attempted :: retry_execution where
  "sample_attempted =
     fst (execute_attempt sample_execution (sample_candidate 1) False None True 1
            (AO_Failure sample_failure :: unit attempt_outcome))"

lemmas execution_eval =
  sample_execution_def sample_attempted_def execution_new_def budget_new_def
  policy_from_settings_def MAX_TOTAL_ATTEMPTS_def MAX_CREDENTIAL_SWITCHES_def
  MAX_SAME_CREDENTIAL_RETRIES_def retry_budget_limit_def timeout_floor_def is_images_def
  register_attempt_def can_register_attempt_def switches_credential_def remaining_def
  duration_since_def nanos_per_sec_def Let_def

lemma sample_execute:
  "execute_attempt sample_execution (sample_candidate 1) False None True 1
     (AO_Failure sample_failure :: unit attempt_outcome) =
   (sample_attempted, AE_Completed 1 (Inl sample_failure))"
  "map ba_candidate (rx_begun sample_attempted) = [sample_candidate 1]"
  by (simp_all add: execute_attempt_def execution_eval)

lemma sample_run:
  "retry_step\<^sup>*\<^sup>* (Selecting (execution_new (policy_from_settings 30) PO_Responses EP_Standard False 0))
     (Handling sample_attempted 1 sample_failure :: unit run_state)"
proof -
  have "select_round sample_execution 1 (SW_Selected (Inr (sample_candidate 1, False))) =
      (sample_execution, SR_Selected (sample_candidate 1) False)"
    by (simp add: select_round_def execution_eval)
  from selected [OF this] failed [OF sample_execute(1)]
  show ?thesis
    by (auto simp: sample_failure_def sample_execution_def
        intro: converse_rtranclp_into_rtranclp)
qed

section \<open>Properties\<close>

text \<open>C2. One request is never retried beyond its policy: however selection, configuration changes,
  upstreams and token refreshes behave, the attempts it begins are numbered from one, are at most
  the total the policy allows, change the credential at most as often as it allows and use no
  credential more than once plus its retries; the token refresher is called at most once; and every
  failure of an attempt is decided without a panic.\<close>

theorem retry_run_bounded:
  assumes "retry_step\<^sup>*\<^sup>* (Selecting (execution_new policy op profile oauth start)) s"
  shows "map ba_attempt_no (rx_begun (execution_of s)) = [1..<Suc (length (rx_begun (execution_of s)))] \<and>
         within_limits policy (map ba_candidate (rx_begun (execution_of s))) \<and>
         length (rx_refresh_calls (execution_of s)) \<le> 1 \<and>
         (\<forall>rx n failure t refresh t'. s = Handling rx n failure \<longrightarrow>
            handle_failure rx n failure t refresh t' \<noteq> None)"
proof -
  have inv: "run_inv policy s" using retry_reachable_inv [OF assms] .
  have "handle_failure rx n failure t refresh t' \<noteq> None" if "s = Handling rx n failure"
    for rx n failure t refresh t'
    using inv that by (intro handle_failure_total) (auto dest: begun_registered)
  then show ?thesis using run_inv_execution [OF inv] by (auto simp: rx_inv_def)
qed

theorem retry_run_bounded_witness:
  "map ba_attempt_no (rx_begun sample_attempted) = [1] \<and>
   within_limits (policy_from_settings 30) [sample_candidate 1] \<and>
   (\<forall>t refresh t'. handle_failure sample_attempted 1 sample_failure t refresh t' \<noteq> None)"
  using retry_run_bounded [OF sample_run] sample_execute(2)
  by (auto dest: map_eq_imp_length_eq)

text \<open>C6. A failure that the upstream may already have executed is never replayed: the request goes on
  after a failed attempt only if the failure is known to be safe to retry, names a candidate, is not
  a rejection of the request itself and not an error response that was cut off, and only while the
  budget of attempts and time lasts.\<close>

theorem ambiguous_failure_not_replayed:
  assumes "handle_failure rx n failure t refresh t' = Some (rx', Inr ())"
  shows "allows_automatic_retry (failure_retry_safety failure) \<and> failure_candidate failure \<noteq> None \<and>
         can_retry (rx_budget rx) (rd_now t) \<and>
         upstream_origin failure \<noteq> Some (UO_HttpStatus False) \<and>
         (\<forall>origin status hs body err c bound.
            failure = AF_Upstream origin status hs body err c bound \<longrightarrow>
            uc_kind (ue_classification err) \<noteq> UK_InvalidRequest)"
proof -
  obtain refreshable d where d: "decide_retry failure (rx_budget rx) refreshable t = Some d"
      "d \<noteq> RD_Terminal"
    using handle_failure_continues [OF assms] by blast
  have "uc_kind (ue_classification err) \<noteq> UK_InvalidRequest"
    if "failure = AF_Upstream origin status hs body err c bound" for origin status hs body err c bound
    using d that by (auto simp: decide_retry_def upstream_decision_def Let_def split: if_split_asm)
  then show ?thesis using decision_not_terminal [OF d] by blast
qed

theorem ambiguous_failure_not_replayed_witness:
  "\<exists>rx'. handle_failure sample_attempted 1 sample_failure
     \<lparr> rd_now = 2, rd_jitter_now = 0, rd_hint_now = 0 \<rparr> RF_NotRefreshed
     \<lparr> rd_now = 3, rd_jitter_now = 0, rd_hint_now = 0 \<rparr> = Some (rx', Inr ()) \<and>
   allows_automatic_retry (failure_retry_safety sample_failure)"
proof -
  let ?t = "\<lparr> rd_now = 2, rd_jitter_now = 0, rd_hint_now = 0 \<rparr>"
  let ?u = "\<lparr> rd_now = 3, rd_jitter_now = 0, rd_hint_now = 0 \<rparr>"
  obtain rx' where h: "handle_failure sample_attempted 1 sample_failure ?t RF_NotRefreshed ?u =
      Some (rx', Inr ())"
    by (simp add: handle_failure_def note_rejected_refreshed_token_def decide_retry_def
        can_retry_def sample_failure_def allows_automatic_retry_def failure_next_delay_def
        next_delay_def bounded_decision_def apply_retry_decision_def execute_attempt_def
        execution_eval)
  show ?thesis using ambiguous_failure_not_replayed [OF h] h by blast
qed

text \<open>C24. Headers of the client that belong to one credential never reach another: among all attempts of
  a request exactly those with the credential of the first attempt are allowed to carry them.\<close>

theorem credential_headers_confined:
  assumes "retry_step\<^sup>*\<^sup>* (Selecting (execution_new policy op profile oauth start)) s"
    and "a \<in> set (rx_begun (execution_of s))"
  shows "ba_allow_credential_bound_headers a \<longleftrightarrow>
         rc_credential_id (ba_candidate a) = rc_credential_id (ba_candidate (hd (rx_begun (execution_of s))))"
  using run_inv_execution [OF retry_reachable_inv [OF assms(1)]] assms(2) by (simp add: rx_inv_def)

theorem credential_headers_confined_witness:
  "ba_allow_credential_bound_headers (hd (rx_begun sample_attempted)) \<and>
   rx_begun sample_attempted \<noteq> []"
proof -
  have "rx_begun sample_attempted \<noteq> []" using sample_execute(2) by auto
  then show ?thesis
    using credential_headers_confined [OF sample_run, of "hd (rx_begun sample_attempted)"] by simp
qed

end
