(* ===== verification/Affinity_Bindings.thy ===== *)
theory Affinity_Bindings
  imports Candidate_State
begin

text \<open>
  The table of session and continuation bindings: \<open>crates/runtime/src/affinity/shard.rs\<close> with the
  states of \<open>registry.rs\<close>, the keys of \<open>hash.rs\<close> and the targets of \<open>target.rs\<close>.

  The table is split into shards with a lock each; two counters shared by all shards enforce the
  budgets. A shard is an association list, whose order stands for the arbitrary order in which a
  \<open>HashMap\<close> is iterated. The counters are \<open>usize\<close> and wrap around in the code, so the model lets
  them wrap around too; that they never do is part of the invariant. The keyed hash is a parameter.
\<close>

section \<open>Keys\<close>

type_synonym session_hash = "byte list"

definition shard_index :: "session_hash \<Rightarrow> nat \<Rightarrow> nat" where
  "shard_index key shard_count = unat (hd key) mod shard_count"

text \<open>What is fed to the keyed hash \<open>mac\<close>, whose key is drawn when the process starts.\<close>

definition digest_input :: "byte list \<Rightarrow> byte list list \<Rightarrow> byte list \<Rightarrow> byte list" where
  "digest_input domain scope raw =
     bytes_of_string ''any2api-affinity-v1'' @ [0] @ domain @
     concat (map (\<lambda>value. value @ [0]) scope) @ raw"

definition digest ::
  "(byte list \<Rightarrow> session_hash) \<Rightarrow> byte list \<Rightarrow> byte list list \<Rightarrow> byte list \<Rightarrow> session_hash" where
  "digest mac domain scope raw = mac (digest_input domain scope raw)"

definition hash_continuation :: "(byte list \<Rightarrow> session_hash) \<Rightarrow> byte list \<Rightarrow> session_hash" where
  "hash_continuation mac raw = digest mac (bytes_of_string ''continuation'' @ [0]) [] raw"

fun dialect_tag :: "protocol_dialect \<Rightarrow> byte" where
  "dialect_tag PD_OpenAiResponses = 1"
| "dialect_tag PD_AnthropicMessages = 3"
| "dialect_tag PD_OpenAiChatCompletions = 4"
| "dialect_tag PD_OpenAiImages = 5"

definition hash_session ::
  "(byte list \<Rightarrow> session_hash) \<Rightarrow> protocol_dialect \<Rightarrow> byte list \<Rightarrow> byte list \<Rightarrow> session_hash" where
  "hash_session mac dialect route_uuid raw =
     digest mac (bytes_of_string ''session'' @ [0]) [[dialect_tag dialect], route_uuid] raw"

section \<open>Entries\<close>

record affinity_target =
  at_route_id :: route_id
  at_target_id :: target_id
  at_credential_id :: routing_credential_id
  at_upstream_model :: string
  at_ingress_protocol_dialect :: protocol_dialect
  at_upstream_protocol_dialect :: protocol_dialect

definition target_from_candidate ::
  "route_id \<Rightarrow> protocol_dialect \<Rightarrow> route_candidate \<Rightarrow> affinity_target" where
  "target_from_candidate route dialect c =
     \<lparr> at_route_id = route, at_target_id = rc_target_id c, at_credential_id = rc_credential_id c,
       at_upstream_model = rc_upstream_model c, at_ingress_protocol_dialect = dialect,
       at_upstream_protocol_dialect = rc_upstream_protocol_dialect c \<rparr>"

definition matches_candidate ::
  "affinity_target \<Rightarrow> route_id \<Rightarrow> protocol_dialect \<Rightarrow> route_candidate \<Rightarrow> bool" where
  "matches_candidate t route dialect c \<longleftrightarrow>
     at_route_id t = route \<and> at_ingress_protocol_dialect t = dialect \<and>
     at_upstream_protocol_dialect t = rc_upstream_protocol_dialect c \<and>
     at_target_id t = rc_target_id c \<and> at_credential_id t = rc_credential_id c \<and>
     at_upstream_model t = rc_upstream_model c"

text \<open>A continuation state is opaque to the runtime except for its size.\<close>

record continuation_state =
  cs_inner :: nat
  cs_serialized_bytes :: nat

datatype creation_phase = PhaseSelecting | PhaseAttempting

datatype continuation_lifecycle = Pending nat | Ready "continuation_state option"

datatype binding_source = Session | Continuation continuation_lifecycle

record timed_binding =
  tb_target :: affinity_target
  tb_last_seen_at :: instant
  tb_source :: binding_source

datatype binding_state = Creating nat creation_phase | Bound timed_binding

definition MAX_BRIDGE_CONTINUATION_STATE_BYTES :: nat where
  "MAX_BRIDGE_CONTINUATION_STATE_BYTES = 16 * 1024 * 1024"

definition is_pending_continuation :: "timed_binding \<Rightarrow> bool" where
  "is_pending_continuation b \<longleftrightarrow>
     (case tb_source b of Continuation (Pending _) \<Rightarrow> True | _ \<Rightarrow> False)"

definition is_expired :: "binding_state \<Rightarrow> instant \<Rightarrow> duration \<Rightarrow> bool" where
  "is_expired entry now ttl \<longleftrightarrow>
     (case entry of
        Bound binding \<Rightarrow>
          \<not> is_pending_continuation binding \<and> ttl \<le> duration_since now (tb_last_seen_at binding)
      | Creating _ _ \<Rightarrow> False)"

definition continuation_footprint :: "binding_state \<Rightarrow> nat" where
  "continuation_footprint entry =
     (case entry of
        Creating _ _ \<Rightarrow> 0
      | Bound binding \<Rightarrow>
          (case tb_source binding of
             Session \<Rightarrow> 0
           | Continuation (Pending _) \<Rightarrow> MAX_BRIDGE_CONTINUATION_STATE_BYTES
           | Continuation (Ready state) \<Rightarrow>
               (case state of None \<Rightarrow> 0 | Some c \<Rightarrow> cs_serialized_bytes c)))"

section \<open>The table\<close>

definition SHARD_COUNT :: nat where "SHARD_COUNT = 16"
definition RECLAIM_SAMPLE :: nat where "RECLAIM_SAMPLE = 8"
definition FUTILE_RECLAIM_THROTTLE_MILLIS :: nat where "FUTILE_RECLAIM_THROTTLE_MILLIS = 1000"

type_synonym shard = "(session_hash \<times> binding_state) list"

record sharded_bindings =
  sb_shards :: "shard list"
  sb_max_entries :: nat
  sb_max_continuation_bytes :: nat
  sb_entry_count :: nat
  sb_continuation_bytes :: nat
  sb_next_version :: nat
  sb_created_at :: instant
  sb_last_futile_reclaim :: nat

definition bindings_new :: "nat \<Rightarrow> nat \<Rightarrow> instant \<Rightarrow> sharded_bindings" where
  "bindings_new max_entries max_continuation_bytes now =
     \<lparr> sb_shards = replicate SHARD_COUNT [], sb_max_entries = max_entries,
       sb_max_continuation_bytes = max_continuation_bytes, sb_entry_count = 0,
       sb_continuation_bytes = 0, sb_next_version = 0, sb_created_at = now,
       sb_last_futile_reclaim = 0 \<rparr>"

definition wrapping_add_usize :: "nat \<Rightarrow> nat \<Rightarrow> nat" where
  "wrapping_add_usize a b = (a + b) mod 2 ^ 64"

definition wrapping_sub_usize :: "nat \<Rightarrow> nat \<Rightarrow> nat" where
  "wrapping_sub_usize a b = (if b \<le> a then a - b else a + 2 ^ 64 - b)"

definition put_shard :: "nat \<Rightarrow> shard \<Rightarrow> sharded_bindings \<Rightarrow> sharded_bindings" where
  "put_shard i entries b = b\<lparr>sb_shards := (sb_shards b)[i := entries]\<rparr>"

text \<open>The version counter wraps around; zero is never handed out.\<close>

definition next_version :: "sharded_bindings \<Rightarrow> sharded_bindings \<times> nat" where
  "next_version b =
     (let next = wrapping_add_usize (sb_next_version b) 1
      in (b\<lparr>sb_next_version := next\<rparr>, max next 1))"

definition try_reserve_entry :: "sharded_bindings \<Rightarrow> sharded_bindings option" where
  "try_reserve_entry b =
     (if sb_entry_count b < sb_max_entries b
      then Some (b\<lparr>sb_entry_count := sb_entry_count b + 1\<rparr>) else None)"

definition try_reserve_continuation_bytes :: "sharded_bindings \<Rightarrow> nat \<Rightarrow> sharded_bindings option" where
  "try_reserve_continuation_bytes b bytes =
     (if bytes = 0 then Some b
      else if saturating_add_usize (sb_continuation_bytes b) bytes \<le> sb_max_continuation_bytes b
      then Some (b\<lparr>sb_continuation_bytes := sb_continuation_bytes b + bytes\<rparr>) else None)"

datatype insert_rejection = RejectedEntries | RejectedContinuationBytes

text \<open>The operations of a shard guard; \<open>i\<close> is the shard it holds.\<close>

definition guard_get :: "sharded_bindings \<Rightarrow> nat \<Rightarrow> session_hash \<Rightarrow> binding_state option" where
  "guard_get b i key = map_of (sb_shards b ! i) key"

text \<open>Writing through \<open>get_mut\<close>.\<close>

definition guard_set :: "nat \<Rightarrow> session_hash \<Rightarrow> binding_state \<Rightarrow> sharded_bindings \<Rightarrow> sharded_bindings" where
  "guard_set i key entry b = put_shard i (AList.update key entry (sb_shards b ! i)) b"

definition try_insert ::
  "nat \<Rightarrow> session_hash \<Rightarrow> binding_state \<Rightarrow> sharded_bindings \<Rightarrow> sharded_bindings \<times> (insert_rejection + unit)" where
  "try_insert i key entry b =
     (case try_reserve_entry b of
        None \<Rightarrow> (b, Inl RejectedEntries)
      | Some b' \<Rightarrow>
          (case try_reserve_continuation_bytes b' (continuation_footprint entry) of
             None \<Rightarrow> (b'\<lparr>sb_entry_count := wrapping_sub_usize (sb_entry_count b') 1\<rparr>,
                     Inl RejectedContinuationBytes)
           | Some b'' \<Rightarrow> (guard_set i key entry b'', Inr ())))"

text \<open>\<open>None\<close> is the panic of \<open>replace\<close> on a missing entry.\<close>

definition guard_replace ::
  "nat \<Rightarrow> session_hash \<Rightarrow> binding_state \<Rightarrow> sharded_bindings \<Rightarrow> sharded_bindings option" where
  "guard_replace i key entry b =
     (case guard_get b i key of
        None \<Rightarrow> None
      | Some replaced \<Rightarrow>
          (let bytes = continuation_footprint entry;
               replaced_bytes = continuation_footprint replaced;
               b = guard_set i key entry b
           in Some (if bytes < replaced_bytes
                    then b\<lparr>sb_continuation_bytes :=
                             wrapping_sub_usize (sb_continuation_bytes b) (replaced_bytes - bytes)\<rparr>
                    else if replaced_bytes < bytes
                    then b\<lparr>sb_continuation_bytes :=
                             wrapping_add_usize (sb_continuation_bytes b) (bytes - replaced_bytes)\<rparr>
                    else b)))"

definition guard_remove ::
  "nat \<Rightarrow> session_hash \<Rightarrow> sharded_bindings \<Rightarrow> sharded_bindings \<times> binding_state option" where
  "guard_remove i key b =
     (case guard_get b i key of
        None \<Rightarrow> (b, None)
      | Some removed \<Rightarrow>
          (let b = (put_shard i (AList.delete key (sb_shards b ! i)) b)
                     \<lparr>sb_entry_count := wrapping_sub_usize (sb_entry_count b) 1\<rparr>;
               bytes = continuation_footprint removed
           in (if 0 < bytes
               then b\<lparr>sb_continuation_bytes := wrapping_sub_usize (sb_continuation_bytes b) bytes\<rparr>
               else b,
               Some removed)))"

fun remove_keys :: "nat \<Rightarrow> session_hash list \<Rightarrow> sharded_bindings \<Rightarrow> sharded_bindings" where
  "remove_keys i [] b = b"
| "remove_keys i (key # keys) b = remove_keys i keys (fst (guard_remove i key b))"

definition remove_if_expired ::
  "nat \<Rightarrow> session_hash \<Rightarrow> instant \<Rightarrow> duration \<Rightarrow> sharded_bindings \<Rightarrow> sharded_bindings \<times> bool" where
  "remove_if_expired i key now ttl b =
     (case guard_get b i key of
        Some entry \<Rightarrow>
          (if is_expired entry now ttl then (fst (guard_remove i key b), True) else (b, False))
      | None \<Rightarrow> (b, False))"

definition expired_keys :: "instant \<Rightarrow> duration \<Rightarrow> shard \<Rightarrow> session_hash list" where
  "expired_keys now ttl entries = map fst (filter (\<lambda>(key, entry). is_expired entry now ttl) entries)"

definition remove_expired ::
  "nat \<Rightarrow> instant \<Rightarrow> duration \<Rightarrow> sharded_bindings \<Rightarrow> sharded_bindings \<times> nat" where
  "remove_expired i now ttl b =
     (let expired = expired_keys now ttl (sb_shards b ! i)
      in (remove_keys i expired b, length expired))"

definition reclaim_expired_sample ::
  "nat \<Rightarrow> instant \<Rightarrow> duration \<Rightarrow> sharded_bindings \<Rightarrow> sharded_bindings" where
  "reclaim_expired_sample i now ttl b =
     remove_keys i (expired_keys now ttl (take RECLAIM_SAMPLE (sb_shards b ! i))) b"

definition guard_clear :: "nat \<Rightarrow> sharded_bindings \<Rightarrow> sharded_bindings \<times> nat" where
  "guard_clear i b =
     (let entries = sb_shards b ! i;
          cleared = length entries;
          bytes = sum_list (map (continuation_footprint \<circ> snd) entries);
          b = (put_shard i [] b)\<lparr>sb_entry_count := wrapping_sub_usize (sb_entry_count b) cleared\<rparr>
      in (if 0 < bytes
          then b\<lparr>sb_continuation_bytes := wrapping_sub_usize (sb_continuation_bytes b) bytes\<rparr> else b,
          cleared))"

text \<open>Visiting one shard after the other.\<close>

fun remove_expired_from ::
  "nat list \<Rightarrow> instant \<Rightarrow> duration \<Rightarrow> sharded_bindings \<Rightarrow> sharded_bindings \<times> nat" where
  "remove_expired_from [] now ttl b = (b, 0)"
| "remove_expired_from (i # is) now ttl b =
     (let (b, n) = remove_expired i now ttl b;
          (b, m) = remove_expired_from is now ttl b
      in (b, n + m))"

definition remove_expired_all ::
  "instant \<Rightarrow> duration \<Rightarrow> sharded_bindings \<Rightarrow> sharded_bindings \<times> nat" where
  "remove_expired_all now ttl b = remove_expired_from [0..<SHARD_COUNT] now ttl b"

definition elapsed_millis :: "sharded_bindings \<Rightarrow> instant \<Rightarrow> nat" where
  "elapsed_millis b now = min (duration_since now (sb_created_at b) div 1000000) u64_max"

definition reclaim_for_capacity ::
  "instant \<Rightarrow> duration \<Rightarrow> sharded_bindings \<Rightarrow> sharded_bindings \<times> bool" where
  "reclaim_for_capacity now ttl b =
     (let elapsed = elapsed_millis b now;
          last_futile = sb_last_futile_reclaim b
      in if last_futile \<noteq> 0 \<and> elapsed - (last_futile - 1) < FUTILE_RECLAIM_THROTTLE_MILLIS
         then (b, False)
         else (let (b, removed) = remove_expired_all now ttl b;
                   marker = (if removed = 0 then saturating_add_u64 elapsed 1 else 0)
               in (b\<lparr>sb_last_futile_reclaim := marker\<rparr>, 0 < removed)))"

section \<open>The counters are exact\<close>

definition shard_bytes :: "shard \<Rightarrow> nat" where
  "shard_bytes entries = sum_list (map (continuation_footprint \<circ> snd) entries)"

definition bindings_ok :: "sharded_bindings \<Rightarrow> bool" where
  "bindings_ok b \<longleftrightarrow>
     length (sb_shards b) = SHARD_COUNT \<and>
     (\<forall>entries \<in> set (sb_shards b). distinct (map fst entries)) \<and>
     sb_entry_count b = sum_list (map length (sb_shards b)) \<and>
     sb_continuation_bytes b = sum_list (map shard_bytes (sb_shards b)) \<and>
     sb_entry_count b \<le> sb_max_entries b \<and>
     sb_continuation_bytes b \<le> sb_max_continuation_bytes b \<and>
     sb_max_entries b \<le> usize_max \<and> sb_max_continuation_bytes b < usize_max"

lemma sum_list_map_update:
  fixes f :: "'a \<Rightarrow> nat"
  assumes "i < length xs"
  shows "sum_list (map f (xs[i := y])) + f (xs ! i) = sum_list (map f xs) + f y"
  using assms
proof (induction xs arbitrary: i)
  case (Cons x xs)
  then show ?case by (cases i) auto
qed simp

lemma sum_list_map_ge_nth:
  fixes f :: "'a \<Rightarrow> nat"
  assumes "i < length xs"
  shows "f (xs ! i) \<le> sum_list (map f xs)"
  using assms elem_le_sum_list[of i "map f xs"] by simp

lemma length_delete:
  assumes "distinct (map fst xs)" "map_of xs key = Some entry"
  shows "Suc (length (AList.delete key xs)) = length xs"
  using assms
proof (induction xs)
  case (Cons x xs)
  have "fst x = key \<Longrightarrow> AList.delete key xs = xs"
    using Cons.prems(1) by (auto simp: AList.delete_id)
  with Cons show ?case by (cases x) (auto split: if_splits)
qed simp

lemma shard_bytes_delete:
  assumes "distinct (map fst xs)" "map_of xs key = Some entry"
  shows "shard_bytes (AList.delete key xs) + continuation_footprint entry = shard_bytes xs"
  using assms
proof (induction xs)
  case (Cons x xs)
  have "fst x = key \<Longrightarrow> AList.delete key xs = xs"
    using Cons.prems(1) by (auto simp: AList.delete_id)
  with Cons show ?case by (cases x) (auto simp: shard_bytes_def split: if_splits)
qed simp

lemma length_update:
  "length (AList.update key entry xs) = (if key \<in> fst ` set xs then length xs else Suc (length xs))"
  by (induction xs) (auto split: if_splits)

lemma shard_bytes_update:
  "map_of xs key = None \<Longrightarrow>
     shard_bytes (AList.update key entry xs) = shard_bytes xs + continuation_footprint entry"
  "map_of xs key = Some old \<Longrightarrow>
     shard_bytes (AList.update key entry xs) + continuation_footprint old =
       shard_bytes xs + continuation_footprint entry"
  by (induction xs) (auto simp: shard_bytes_def split: if_splits)

lemma bindings_okD:
  assumes "bindings_ok b" "i < SHARD_COUNT"
  shows "i < length (sb_shards b)" "distinct (map fst (sb_shards b ! i))"
    "length (sb_shards b ! i) \<le> sb_entry_count b"
    "shard_bytes (sb_shards b ! i) \<le> sb_continuation_bytes b"
  using assms sum_list_map_ge_nth[of i "sb_shards b" length]
    sum_list_map_ge_nth[of i "sb_shards b" shard_bytes]
  by (auto simp: bindings_ok_def)

text \<open>The one place where the counters are reasoned about: a shard is exchanged for another one
  and the counters move by the difference.\<close>

lemma put_shard_ok:
  assumes b: "bindings_ok b" and i: "i < SHARD_COUNT" and d: "distinct (map fst entries)"
    and c: "sb_shards b' = (sb_shards b)[i := entries]"
      "sb_max_entries b' = sb_max_entries b"
      "sb_max_continuation_bytes b' = sb_max_continuation_bytes b"
      "sb_entry_count b' + length (sb_shards b ! i) = sb_entry_count b + length entries"
      "sb_continuation_bytes b' + shard_bytes (sb_shards b ! i) =
         sb_continuation_bytes b + shard_bytes entries"
    and m: "sb_entry_count b' \<le> sb_max_entries b"
      "sb_continuation_bytes b' \<le> sb_max_continuation_bytes b"
  shows "bindings_ok b'"
proof -
  have len: "i < length (sb_shards b)" using bindings_okD[OF b i] by simp
  note sums = sum_list_map_update[OF len, of length entries]
    sum_list_map_update[OF len, of shard_bytes entries]
  have "\<forall>es \<in> set ((sb_shards b)[i := entries]). distinct (map fst es)"
    using b d set_update_subset_insert[of "sb_shards b" i entries] by (auto simp: bindings_ok_def)
  with b c m sums show ?thesis unfolding bindings_ok_def by simp
qed

lemma bindings_new_ok:
  assumes "max_entries \<le> usize_max" "max_bytes < usize_max"
  shows "bindings_ok (bindings_new max_entries max_bytes now)"
  using assms by (auto simp: bindings_ok_def bindings_new_def shard_bytes_def sum_list_replicate)

lemma guard_remove_ok [inv_intros]:
  assumes b: "bindings_ok b" and i: "i < SHARD_COUNT"
  shows "bindings_ok (fst (guard_remove i key b))"
proof (cases "guard_get b i key")
  case None
  with b show ?thesis by (simp add: guard_remove_def)
next
  case (Some entry)
  note ok = bindings_okD[OF b i]
  from Some have m: "map_of (sb_shards b ! i) key = Some entry" by (simp add: guard_get_def)
  note del = length_delete[OF ok(2) m] shard_bytes_delete[OF ok(2) m]
  have bounds: "sb_entry_count b \<le> sb_max_entries b"
    "sb_continuation_bytes b \<le> sb_max_continuation_bytes b"
    using b by (auto simp: bindings_ok_def)
  show ?thesis
    by (rule put_shard_ok[OF b i, of "AList.delete key (sb_shards b ! i)"])
      (use Some del ok bounds in
        \<open>auto simp: guard_remove_def put_shard_def wrapping_sub_usize_def Let_def distinct_delete\<close>)
qed

lemma remove_keys_ok [inv_intros]:
  "bindings_ok b \<Longrightarrow> i < SHARD_COUNT \<Longrightarrow> bindings_ok (remove_keys i keys b)"
  by (induction keys arbitrary: b) (auto intro: guard_remove_ok)

lemma guard_set_ok:
  assumes b: "bindings_ok b" and i: "i < SHARD_COUNT" and old: "guard_get b i key = Some old"
    and same: "continuation_footprint entry = continuation_footprint old"
  shows "bindings_ok (guard_set i key entry b)"
proof -
  note ok = bindings_okD[OF b i]
  from old have m: "map_of (sb_shards b ! i) key = Some old" by (simp add: guard_get_def)
  then have "key \<in> fst ` set (sb_shards b ! i)" by (metis map_of_eq_None_iff option.distinct(1))
  with b m same shard_bytes_update(2)[OF m, of entry] ok show ?thesis
    by (intro put_shard_ok[OF b i, of "AList.update key entry (sb_shards b ! i)"])
      (auto simp: guard_set_def put_shard_def length_update distinct_update bindings_ok_def)
qed

lemma guard_replace_ok:
  assumes b: "bindings_ok b" and i: "i < SHARD_COUNT" and old: "guard_get b i key = Some old"
    and less: "continuation_footprint entry \<le> continuation_footprint old"
    and r: "guard_replace i key entry b = Some b'"
  shows "bindings_ok b'"
proof -
  note ok = bindings_okD[OF b i]
  from old have m: "map_of (sb_shards b ! i) key = Some old" by (simp add: guard_get_def)
  then have mem: "key \<in> fst ` set (sb_shards b ! i)"
    by (metis map_of_eq_None_iff option.distinct(1))
  have bounds: "sb_entry_count b \<le> sb_max_entries b"
    "sb_continuation_bytes b \<le> sb_max_continuation_bytes b"
    using b by (auto simp: bindings_ok_def)
  have d: "distinct (map fst (AList.update key entry (sb_shards b ! i)))"
    using ok by (simp add: distinct_update)
  note upd = shard_bytes_update(2)[OF m, of entry]
  show ?thesis
    by (rule put_shard_ok[OF b i d])
      (use r old less mem upd ok bounds in
        \<open>auto simp: guard_replace_def guard_set_def put_shard_def length_update
          wrapping_sub_usize_def Let_def split: if_splits\<close>)
qed

lemma try_insert_ok:
  assumes b: "bindings_ok b" and i: "i < SHARD_COUNT" and absent: "guard_get b i key = None"
  shows "bindings_ok (fst (try_insert i key entry b))"
proof -
  note ok = bindings_okD[OF b i]
  from absent have m: "map_of (sb_shards b ! i) key = None" by (simp add: guard_get_def)
  then have mem: "key \<notin> fst ` set (sb_shards b ! i)" by (simp add: map_of_eq_None_iff)
  have bounds: "sb_entry_count b \<le> sb_max_entries b"
    "sb_continuation_bytes b \<le> sb_max_continuation_bytes b"
    "sb_max_continuation_bytes b < usize_max"
    using b by (auto simp: bindings_ok_def)
  have d: "distinct (map fst (AList.update key entry (sb_shards b ! i)))"
    using ok by (simp add: distinct_update)
  note upd = shard_bytes_update(1)[OF m, of entry]
  show ?thesis
  proof (cases "snd (try_insert i key entry b)")
    case (Inl rejection)
    then have "fst (try_insert i key entry b) = b"
      by (auto simp: try_insert_def try_reserve_entry_def wrapping_sub_usize_def
          split: option.splits if_splits)
    with b show ?thesis by simp
  next
    case (Inr u)
    show ?thesis
      by (rule put_shard_ok[OF b i d])
        (use Inr mem upd bounds in
          \<open>auto simp: try_insert_def try_reserve_entry_def try_reserve_continuation_bytes_def
            guard_set_def put_shard_def length_update saturating_add_usize_def
            split: option.splits if_splits\<close>)
  qed
qed

lemma guard_clear_ok:
  assumes b: "bindings_ok b" and i: "i < SHARD_COUNT"
  shows "bindings_ok (fst (guard_clear i b))"
proof -
  note ok = bindings_okD[OF b i]
  have bounds: "sb_entry_count b \<le> sb_max_entries b"
    "sb_continuation_bytes b \<le> sb_max_continuation_bytes b"
    using b by (auto simp: bindings_ok_def)
  have d: "distinct (map fst ([] :: shard))" by simp
  show ?thesis
    by (rule put_shard_ok[OF b i d])
      (use ok bounds in \<open>auto simp: guard_clear_def put_shard_def wrapping_sub_usize_def Let_def
         shard_bytes_def\<close>)
qed

lemma expiry_ok [inv_intros]:
  assumes "bindings_ok b" "i < SHARD_COUNT"
  shows "bindings_ok (fst (remove_if_expired i key now ttl b))"
    "bindings_ok (fst (remove_expired i now ttl b))"
    "bindings_ok (reclaim_expired_sample i now ttl b)"
  using assms
  by (auto simp: remove_if_expired_def remove_expired_def reclaim_expired_sample_def Let_def
      split: option.splits intro: guard_remove_ok remove_keys_ok)

lemma remove_expired_from_ok:
  "bindings_ok b \<Longrightarrow> \<forall>i \<in> set is. i < SHARD_COUNT \<Longrightarrow>
     bindings_ok (fst (remove_expired_from is now ttl b))"
  by (induction "is" arbitrary: b)
    (auto simp: Let_def split_def intro: expiry_ok)

lemma remove_expired_all_ok [inv_intros]:
  "bindings_ok b \<Longrightarrow> bindings_ok (fst (remove_expired_all now ttl b))"
  by (simp add: remove_expired_all_def remove_expired_from_ok)

lemma reclaim_for_capacity_ok [inv_intros]:
  assumes "bindings_ok b"
  shows "bindings_ok (fst (reclaim_for_capacity now ttl b))"
  using remove_expired_all_ok[OF assms, of now ttl] assms
  by (auto simp: reclaim_for_capacity_def Let_def split_def bindings_ok_def)

lemma next_version_ok [inv_intros]:
  "bindings_ok b \<Longrightarrow> bindings_ok (fst (next_version b))"
  by (simp add: next_version_def bindings_ok_def Let_def)

section \<open>What an operation does to the entries\<close>

lemma guard_get_put [simp]:
  "i < length (sb_shards b) \<Longrightarrow>
     guard_get (put_shard i entries b) j key =
       (if i = j then map_of entries key else guard_get b j key)"
  by (simp add: guard_get_def put_shard_def nth_list_update)

lemma guard_get_cong [simp]:
  "guard_get (b\<lparr>sb_entry_count := n\<rparr>) j key = guard_get b j key"
  "guard_get (b\<lparr>sb_continuation_bytes := n\<rparr>) j key = guard_get b j key"
  "guard_get (b\<lparr>sb_next_version := n\<rparr>) j key = guard_get b j key"
  "guard_get (b\<lparr>sb_last_futile_reclaim := n\<rparr>) j key = guard_get b j key"
  by (simp_all add: guard_get_def)

lemma guard_get_set:
  assumes "bindings_ok b" "i < SHARD_COUNT"
  shows "guard_get (guard_set i key entry b) j k =
    (if i = j \<and> k = key then Some entry else guard_get b j k)"
  using bindings_okD(1)[OF assms] 
  by (auto simp: guard_set_def guard_get_def put_shard_def nth_list_update update_conv')

lemma guard_get_remove:
  assumes "bindings_ok b" "i < SHARD_COUNT"
  shows "guard_get (fst (guard_remove i key b)) j k =
    (if i = j \<and> k = key then None else guard_get b j k)"
  using bindings_okD(1)[OF assms]
  by (auto simp: guard_remove_def Let_def guard_get_def put_shard_def nth_list_update delete_conv'
      split: option.splits)

lemma guard_get_remove_keys:
  assumes "bindings_ok b" "i < SHARD_COUNT"
  shows "guard_get (remove_keys i keys b) j k =
    (if i = j \<and> k \<in> set keys then None else guard_get b j k)"
  using assms by (induction keys arbitrary: b) (auto simp: guard_get_remove guard_remove_ok)

lemma expired_keys_iff:
  assumes "distinct (map fst entries)"
  shows "k \<in> set (expired_keys now ttl entries) \<longleftrightarrow>
    (\<exists>entry. map_of entries k = Some entry \<and> is_expired entry now ttl)"
  using assms by (force simp: expired_keys_def)

end
