(* ===== verification/Affinity_Registry.thy ===== *)
theory Affinity_Registry
  imports Affinity_Bindings Scheduler_Epoch
begin

text \<open>
  Session affinity: \<open>registry.rs\<close>, \<open>lease.rs\<close>, \<open>continuation.rs\<close>, \<open>continuation_lease.rs\<close> and
  \<open>inspection.rs\<close> of \<open>crates/runtime/src/affinity\<close>.

  A session that is being bound is represented by a \<open>Creating\<close> entry, a continuation that is still
  streaming by a \<open>Pending\<close> one. Whoever created such an entry holds a lease on it, and everybody
  else waits for the scheduler epoch to advance. Clock reads are arguments; an operation that reads
  the clock several times takes the sequence of readings. \<open>None\<close> is the panic of an exhausted epoch.
\<close>

section \<open>State\<close>

record affinity_registry =
  ar_epoch :: scheduler_epoch
  ar_bindings :: sharded_bindings

datatype affinity_error =
  Capacity | IdentityConflict | LeaseLost | AffinityDeadlineExceeded | ContinuationCapacity |
  ContinuationTooLarge

fun affinity_error_of_rejection :: "insert_rejection \<Rightarrow> affinity_error" where
  "affinity_error_of_rejection RejectedEntries = Capacity"
| "affinity_error_of_rejection RejectedContinuationBytes = ContinuationCapacity"

record binding_lease =
  bl_key :: session_hash
  bl_version :: nat
  bl_active :: bool

record continuation_lease =
  cl_key :: session_hash
  cl_version :: nat
  cl_target :: affinity_target
  cl_active :: bool

datatype binding_start =
  StartCreate binding_lease | StartWait creation_phase | StartBound affinity_target

definition MAX_BINDINGS :: nat where "MAX_BINDINGS = 300000"

definition MAX_BRIDGE_CONTINUATION_TOTAL_BYTES :: nat where
  "MAX_BRIDGE_CONTINUATION_TOTAL_BYTES = 64 * 1024 * 1024"

definition registry_with_limits :: "scheduler_epoch \<Rightarrow> nat \<Rightarrow> instant \<Rightarrow> affinity_registry" where
  "registry_with_limits epoch max_bindings now =
     \<lparr> ar_epoch = epoch,
       ar_bindings = bindings_new max_bindings MAX_BRIDGE_CONTINUATION_TOTAL_BYTES now \<rparr>"

definition registry_with_scheduler_epoch :: "scheduler_epoch \<Rightarrow> instant \<Rightarrow> affinity_registry" where
  "registry_with_scheduler_epoch epoch now = registry_with_limits epoch MAX_BINDINGS now"

definition wake_waiters :: "affinity_registry \<Rightarrow> (affinity_registry \<times> nat) option" where
  "wake_waiters r = do { (e, n) \<leftarrow> advance (ar_epoch r); Some (r\<lparr>ar_epoch := e\<rparr>, n) }"

text \<open>The shard a key is locked in.\<close>

definition shard_for :: "session_hash \<Rightarrow> nat" where
  "shard_for key = shard_index key SHARD_COUNT"

section \<open>Inserting with one reclaim\<close>

text \<open>
  The three operations that create an entry share their loop: one round under the shard lock; if
  the budgets reject the entry, a scan of all shards for expired entries, and if that removed
  anything, exactly one more round.
\<close>

datatype 'a insert_round = Done "affinity_error + 'a" | Rejected insert_rejection

definition with_reclaim ::
  "(nat \<Rightarrow> sharded_bindings \<Rightarrow> sharded_bindings \<times> 'a insert_round) \<Rightarrow>
   (insert_rejection \<Rightarrow> affinity_error) \<Rightarrow> instant \<Rightarrow> duration \<Rightarrow>
   sharded_bindings \<Rightarrow> sharded_bindings \<times> (affinity_error + 'a)" where
  "with_reclaim round err now ttl b =
     (case round 0 b of
        (b, Done result) \<Rightarrow> (b, result)
      | (b, Rejected rejection) \<Rightarrow>
          (case reclaim_for_capacity now ttl b of
             (b, False) \<Rightarrow> (b, Inl (err rejection))
           | (b, True) \<Rightarrow>
               (case round 1 b of
                  (b, Done result) \<Rightarrow> (b, result)
                | (b, Rejected rejection) \<Rightarrow> (b, Inl (err rejection)))))"

section \<open>Sessions\<close>

definition session_existing ::
  "session_hash \<Rightarrow> instant \<Rightarrow> duration \<Rightarrow> sharded_bindings \<Rightarrow> sharded_bindings \<times> binding_start option" where
  "session_existing key now ttl b =
     (case guard_get b (shard_for key) key of
        Some (Bound binding) \<Rightarrow>
          (if duration_since now (tb_last_seen_at binding) < ttl
           then (guard_set (shard_for key) key (Bound (binding\<lparr>tb_last_seen_at := now\<rparr>)) b,
                 Some (StartBound (tb_target binding)))
           else (fst (guard_remove (shard_for key) key b), None))
      | Some (Creating version phase) \<Rightarrow> (b, Some (StartWait phase))
      | None \<Rightarrow> (b, None))"

definition session_create ::
  "session_hash \<Rightarrow> instant \<Rightarrow> duration \<Rightarrow> sharded_bindings \<Rightarrow> sharded_bindings \<times> binding_start insert_round" where
  "session_create key now ttl b =
     (let b = reclaim_expired_sample (shard_for key) now ttl b;
          (b, version) = next_version b
      in case try_insert (shard_for key) key (Creating version PhaseSelecting) b of
           (b, Inr _) \<Rightarrow>
             (b, Done (Inr (StartCreate \<lparr> bl_key = key, bl_version = version, bl_active = True \<rparr>)))
         | (b, Inl rejection) \<Rightarrow> (b, Rejected rejection))"

definition session_round ::
  "session_hash \<Rightarrow> instant \<Rightarrow> duration \<Rightarrow> sharded_bindings \<Rightarrow> sharded_bindings \<times> binding_start insert_round" where
  "session_round key now ttl b =
     (case session_existing key now ttl b of
        (b, Some start) \<Rightarrow> (b, Done (Inr start))
      | (b, None) \<Rightarrow> session_create key now ttl b)"

definition begin_session ::
  "(byte list \<Rightarrow> session_hash) \<Rightarrow> protocol_dialect \<Rightarrow> byte list \<Rightarrow> byte list \<Rightarrow> instant \<Rightarrow> duration \<Rightarrow>
   affinity_registry \<Rightarrow> affinity_registry \<times> (affinity_error + binding_start)" where
  "begin_session mac dialect route_uuid raw now ttl r =
     (let key = hash_session mac dialect route_uuid raw;
          (b, result) = with_reclaim (\<lambda>_. session_round key now ttl) (\<lambda>_. Capacity) now ttl (ar_bindings r)
      in (r\<lparr>ar_bindings := b\<rparr>, result))"

section \<open>Session leases\<close>

definition mark_attempting ::
  "affinity_registry \<Rightarrow> binding_lease \<Rightarrow> (affinity_registry \<times> (affinity_error + unit)) option" where
  "mark_attempting r lease =
     (case guard_get (ar_bindings r) (shard_for (bl_key lease)) (bl_key lease) of
        Some (Creating version phase) \<Rightarrow>
          (if version \<noteq> bl_version lease then Some (r, Inl LeaseLost)
           else do {
             (r, _) \<leftarrow> wake_waiters (r\<lparr>ar_bindings :=
               guard_set (shard_for (bl_key lease)) (bl_key lease)
                 (Creating version PhaseAttempting) (ar_bindings r)\<rparr>);
             Some (r, Inr ()) })
      | _ \<Rightarrow> Some (r, Inl LeaseLost))"

definition remove_current ::
  "affinity_registry \<Rightarrow> binding_lease \<Rightarrow> affinity_registry \<times> binding_lease \<times> bool" where
  "remove_current r lease =
     (if \<not> bl_active lease then (r, lease, False)
      else (let i = shard_for (bl_key lease);
                matches = (case guard_get (ar_bindings r) i (bl_key lease) of
                             Some (Creating version phase) \<Rightarrow> version = bl_version lease
                           | _ \<Rightarrow> False);
                r = (if matches
                     then r\<lparr>ar_bindings := fst (guard_remove i (bl_key lease) (ar_bindings r))\<rparr>
                     else r)
            in (r, lease\<lparr>bl_active := False\<rparr>, matches)))"

definition binding_lease_drop :: "affinity_registry \<Rightarrow> binding_lease \<Rightarrow> affinity_registry option" where
  "binding_lease_drop r lease =
     (case remove_current r lease of
        (r, lease, True) \<Rightarrow> map_option fst (wake_waiters r)
      | (r, lease, False) \<Rightarrow> Some r)"

text \<open>The lease is consumed. It is no longer active when it is dropped, so dropping does nothing.\<close>

definition release_for_wait ::
  "affinity_registry \<Rightarrow> binding_lease \<Rightarrow> (affinity_registry \<times> (affinity_error + nat)) option" where
  "release_for_wait r lease =
     (case remove_current r lease of
        (r, lease, False) \<Rightarrow> Some (r, Inl LeaseLost)
      | (r, lease, True) \<Rightarrow> do { (r, n) \<leftarrow> wake_waiters r; Some (r, Inr n) })"

definition deadline_passed :: "instant option \<Rightarrow> instant \<Rightarrow> bool" where
  "deadline_passed deadline now = (case deadline of None \<Rightarrow> False | Some d \<Rightarrow> d \<le> now)"

definition commit_with_deadline ::
  "affinity_registry \<Rightarrow> binding_lease \<Rightarrow> affinity_target \<Rightarrow> instant option \<Rightarrow> (nat \<Rightarrow> instant) \<Rightarrow>
   (affinity_registry \<times> binding_lease \<times> (affinity_error + unit)) option" where
  "commit_with_deadline r lease target deadline clock =
     (let committed_at = clock 0; i = shard_for (bl_key lease)
      in if deadline_passed deadline committed_at then Some (r, lease, Inl AffinityDeadlineExceeded)
         else if deadline_passed deadline (clock 1) then Some (r, lease, Inl AffinityDeadlineExceeded)
         else if guard_get (ar_bindings r) i (bl_key lease) \<noteq>
                 Some (Creating (bl_version lease) PhaseAttempting)
         then Some (r, lease, Inl LeaseLost)
         else if deadline_passed deadline (clock 2) then Some (r, lease, Inl AffinityDeadlineExceeded)
         else do {
           b \<leftarrow> guard_replace i (bl_key lease)
                  (Bound \<lparr> tb_target = target, tb_last_seen_at = committed_at, tb_source = Session \<rparr>)
                  (ar_bindings r);
           (r, _) \<leftarrow> wake_waiters (r\<lparr>ar_bindings := b\<rparr>);
           Some (r, lease\<lparr>bl_active := False\<rparr>, Inr ()) })"

text \<open>Both consume the lease, which is dropped on the way out.\<close>

definition lease_commit ::
  "affinity_registry \<Rightarrow> binding_lease \<Rightarrow> affinity_target \<Rightarrow> (nat \<Rightarrow> instant) \<Rightarrow>
   (affinity_registry \<times> (affinity_error + unit)) option" where
  "lease_commit r lease target clock =
     do { (r, lease, result) \<leftarrow> commit_with_deadline r lease target None clock;
          r \<leftarrow> binding_lease_drop r lease;
          Some (r, result) }"

definition lease_commit_before ::
  "affinity_registry \<Rightarrow> binding_lease \<Rightarrow> affinity_target \<Rightarrow> instant \<Rightarrow> (nat \<Rightarrow> instant) \<Rightarrow>
   (affinity_registry \<times> (affinity_error + unit)) option" where
  "lease_commit_before r lease target deadline clock =
     do { (r, lease, result) \<leftarrow> commit_with_deadline r lease target (Some deadline) clock;
          r \<leftarrow> binding_lease_drop r lease;
          Some (r, result) }"

section \<open>Continuations\<close>

definition checked_state_bytes :: "continuation_state option \<Rightarrow> affinity_error + nat" where
  "checked_state_bytes continuation =
     (let bytes = (case continuation of None \<Rightarrow> 0 | Some c \<Rightarrow> cs_serialized_bytes c)
      in if bytes \<le> MAX_BRIDGE_CONTINUATION_STATE_BYTES then Inr bytes else Inl ContinuationTooLarge)"

definition check_deadline :: "instant option \<Rightarrow> instant \<Rightarrow> affinity_error + unit" where
  "check_deadline deadline now =
     (if deadline_passed deadline now then Inl AffinityDeadlineExceeded else Inr ())"

datatype continuation_lookup =
  LookupMissing | LookupPending | LookupReady affinity_target "continuation_state option"

definition resolve_continuation ::
  "(byte list \<Rightarrow> session_hash) \<Rightarrow> byte list \<Rightarrow> instant \<Rightarrow> duration \<Rightarrow> (affinity_target \<Rightarrow> bool) \<Rightarrow>
   affinity_registry \<Rightarrow> affinity_registry \<times> continuation_lookup" where
  "resolve_continuation mac raw now ttl target_is_available r =
     (let key = hash_continuation mac raw; i = shard_for key; b = ar_bindings r
      in case guard_get b i key of
           Some (Bound binding) \<Rightarrow>
             (case tb_source binding of
                Continuation (Pending _) \<Rightarrow> (r, LookupPending)
              | Continuation (Ready continuation) \<Rightarrow>
                  (if ttl \<le> duration_since now (tb_last_seen_at binding)
                   then (r\<lparr>ar_bindings := fst (guard_remove i key b)\<rparr>, LookupMissing)
                   else if \<not> target_is_available (tb_target binding) then (r, LookupMissing)
                   else (r\<lparr>ar_bindings := guard_set i key (Bound (binding\<lparr>tb_last_seen_at := now\<rparr>)) b\<rparr>,
                         LookupReady (tb_target binding) continuation))
              | Session \<Rightarrow> (r, LookupMissing))
         | _ \<Rightarrow> (r, LookupMissing))"

text \<open>One round of binding a finished continuation: it reads the clock at \<open>t\<^sub>1\<close> after taking the
  lock, and at \<open>t\<^sub>2\<close> and \<open>t\<^sub>3\<close> before and while it writes.\<close>

definition bind_ready_insert ::
  "session_hash \<Rightarrow> affinity_target \<Rightarrow> continuation_state option \<Rightarrow> instant \<Rightarrow> duration \<Rightarrow> instant option \<Rightarrow>
   instant \<times> instant \<Rightarrow> sharded_bindings \<Rightarrow> sharded_bindings \<times> unit insert_round" where
  "bind_ready_insert key target continuation now ttl deadline t b =
     (let b = reclaim_expired_sample (shard_for key) now ttl b
      in if deadline_passed deadline (fst t) then (b, Done (Inl AffinityDeadlineExceeded))
         else case try_insert (shard_for key) key
                     (Bound \<lparr> tb_target = target, tb_last_seen_at = snd t,
                             tb_source = Continuation (Ready continuation) \<rparr>) b of
                (b, Inr _) \<Rightarrow> (b, Done (Inr ()))
              | (b, Inl rejection) \<Rightarrow> (b, Rejected rejection))"

definition bind_ready_existing ::
  "session_hash \<Rightarrow> affinity_target \<Rightarrow> continuation_state option \<Rightarrow> instant option \<Rightarrow> instant \<times> instant \<Rightarrow>
   binding_state \<Rightarrow> sharded_bindings \<Rightarrow> sharded_bindings \<times> unit insert_round" where
  "bind_ready_existing key target continuation deadline t existing b =
     (case existing of
        Creating _ _ \<Rightarrow> (b, Done (Inl IdentityConflict))
      | Bound binding \<Rightarrow>
          (let idempotent_stateless =
                 tb_target binding = target \<and> continuation = None \<and>
                 tb_source binding = Continuation (Ready None)
           in if \<not> idempotent_stateless then (b, Done (Inl IdentityConflict))
              else if deadline_passed deadline (fst t) then (b, Done (Inl AffinityDeadlineExceeded))
              else (guard_set (shard_for key) key (Bound (binding\<lparr>tb_last_seen_at := snd t\<rparr>)) b,
                    Done (Inr ()))))"

definition bind_ready_round ::
  "session_hash \<Rightarrow> affinity_target \<Rightarrow> continuation_state option \<Rightarrow> instant \<Rightarrow> duration \<Rightarrow> instant option \<Rightarrow>
   instant \<times> instant \<times> instant \<Rightarrow> sharded_bindings \<Rightarrow> sharded_bindings \<times> unit insert_round" where
  "bind_ready_round key target continuation now ttl deadline t b =
     (if deadline_passed deadline (fst t) then (b, Done (Inl AffinityDeadlineExceeded))
      else (let b = fst (remove_if_expired (shard_for key) key now ttl b)
            in case guard_get b (shard_for key) key of
                 Some existing \<Rightarrow>
                   bind_ready_existing key target continuation deadline (snd t) existing b
               | None \<Rightarrow> bind_ready_insert key target continuation now ttl deadline (snd t) b))"

text \<open>The clock readings of round \<open>n\<close>.\<close>

definition round_clock :: "(nat \<Rightarrow> instant) \<Rightarrow> nat \<Rightarrow> instant \<times> instant \<times> instant" where
  "round_clock clock n = (clock (2 + 3 * n), clock (3 + 3 * n), clock (4 + 3 * n))"

definition bind_ready_continuation_with_deadline ::
  "(byte list \<Rightarrow> session_hash) \<Rightarrow> byte list \<Rightarrow> affinity_target \<Rightarrow> continuation_state option \<Rightarrow> duration \<Rightarrow>
   instant option \<Rightarrow> (nat \<Rightarrow> instant) \<Rightarrow> affinity_registry \<Rightarrow> affinity_registry \<times> (affinity_error + unit)" where
  "bind_ready_continuation_with_deadline mac raw target continuation ttl deadline clock r =
     (case check_deadline deadline (clock 0) of
        Inl e \<Rightarrow> (r, Inl e)
      | Inr _ \<Rightarrow>
          (case checked_state_bytes continuation of
             Inl e \<Rightarrow> (r, Inl e)
           | Inr _ \<Rightarrow>
               (let key = hash_continuation mac raw;
                    now = clock 1;
                    (b, result) =
                      with_reclaim
                        (\<lambda>n. bind_ready_round key target continuation now ttl deadline (round_clock clock n))
                        affinity_error_of_rejection now ttl (ar_bindings r)
                in (r\<lparr>ar_bindings := b\<rparr>, result))))"

definition begin_pending_insert ::
  "session_hash \<Rightarrow> affinity_target \<Rightarrow> instant \<Rightarrow> duration \<Rightarrow> instant option \<Rightarrow> instant \<times> instant \<Rightarrow>
   sharded_bindings \<Rightarrow> sharded_bindings \<times> continuation_lease insert_round" where
  "begin_pending_insert key target now ttl deadline t b =
     (let b = reclaim_expired_sample (shard_for key) now ttl b
      in if deadline_passed deadline (fst t) then (b, Done (Inl AffinityDeadlineExceeded))
         else (let (b, version) = next_version b
               in case try_insert (shard_for key) key
                         (Bound \<lparr> tb_target = target, tb_last_seen_at = snd t,
                                 tb_source = Continuation (Pending version) \<rparr>) b of
                    (b, Inr _) \<Rightarrow>
                      (b, Done (Inr \<lparr> cl_key = key, cl_version = version, cl_target = target,
                                     cl_active = True \<rparr>))
                  | (b, Inl rejection) \<Rightarrow> (b, Rejected rejection)))"

definition begin_pending_round ::
  "session_hash \<Rightarrow> affinity_target \<Rightarrow> instant \<Rightarrow> duration \<Rightarrow> instant option \<Rightarrow> instant \<times> instant \<times> instant \<Rightarrow>
   sharded_bindings \<Rightarrow> sharded_bindings \<times> continuation_lease insert_round" where
  "begin_pending_round key target now ttl deadline t b =
     (if deadline_passed deadline (fst t) then (b, Done (Inl AffinityDeadlineExceeded))
      else (let b = fst (remove_if_expired (shard_for key) key now ttl b)
            in if guard_get b (shard_for key) key \<noteq> None then (b, Done (Inl IdentityConflict))
               else begin_pending_insert key target now ttl deadline (snd t) b))"

definition begin_pending_continuation_with_deadline ::
  "(byte list \<Rightarrow> session_hash) \<Rightarrow> byte list \<Rightarrow> affinity_target \<Rightarrow> duration \<Rightarrow> instant option \<Rightarrow>
   (nat \<Rightarrow> instant) \<Rightarrow> affinity_registry \<Rightarrow> affinity_registry \<times> (affinity_error + continuation_lease)" where
  "begin_pending_continuation_with_deadline mac raw target ttl deadline clock r =
     (case check_deadline deadline (clock 0) of
        Inl e \<Rightarrow> (r, Inl e)
      | Inr _ \<Rightarrow>
          (let key = hash_continuation mac raw;
               now = clock 1;
               (b, result) =
                 with_reclaim
                   (\<lambda>n. begin_pending_round key target now ttl deadline (round_clock clock n))
                   affinity_error_of_rejection now ttl (ar_bindings r)
           in (r\<lparr>ar_bindings := b\<rparr>, result)))"

definition bind_ready_continuation ::
  "(byte list \<Rightarrow> session_hash) \<Rightarrow> byte list \<Rightarrow> affinity_target \<Rightarrow> continuation_state option \<Rightarrow> duration \<Rightarrow>
   (nat \<Rightarrow> instant) \<Rightarrow> affinity_registry \<Rightarrow> affinity_registry \<times> (affinity_error + unit)" where
  "bind_ready_continuation mac raw target continuation ttl clock r =
     bind_ready_continuation_with_deadline mac raw target continuation ttl None clock r"

definition bind_ready_continuation_before ::
  "(byte list \<Rightarrow> session_hash) \<Rightarrow> byte list \<Rightarrow> affinity_target \<Rightarrow> continuation_state option \<Rightarrow> duration \<Rightarrow>
   instant \<Rightarrow> (nat \<Rightarrow> instant) \<Rightarrow> affinity_registry \<Rightarrow> affinity_registry \<times> (affinity_error + unit)" where
  "bind_ready_continuation_before mac raw target continuation ttl deadline clock r =
     bind_ready_continuation_with_deadline mac raw target continuation ttl (Some deadline) clock r"

definition begin_pending_continuation ::
  "(byte list \<Rightarrow> session_hash) \<Rightarrow> byte list \<Rightarrow> affinity_target \<Rightarrow> duration \<Rightarrow>
   (nat \<Rightarrow> instant) \<Rightarrow> affinity_registry \<Rightarrow> affinity_registry \<times> (affinity_error + continuation_lease)" where
  "begin_pending_continuation mac raw target ttl clock r =
     begin_pending_continuation_with_deadline mac raw target ttl None clock r"

definition begin_pending_continuation_before ::
  "(byte list \<Rightarrow> session_hash) \<Rightarrow> byte list \<Rightarrow> affinity_target \<Rightarrow> duration \<Rightarrow> instant \<Rightarrow>
   (nat \<Rightarrow> instant) \<Rightarrow> affinity_registry \<Rightarrow> affinity_registry \<times> (affinity_error + continuation_lease)" where
  "begin_pending_continuation_before mac raw target ttl deadline clock r =
     begin_pending_continuation_with_deadline mac raw target ttl (Some deadline) clock r"

text \<open>What a response stream holds to bind its continuation.\<close>

record continuation_committer =
  cc_operation :: protocol_operation
  cc_target :: affinity_target
  cc_ttl :: duration

definition committer_bind_ready ::
  "(byte list \<Rightarrow> session_hash) \<Rightarrow> continuation_committer \<Rightarrow> byte list \<Rightarrow> continuation_state option \<Rightarrow>
   (nat \<Rightarrow> instant) \<Rightarrow> affinity_registry \<Rightarrow> affinity_registry \<times> (affinity_error + unit)" where
  "committer_bind_ready mac c raw state clock r =
     bind_ready_continuation mac raw (cc_target c) state (cc_ttl c) clock r"

definition committer_bind_ready_before ::
  "(byte list \<Rightarrow> session_hash) \<Rightarrow> continuation_committer \<Rightarrow> byte list \<Rightarrow> continuation_state option \<Rightarrow> instant \<Rightarrow>
   (nat \<Rightarrow> instant) \<Rightarrow> affinity_registry \<Rightarrow> affinity_registry \<times> (affinity_error + unit)" where
  "committer_bind_ready_before mac c raw state deadline clock r =
     bind_ready_continuation_before mac raw (cc_target c) state (cc_ttl c) deadline clock r"

definition committer_begin_pending ::
  "(byte list \<Rightarrow> session_hash) \<Rightarrow> continuation_committer \<Rightarrow> byte list \<Rightarrow> (nat \<Rightarrow> instant) \<Rightarrow>
   affinity_registry \<Rightarrow> affinity_registry \<times> (affinity_error + continuation_lease)" where
  "committer_begin_pending mac c raw clock r =
     begin_pending_continuation mac raw (cc_target c) (cc_ttl c) clock r"

definition committer_begin_pending_before ::
  "(byte list \<Rightarrow> session_hash) \<Rightarrow> continuation_committer \<Rightarrow> byte list \<Rightarrow> instant \<Rightarrow> (nat \<Rightarrow> instant) \<Rightarrow>
   affinity_registry \<Rightarrow> affinity_registry \<times> (affinity_error + continuation_lease)" where
  "committer_begin_pending_before mac c raw deadline clock r =
     begin_pending_continuation_before mac raw (cc_target c) (cc_ttl c) deadline clock r"

section \<open>Continuation leases\<close>

definition continuation_ready ::
  "affinity_registry \<Rightarrow> continuation_lease \<Rightarrow> continuation_state option \<Rightarrow> instant option \<Rightarrow> (nat \<Rightarrow> instant) \<Rightarrow>
   (affinity_registry \<times> continuation_lease \<times> (affinity_error + unit)) option" where
  "continuation_ready r lease continuation deadline clock =
     (case check_deadline deadline (clock 0) of
        Inl e \<Rightarrow> Some (r, lease, Inl e)
      | Inr _ \<Rightarrow>
          (case checked_state_bytes continuation of
             Inl e \<Rightarrow> Some (r, lease, Inl e)
           | Inr _ \<Rightarrow>
               (let i = shard_for (cl_key lease);
                    current = (case guard_get (ar_bindings r) i (cl_key lease) of
                                 Some (Bound binding) \<Rightarrow>
                                   tb_target binding = cl_target lease \<and>
                                   tb_source binding = Continuation (Pending (cl_version lease))
                               | _ \<Rightarrow> False)
                in if deadline_passed deadline (clock 1)
                   then Some (r, lease, Inl AffinityDeadlineExceeded)
                   else if \<not> current then Some (r, lease, Inl LeaseLost)
                   else do {
                     b \<leftarrow> guard_replace i (cl_key lease)
                            (Bound \<lparr> tb_target = cl_target lease, tb_last_seen_at = clock 2,
                                    tb_source = Continuation (Ready continuation) \<rparr>)
                            (ar_bindings r);
                     (r, _) \<leftarrow> wake_waiters (r\<lparr>ar_bindings := b\<rparr>);
                     Some (r, lease\<lparr>cl_active := False\<rparr>, Inr ()) })))"

definition continuation_lease_drop :: "affinity_registry \<Rightarrow> continuation_lease \<Rightarrow> affinity_registry option" where
  "continuation_lease_drop r lease =
     (if \<not> cl_active lease then Some r
      else (let i = shard_for (cl_key lease);
                current = (case guard_get (ar_bindings r) i (cl_key lease) of
                             Some (Bound binding) \<Rightarrow>
                               tb_source binding = Continuation (Pending (cl_version lease))
                           | _ \<Rightarrow> False)
            in if current
               then map_option fst
                      (wake_waiters (r\<lparr>ar_bindings := fst (guard_remove i (cl_key lease) (ar_bindings r))\<rparr>))
               else Some r))"

section \<open>Maintenance\<close>

definition is_waiting :: "binding_state \<Rightarrow> bool" where
  "is_waiting entry =
     (case entry of Creating _ _ \<Rightarrow> True | Bound binding \<Rightarrow> is_pending_continuation binding)"

fun clear_shards :: "nat list \<Rightarrow> sharded_bindings \<Rightarrow> sharded_bindings \<times> nat \<times> bool" where
  "clear_shards [] b = (b, 0, False)"
| "clear_shards (i # is) b =
     (let waiting = (\<exists>(key, entry) \<in> set (sb_shards b ! i). is_waiting entry);
          (b, n) = guard_clear i b;
          (b, m, waiting') = clear_shards is b
      in (b, n + m, waiting \<or> waiting'))"

definition clear_all :: "affinity_registry \<Rightarrow> (affinity_registry \<times> nat) option" where
  "clear_all r =
     (let (b, cleared, waiting_state_removed) = clear_shards [0..<SHARD_COUNT] (ar_bindings r);
          r = r\<lparr>ar_bindings := b\<rparr>
      in if waiting_state_removed then do { (r, _) \<leftarrow> wake_waiters r; Some (r, cleared) }
         else Some (r, cleared))"

definition bound_to :: "routing_credential_id \<Rightarrow> binding_state \<Rightarrow> bool" where
  "bound_to credential_id entry =
     (case entry of Bound binding \<Rightarrow> at_credential_id (tb_target binding) = credential_id | _ \<Rightarrow> False)"

text \<open>Removing keys and counting those that were there.\<close>

fun remove_counted :: "nat \<Rightarrow> session_hash list \<Rightarrow> sharded_bindings \<Rightarrow> sharded_bindings \<times> nat" where
  "remove_counted i [] b = (b, 0)"
| "remove_counted i (key # keys) b =
     (let (b, removed) = guard_remove i key b;
          (b, n) = remove_counted i keys b
      in (b, (if removed = None then 0 else 1) + n))"

fun clear_credential_shards ::
  "routing_credential_id \<Rightarrow> nat list \<Rightarrow> sharded_bindings \<Rightarrow> sharded_bindings \<times> nat \<times> bool" where
  "clear_credential_shards credential_id [] b = (b, 0, False)"
| "clear_credential_shards credential_id (i # is) b =
     (let removed = filter (\<lambda>(key, entry). bound_to credential_id entry) (sb_shards b ! i);
          (b, n) = remove_counted i (map fst removed) b;
          (b, m, waiting') = clear_credential_shards credential_id is b
      in (b, n + m, (\<exists>(key, entry) \<in> set removed. is_waiting entry) \<or> waiting'))"

definition clear_credential ::
  "routing_credential_id \<Rightarrow> affinity_registry \<Rightarrow> (affinity_registry \<times> nat) option" where
  "clear_credential credential_id r =
     (let (b, cleared, waiting_state_removed) =
            clear_credential_shards credential_id [0..<SHARD_COUNT] (ar_bindings r);
          r = r\<lparr>ar_bindings := b\<rparr>
      in if waiting_state_removed then do { (r, _) \<leftarrow> wake_waiters r; Some (r, cleared) }
         else Some (r, cleared))"

record affinity_snapshot =
  as_active_session_count :: nat
  as_creating_session_count :: nat

definition is_creating :: "binding_state \<Rightarrow> bool" where
  "is_creating entry = (case entry of Creating _ _ \<Rightarrow> True | Bound _ \<Rightarrow> False)"

definition is_bound_session :: "binding_state \<Rightarrow> bool" where
  "is_bound_session entry =
     (case entry of Bound binding \<Rightarrow> tb_source binding = Session | Creating _ _ \<Rightarrow> False)"

fun snapshot_shards ::
  "nat list \<Rightarrow> instant \<Rightarrow> duration \<Rightarrow> bool \<Rightarrow> sharded_bindings \<Rightarrow> sharded_bindings \<times> affinity_snapshot" where
  "snapshot_shards [] now ttl enabled b =
     (b, \<lparr> as_active_session_count = 0, as_creating_session_count = 0 \<rparr>)"
| "snapshot_shards (i # is) now ttl enabled b =
     (let b = fst (remove_expired i now ttl b);
          entries = map snd (sb_shards b ! i);
          (b, rest) = snapshot_shards is now ttl enabled b
      in (b, if \<not> enabled then rest
             else \<lparr> as_active_session_count =
                       length (filter is_bound_session entries) + as_active_session_count rest,
                    as_creating_session_count =
                       length (filter is_creating entries) + as_creating_session_count rest \<rparr>))"

definition registry_snapshot ::
  "duration \<Rightarrow> bool \<Rightarrow> instant \<Rightarrow> affinity_registry \<Rightarrow> affinity_registry \<times> affinity_snapshot" where
  "registry_snapshot ttl enabled now r =
     (let (b, snapshot) = snapshot_shards [0..<SHARD_COUNT] now ttl enabled (ar_bindings r)
      in (r\<lparr>ar_bindings := b\<rparr>, snapshot))"

definition sweep_expired :: "duration \<Rightarrow> instant \<Rightarrow> affinity_registry \<Rightarrow> affinity_registry \<times> nat" where
  "sweep_expired ttl now r =
     (let (b, removed) = remove_expired_all now ttl (ar_bindings r) in (r\<lparr>ar_bindings := b\<rparr>, removed))"

end
