(* ===== verification/Affinity_Safety.thy ===== *)
theory Affinity_Safety
  imports Affinity_Registry
begin

text \<open>
  What session affinity guarantees. The entries somebody waits for are singled out by
  \<open>wait_at\<close>; each operation is summarised by how it changes the versions handed out and these
  entries (\<open>grants\<close>, \<open>retires\<close>), and histories of operations by any number of lease holders are
  the relation \<open>affinity_run\<close>.
\<close>

section \<open>Removing what has expired\<close>

definition same_limits :: "sharded_bindings \<Rightarrow> sharded_bindings \<Rightarrow> bool" where
  "same_limits b b' \<longleftrightarrow> sb_max_entries b' = sb_max_entries b \<and>
     sb_max_continuation_bytes b' = sb_max_continuation_bytes b"

definition shrinks :: "instant \<Rightarrow> duration \<Rightarrow> sharded_bindings \<Rightarrow> sharded_bindings \<Rightarrow> bool" where
  "shrinks now ttl b b' \<longleftrightarrow>
     bindings_ok b' \<and> same_limits b b' \<and> sb_next_version b' = sb_next_version b \<and>
     (\<forall>j k. guard_get b' j k = guard_get b j k \<or>
        guard_get b' j k = None \<and>
        (\<exists>entry. guard_get b j k = Some entry \<and> is_expired entry now ttl))"

lemma shrinks_refl: "bindings_ok b \<Longrightarrow> shrinks now ttl b b"
  by (simp add: shrinks_def same_limits_def)

lemma shrinks_trans: "shrinks now ttl b c \<Longrightarrow> shrinks now ttl c d \<Longrightarrow> shrinks now ttl b d"
  unfolding shrinks_def same_limits_def by (metis (no_types))

lemma guard_remove_frame [simp]:
  "sb_next_version (fst (guard_remove i key b)) = sb_next_version b"
  "sb_max_entries (fst (guard_remove i key b)) = sb_max_entries b"
  "sb_max_continuation_bytes (fst (guard_remove i key b)) = sb_max_continuation_bytes b"
  by (auto simp: guard_remove_def put_shard_def Let_def split: option.splits)

lemma guard_set_frame [simp]:
  "sb_next_version (guard_set i key entry b) = sb_next_version b"
  "sb_max_entries (guard_set i key entry b) = sb_max_entries b"
  "sb_max_continuation_bytes (guard_set i key entry b) = sb_max_continuation_bytes b"
  by (auto simp: guard_set_def put_shard_def)

lemma remove_keys_frame [simp]:
  "sb_next_version (remove_keys i keys b) = sb_next_version b"
  "sb_max_entries (remove_keys i keys b) = sb_max_entries b"
  "sb_max_continuation_bytes (remove_keys i keys b) = sb_max_continuation_bytes b"
  by (induction keys arbitrary: b) auto

lemma remove_keys_shrinks:
  assumes "bindings_ok b" "i < SHARD_COUNT"
    and "\<And>k. k \<in> set keys \<Longrightarrow> \<exists>entry. guard_get b i k = Some entry \<and> is_expired entry now ttl"
  shows "shrinks now ttl b (remove_keys i keys b)"
  using assms by (auto simp: shrinks_def same_limits_def remove_keys_ok guard_get_remove_keys)

lemma expiry_shrinks [inv_intros]:
  assumes b: "bindings_ok b" and i: "i < SHARD_COUNT"
  shows "shrinks now ttl b (fst (remove_if_expired i key now ttl b))"
    "shrinks now ttl b (fst (remove_expired i now ttl b))"
    "shrinks now ttl b (reclaim_expired_sample i now ttl b)"
proof -
  note d = bindings_okD(2)[OF b i]
  show "shrinks now ttl b (fst (remove_if_expired i key now ttl b))"
    using remove_keys_shrinks[OF b i, of "[key]"] shrinks_refl[OF b]
    by (auto simp: remove_if_expired_def split: option.splits)
  show "shrinks now ttl b (fst (remove_expired i now ttl b))"
    unfolding remove_expired_def Let_def fst_conv
    by (intro remove_keys_shrinks[OF b i]) (simp add: guard_get_def expired_keys_iff[OF d])
  show "shrinks now ttl b (reclaim_expired_sample i now ttl b)"
    unfolding reclaim_expired_sample_def
    by (intro remove_keys_shrinks[OF b i])
      (auto simp: expired_keys_def guard_get_def dest!: in_set_takeD map_of_is_SomeI[OF d])
qed

lemma remove_expired_from_shrinks:
  assumes "bindings_ok b" "\<forall>i \<in> set is. i < SHARD_COUNT"
  shows "shrinks now ttl b (fst (remove_expired_from is now ttl b))"
  using assms
proof (induction "is" arbitrary: b)
  case (Cons i "is")
  have step: "shrinks now ttl b (fst (remove_expired i now ttl b))"
    using Cons.prems by (simp add: expiry_shrinks)
  moreover have "bindings_ok (fst (remove_expired i now ttl b))" using step by (simp add: shrinks_def)
  ultimately show ?case
    using Cons shrinks_trans[OF step] by (simp add: Let_def split_def)
qed (simp add: shrinks_refl)

lemma remove_expired_all_shrinks:
  "bindings_ok b \<Longrightarrow> shrinks now ttl b (fst (remove_expired_all now ttl b))"
  by (simp add: remove_expired_all_def remove_expired_from_shrinks)

lemma reclaim_for_capacity_shrinks:
  assumes b: "bindings_ok b"
  shows "shrinks now ttl b (fst (reclaim_for_capacity now ttl b))"
proof -
  have "shrinks now ttl c (c\<lparr>sb_last_futile_reclaim := m\<rparr>)" if "bindings_ok c" for c m
    using that by (simp add: shrinks_def same_limits_def bindings_ok_def)
  moreover note s = remove_expired_all_shrinks[OF b, of now ttl]
  moreover have "bindings_ok (fst (remove_expired_all now ttl b))" using s by (simp add: shrinks_def)
  ultimately show ?thesis
    using shrinks_refl[OF b] shrinks_trans[OF s]
    by (simp add: reclaim_for_capacity_def Let_def split_def)
qed

section \<open>Entries that are waited for\<close>

text \<open>The version of an entry under construction, and whether it is a pending continuation.\<close>

definition token :: "binding_state \<Rightarrow> (nat \<times> bool) option" where
  "token entry =
     (case entry of
        Creating version _ \<Rightarrow> Some (version, False)
      | Bound binding \<Rightarrow>
          (case tb_source binding of Continuation (Pending version) \<Rightarrow> Some (version, True) | _ \<Rightarrow> None))"

definition wait_at :: "sharded_bindings \<Rightarrow> nat \<Rightarrow> session_hash \<Rightarrow> (nat \<times> bool) option" where
  "wait_at b i key = (case guard_get b i key of None \<Rightarrow> None | Some entry \<Rightarrow> token entry)"

lemma token_simps [simp]:
  "token (Creating version phase) = Some (version, False)"
  "tb_source binding = Session \<Longrightarrow> token (Bound binding) = None"
  "tb_source binding = Continuation (Ready continuation) \<Longrightarrow> token (Bound binding) = None"
  "tb_source binding = Continuation (Pending version) \<Longrightarrow> token (Bound binding) = Some (version, True)"
  "token (Bound (binding\<lparr>tb_last_seen_at := now\<rparr>)) = token (Bound binding)"
  by (simp_all add: token_def)

lemma expired_not_waited: "is_expired entry now ttl \<Longrightarrow> token entry = None"
  by (auto simp: is_expired_def token_def is_pending_continuation_def
      split: binding_state.splits binding_source.splits continuation_lifecycle.splits)

lemma is_waiting_token: "is_waiting entry \<longleftrightarrow> token entry \<noteq> None"
  by (auto simp: is_waiting_def token_def is_pending_continuation_def
      split: binding_state.splits binding_source.splits continuation_lifecycle.splits)

lemma shrinks_wait_at: "shrinks now ttl b b' \<Longrightarrow> wait_at b' j k = wait_at b j k"
  unfolding shrinks_def wait_at_def using expired_not_waited
  by (metis (no_types, lifting) option.case_eq_if option.sel option.distinct(1))

lemma wait_at_set:
  "bindings_ok b \<Longrightarrow> i < SHARD_COUNT \<Longrightarrow>
     wait_at (guard_set i key entry b) j k = (if i = j \<and> k = key then token entry else wait_at b j k)"
  by (simp add: wait_at_def guard_get_set)

lemma wait_at_remove:
  "bindings_ok b \<Longrightarrow> i < SHARD_COUNT \<Longrightarrow>
     wait_at (fst (guard_remove i key b)) j k = (if i = j \<and> k = key then None else wait_at b j k)"
  by (simp add: wait_at_def guard_get_remove)

lemma guard_replace_set:
  assumes "guard_replace i key entry b = Some b'"
  shows "guard_get b' j k = guard_get (guard_set i key entry b) j k"
    "sb_next_version b' = sb_next_version b" "same_limits b b'"
  using assms by (auto simp: guard_replace_def Let_def same_limits_def split: option.splits if_splits)

lemma shard_for_less [simp]: "shard_for key < SHARD_COUNT"
  by (simp add: shard_for_def shard_index_def SHARD_COUNT_def)

section \<open>What an operation hands out\<close>

text \<open>
  \<open>grants safe n b b' g\<close>: at most \<open>n\<close> versions were handed out; if \<open>g\<close> is \<open>Some (key, version, pending)\<close>
  an entry with that fresh version now stands at \<open>key\<close>, where nobody waited before; all other
  waited-for entries are as they were. What is said about versions holds under the side condition
  \<open>safe\<close> and as long as the counter does not wrap around.
\<close>

definition grants ::
  "bool \<Rightarrow> nat \<Rightarrow> sharded_bindings \<Rightarrow> sharded_bindings \<Rightarrow> (session_hash \<times> nat \<times> bool) option \<Rightarrow> bool" where
  "grants safe n b b' g \<longleftrightarrow>
     bindings_ok b' \<and> same_limits b b' \<and>
     (safe \<and> sb_next_version b + n < 2 ^ 64 \<longrightarrow>
        sb_next_version b \<le> sb_next_version b' \<and> sb_next_version b' \<le> sb_next_version b + n \<and>
        (case g of
           None \<Rightarrow> wait_at b' = wait_at b
         | Some (key, version, pending) \<Rightarrow>
             sb_next_version b < version \<and> version = sb_next_version b' \<and>
             wait_at b (shard_for key) key = None \<and>
             (\<forall>j k. wait_at b' j k =
                (if j = shard_for key \<and> k = key then Some (version, pending) else wait_at b j k))))"

lemma grants_trans:
  assumes "grants safe n b c None" "grants safe' m c d g" "safe \<Longrightarrow> wait_at c = wait_at b \<Longrightarrow> safe'"
  shows "grants safe (n + m) b d g"
  using assms unfolding grants_def same_limits_def
  by (cases g) (auto split: prod.splits)

lemma grants_mono: "grants safe n b c g \<Longrightarrow> n \<le> m \<Longrightarrow> grants safe m b c g"
  unfolding grants_def by (cases g) (auto split: prod.splits)

lemma shrinks_grants: "shrinks now ttl b b' \<Longrightarrow> grants safe 0 b b' None"
  using shrinks_wait_at by (auto simp: grants_def shrinks_def fun_eq_iff)

lemma refresh_grants:
  assumes "bindings_ok b" "i < SHARD_COUNT" "guard_get b i key = Some (Bound binding)"
  shows "grants safe 0 b (guard_set i key (Bound (binding\<lparr>tb_last_seen_at := now\<rparr>)) b) None"
proof -
  have "bindings_ok (guard_set i key (Bound (binding\<lparr>tb_last_seen_at := now\<rparr>)) b)"
    using guard_set_ok[OF assms] by (simp add: continuation_footprint_def)
  then show ?thesis
    using assms by (auto simp: grants_def same_limits_def wait_at_set fun_eq_iff) (auto simp: wait_at_def)
qed

lemma try_insert_cases:
  assumes "bindings_ok b" "i < SHARD_COUNT" "guard_get b i key = None"
  obtains b' where "try_insert i key entry b = (b', Inr ())" "bindings_ok b'" "same_limits b b'"
      "sb_next_version b' = sb_next_version b"
      "\<And>j k. guard_get b' j k = (if i = j \<and> k = key then Some entry else guard_get b j k)"
  | rejection where "try_insert i key entry b = (b, Inl rejection)"
proof (cases "snd (try_insert i key entry b)")
  case (Inl rejection)
  then have "try_insert i key entry b = (b, Inl rejection)"
    by (auto simp: try_insert_def try_reserve_entry_def wrapping_sub_usize_def
        split: option.splits if_splits)
  then show ?thesis using that(2) by blast
next
  case (Inr u)
  define b' where "b' = fst (try_insert i key entry b)"
  have eq: "try_insert i key entry b = (b', Inr ())" using Inr by (simp add: b'_def prod_eq_iff)
  have "bindings_ok b'" unfolding b'_def by (rule try_insert_ok[OF assms])
  moreover have "\<exists>c. b' = guard_set i key entry c \<and> sb_shards c = sb_shards b \<and> same_limits b c \<and>
      sb_next_version c = sb_next_version b"
    using Inr unfolding b'_def
    by (auto simp: try_insert_def try_reserve_entry_def try_reserve_continuation_bytes_def same_limits_def
        split: option.splits if_splits)
  moreover have "i < length (sb_shards b)" using bindings_okD[OF assms(1,2)] by simp
  ultimately show ?thesis
    by (intro that(1)[OF eq])
      (auto simp: same_limits_def guard_get_def guard_set_def put_shard_def nth_list_update update_conv')
qed

text \<open>Inserting an entry under construction with the next version.\<close>

lemma insert_grants:
  assumes b: "bindings_ok b" and absent: "guard_get b (shard_for key) key = None"
    and tok: "token entry = Some (snd (next_version b), pending)"
    and eq: "try_insert (shard_for key) key entry (fst (next_version b)) = (b', result)"
  shows "grants safe 1 b b' (case result of Inr _ \<Rightarrow> Some (key, snd (next_version b), pending) | Inl _ \<Rightarrow> None)"
proof -
  define c where "c = fst (next_version b)"
  have c: "bindings_ok c" "guard_get c j k = guard_get b j k" "same_limits b c"
    "sb_next_version b + 1 < 2 ^ 64 \<Longrightarrow> sb_next_version c = Suc (sb_next_version b)"
    "sb_next_version b + 1 < 2 ^ 64 \<Longrightarrow> snd (next_version b) = Suc (sb_next_version b)" for j k
    using next_version_ok[OF b] unfolding c_def
    by (auto simp: next_version_def Let_def wrapping_add_usize_def same_limits_def)
  from absent c have "guard_get c (shard_for key) key = None" by simp
  from try_insert_cases[OF c(1) shard_for_less this, of entry] show ?thesis
  proof cases
    case (1 d)
    with eq have "b' = d" "result = Inr ()" by (auto simp: c_def)
    with 1 c tok absent show ?thesis
      by (auto simp: grants_def same_limits_def wait_at_def)
  next
    case 2
    with eq c show ?thesis by (auto simp: c_def grants_def wait_at_def same_limits_def fun_eq_iff)
  qed
qed

text \<open>A round either is done or was rejected; \<open>lease\<close> reads off what a result hands out.\<close>

definition round_grants ::
  "bool \<Rightarrow> ('a \<Rightarrow> (session_hash \<times> nat \<times> bool) option) \<Rightarrow> sharded_bindings \<Rightarrow>
   sharded_bindings \<times> 'a insert_round \<Rightarrow> bool" where
  "round_grants safe lease b result \<longleftrightarrow>
     grants safe 1 b (fst result) (case snd result of Done (Inr x) \<Rightarrow> lease x | _ \<Rightarrow> None)"

text \<open>
  The contract of a round, under which the loop around it hands out at most two versions and at
  most one lease.
\<close>

locale insert_loop =
  fixes round :: "nat \<Rightarrow> sharded_bindings \<Rightarrow> sharded_bindings \<times> 'a insert_round"
    and lease :: "'a \<Rightarrow> (session_hash \<times> nat \<times> bool) option"
    and safe :: "(nat \<Rightarrow> session_hash \<Rightarrow> (nat \<times> bool) option) \<Rightarrow> bool"
  assumes round: "bindings_ok c \<Longrightarrow> round_grants (safe (wait_at c)) lease c (round n c)"
begin

lemma with_reclaim_grants:
  assumes b: "bindings_ok b"
    and eq: "with_reclaim round err now ttl b = (b', result)"
  shows "grants (safe (wait_at b)) 2 b b' (case result of Inr x \<Rightarrow> lease x | Inl _ \<Rightarrow> None)"
proof -
  obtain b1 out1 where r1: "round 0 b = (b1, out1)" by fastforce
  have g1: "grants (safe (wait_at b)) 1 b b1 (case out1 of Done (Inr x) \<Rightarrow> lease x | _ \<Rightarrow> None)"
    using round[OF b, of 0] r1 by (simp add: round_grants_def)
  show ?thesis
  proof (cases out1)
    case (Done x)
    with eq r1 g1 show ?thesis
      by (auto simp: with_reclaim_def split: sum.splits intro: grants_mono)
  next
    case (Rejected rejection)
    obtain b2 progress where r2: "reclaim_for_capacity now ttl b1 = (b2, progress)" by fastforce
    have ok1: "bindings_ok b1" using g1 by (simp add: grants_def)
    have "grants True 0 b1 b2 None"
      using shrinks_grants[OF reclaim_for_capacity_shrinks[OF ok1, of now ttl]] r2 by simp
    with g1 Rejected have g2: "grants (safe (wait_at b)) 1 b b2 None"
      using grants_trans[of "safe (wait_at b)" 1 b b1 True 0 b2 None] by simp
    then have ok2: "bindings_ok b2" by (simp add: grants_def)
    obtain b3 out3 where r3: "round 1 b2 = (b3, out3)" by fastforce
    with round[OF ok2, of 1]
    have "grants (safe (wait_at b)) 2 b b3 (case out3 of Done (Inr x) \<Rightarrow> lease x | _ \<Rightarrow> None)"
      using grants_trans[OF g2] by (simp add: round_grants_def flip: one_add_one)
    with eq r1 r2 r3 Rejected grants_mono[OF g2, of 2] show ?thesis
      by (auto simp: with_reclaim_def split: bool.splits insert_round.splits sum.splits)
  qed
qed

lemma done_in_round:
  assumes b: "bindings_ok b" and eq: "with_reclaim round err now ttl b = (b', Inr x)"
  obtains n c where "bindings_ok c" "round n c = (b', Done (Inr x))"
proof -
  obtain b1 out1 where r1: "round 0 b = (b1, out1)" by fastforce
  have ok1: "bindings_ok b1" using round[OF b, of 0] r1 by (simp add: round_grants_def grants_def)
  obtain b2 progress where r2: "reclaim_for_capacity now ttl b1 = (b2, progress)" by fastforce
  have ok2: "bindings_ok b2" using reclaim_for_capacity_ok[OF ok1, of now ttl] r2 by simp
  show ?thesis
  proof (cases out1)
    case (Done y)
    with eq r1 show ?thesis using that[OF b, of 0] by (simp add: with_reclaim_def)
  next
    case (Rejected rejection)
    with eq r1 r2 have "round 1 b2 = (b', Done (Inr x))"
      by (auto simp: with_reclaim_def split: bool.splits prod.splits insert_round.splits)
    with that ok2 show ?thesis by blast
  qed
qed

end

section \<open>The operations\<close>

definition start_lease :: "binding_start \<Rightarrow> (session_hash \<times> nat \<times> bool) option" where
  "start_lease start =
     (case start of StartCreate lease \<Rightarrow> Some (bl_key lease, bl_version lease, False) | _ \<Rightarrow> None)"

definition pending_lease :: "continuation_lease \<Rightarrow> (session_hash \<times> nat \<times> bool) option" where
  "pending_lease lease = Some (cl_key lease, cl_version lease, True)"

text \<open>No continuation is pending under a key.\<close>

definition no_pending :: "session_hash \<Rightarrow> (nat \<Rightarrow> session_hash \<Rightarrow> (nat \<times> bool) option) \<Rightarrow> bool" where
  "no_pending key waits \<longleftrightarrow> (\<forall>version. waits (shard_for key) key \<noteq> Some (version, True))"

lemma session_create_grants:
  assumes b: "bindings_ok b" and absent: "guard_get b (shard_for key) key = None"
  shows "round_grants safe start_lease b (session_create key now ttl b)"
proof -
  define c where "c = reclaim_expired_sample (shard_for key) now ttl b"
  have s: "shrinks now ttl b c" unfolding c_def by (rule expiry_shrinks[OF b shard_for_less])
  then have c: "bindings_ok c" "guard_get c (shard_for key) key = None"
    using absent unfolding shrinks_def by (blast, metis option.distinct(1))
  let ?entry = "Creating (snd (next_version c)) PhaseSelecting"
  obtain d result where eq: "try_insert (shard_for key) key ?entry (fst (next_version c)) = (d, result)"
    by fastforce
  have "token ?entry = Some (snd (next_version c), False)" by simp
  from grants_trans[OF shrinks_grants[OF s] insert_grants[OF c this eq, of safe], of safe] show ?thesis
    using eq by (auto simp: session_create_def round_grants_def start_lease_def split_def
        c_def[symmetric] Let_def split: sum.splits)
qed

lemma session_existing_grants:
  assumes b: "bindings_ok b" and eq: "session_existing key now ttl b = (c, start)"
  shows "grants (no_pending key (wait_at b)) 0 b c None"
    "start = None \<Longrightarrow> guard_get c (shard_for key) key = None"
    "start \<noteq> Some (StartCreate lease)"
proof -
  have "grants (no_pending key (wait_at b)) 0 b (fst (guard_remove (shard_for key) key b)) None"
    if "guard_get b (shard_for key) key = Some (Bound binding)" for binding
    using b that
    by (auto simp: grants_def same_limits_def guard_remove_ok wait_at_remove fun_eq_iff no_pending_def)
      (auto simp: wait_at_def token_def split: binding_source.splits continuation_lifecycle.splits)
  with b eq show "grants (no_pending key (wait_at b)) 0 b c None"
    by (auto simp: session_existing_def split: option.splits binding_state.splits if_splits
        intro: refresh_grants shrinks_grants[OF shrinks_refl])
  show "start = None \<Longrightarrow> guard_get c (shard_for key) key = None"
    "start \<noteq> Some (StartCreate lease)"
    using b eq by (auto simp: session_existing_def guard_get_remove
        split: option.splits binding_state.splits if_splits)
qed

lemma session_round_grants:
  assumes b: "bindings_ok b"
  shows "round_grants (no_pending key (wait_at b)) start_lease b (session_round key now ttl b)"
proof -
  obtain c start where eq: "session_existing key now ttl b = (c, start)" by fastforce
  note existing = session_existing_grants[OF b eq]
  have c: "bindings_ok c" using existing(1) by (simp add: grants_def)
  show ?thesis
  proof (cases start)
    case None
    with session_create_grants[OF c existing(2)] eq
    show ?thesis
      using grants_trans[OF existing(1), of True 1] by (simp add: session_round_def round_grants_def)
  next
    case (Some x)
    with existing(3) have "start_lease x = None" by (auto simp: start_lease_def split: binding_start.splits)
    with Some eq existing(1) show ?thesis
      using grants_mono[OF existing(1), of 1] by (simp add: session_round_def round_grants_def)
  qed
qed

interpretation session_loop: insert_loop "\<lambda>_. session_round key now ttl" start_lease "no_pending key"
  for key now ttl
  by unfold_locales (rule session_round_grants)

lemma begin_session_grants:
  assumes b: "bindings_ok (ar_bindings r)"
    and eq: "begin_session mac dialect uuid raw now ttl r = (r', result)"
  shows "grants (no_pending (hash_session mac dialect uuid raw) (wait_at (ar_bindings r))) 2
      (ar_bindings r) (ar_bindings r') (case result of Inr x \<Rightarrow> start_lease x | Inl _ \<Rightarrow> None)"
    "ar_epoch r' = ar_epoch r"
  using eq session_loop.with_reclaim_grants[OF b]
  by (auto simp: begin_session_def split_def Let_def prod_eq_iff)

lemma insert_ready_grants:
  assumes b: "bindings_ok b" and absent: "guard_get b (shard_for key) key = None"
    and tok: "token entry = None"
  shows "grants safe 0 b (fst (try_insert (shard_for key) key entry b)) None"
  using try_insert_cases[OF b shard_for_less absent, of entry]
proof cases
  case (1 d)
  with absent tok show ?thesis by (auto simp: grants_def same_limits_def wait_at_def fun_eq_iff)
next
  case 2
  with b show ?thesis using shrinks_grants[OF shrinks_refl] by simp
qed

lemma bind_ready_insert_grants:
  assumes b: "bindings_ok b" and absent: "guard_get b (shard_for key) key = None"
  shows "grants safe 0 b (fst (bind_ready_insert key target continuation now ttl deadline t b)) None"
proof -
  define c where "c = reclaim_expired_sample (shard_for key) now ttl b"
  have s: "shrinks now ttl b c" unfolding c_def by (rule expiry_shrinks[OF b shard_for_less])
  then have c: "bindings_ok c" "guard_get c (shard_for key) key = None"
    using absent unfolding shrinks_def by (blast, metis option.distinct(1))
  note g = insert_ready_grants[OF c, of "Bound \<lparr> tb_target = target, tb_last_seen_at = snd t,
    tb_source = Continuation (Ready continuation) \<rparr>" safe]
  show ?thesis
    using grants_trans[OF shrinks_grants[OF s] g, of safe] shrinks_grants[OF s]
    by (auto simp: bind_ready_insert_def Let_def c_def[symmetric] split_def case_sum_if
        split: sum.splits prod.splits)
qed

lemma bind_ready_round_grants:
  assumes b: "bindings_ok b"
  shows "round_grants safe (\<lambda>_. None) b (bind_ready_round key target continuation now ttl deadline t b)"
proof -
  define c where "c = fst (remove_if_expired (shard_for key) key now ttl b)"
  have bc: "shrinks now ttl b c" unfolding c_def by (rule expiry_shrinks[OF b shard_for_less])
  then have c: "bindings_ok c" by (simp add: shrinks_def)
  have g: "grants safe 1 b x None" if "grants True 0 c x None" for x
    using grants_mono[OF grants_trans[OF shrinks_grants[OF bc] that], of safe 1] by simp
  have "grants True 0 c (fst (bind_ready_existing key target continuation deadline (snd t) entry c)) None"
    if "guard_get c (shard_for key) key = Some entry" for entry
    using that c by (auto simp: bind_ready_existing_def split: binding_state.splits
        intro: refresh_grants shrinks_grants[OF shrinks_refl])
  with g bind_ready_insert_grants[OF c, of key True] grants_mono[OF shrinks_grants[OF shrinks_refl[OF b]], of 1]
  show ?thesis
    by (auto simp: bind_ready_round_def round_grants_def c_def[symmetric] Let_def
        cong: insert_round.case_cong split: option.splits insert_round.splits sum.splits)
qed

interpretation bind_ready_loop: insert_loop
  "\<lambda>n. bind_ready_round key target continuation now ttl deadline (t n)" "\<lambda>_. None" "\<lambda>_. True"
  for key target continuation now ttl deadline t
  by unfold_locales (rule bind_ready_round_grants)

lemma begin_pending_insert_grants:
  assumes b: "bindings_ok b" and absent: "guard_get b (shard_for key) key = None"
  shows "round_grants safe pending_lease b (begin_pending_insert key target now ttl deadline t b)"
proof -
  define c where "c = reclaim_expired_sample (shard_for key) now ttl b"
  have s: "shrinks now ttl b c" unfolding c_def by (rule expiry_shrinks[OF b shard_for_less])
  then have c: "bindings_ok c" "guard_get c (shard_for key) key = None"
    using absent unfolding shrinks_def by (blast, metis option.distinct(1))
  let ?entry = "Bound \<lparr> tb_target = target, tb_last_seen_at = snd t,
    tb_source = Continuation (Pending (snd (next_version c))) \<rparr>"
  obtain d result where eq: "try_insert (shard_for key) key ?entry (fst (next_version c)) = (d, result)"
    by fastforce
  have "token ?entry = Some (snd (next_version c), True)" by simp
  note g = grants_trans[OF shrinks_grants[OF s] insert_grants[OF c this eq, of safe], of safe]
    grants_mono[OF shrinks_grants[OF s, of safe], of 1]
  then show ?thesis
    using eq by (auto simp: begin_pending_insert_def round_grants_def pending_lease_def split_def
        c_def[symmetric] Let_def split: sum.splits)
qed

lemma begin_pending_round_grants:
  assumes b: "bindings_ok b"
  shows "round_grants safe pending_lease b (begin_pending_round key target now ttl deadline t b)"
proof -
  define c where "c = fst (remove_if_expired (shard_for key) key now ttl b)"
  have bc: "shrinks now ttl b c" unfolding c_def by (rule expiry_shrinks[OF b shard_for_less])
  then have c: "bindings_ok c" by (simp add: shrinks_def)
  have "round_grants safe pending_lease b (begin_pending_insert key target now ttl deadline (snd t) c)"
    if "guard_get c (shard_for key) key = None"
    using grants_trans[OF shrinks_grants[OF bc], of True 1 _ _ safe] begin_pending_insert_grants[OF c that]
    by (simp add: round_grants_def)
  with grants_mono[OF shrinks_grants[OF shrinks_refl[OF b]], of 1]
    grants_mono[OF shrinks_grants[OF bc], of 1] show ?thesis
    by (auto simp: begin_pending_round_def round_grants_def c_def[symmetric] Let_def)
qed

interpretation begin_pending_loop: insert_loop
  "\<lambda>n. begin_pending_round key target now ttl deadline (t n)" pending_lease "\<lambda>_. True"
  for key target now ttl deadline t
  by unfold_locales (rule begin_pending_round_grants)

lemma bind_ready_continuation_grants:
  assumes b: "bindings_ok (ar_bindings r)"
    and eq: "bind_ready_continuation_with_deadline mac raw target continuation ttl deadline clock r = (r', result)"
  shows "grants True 2 (ar_bindings r) (ar_bindings r') None" "ar_epoch r' = ar_epoch r"
proof -
  obtain b' res where w: "with_reclaim (\<lambda>n. bind_ready_round (hash_continuation mac raw) target continuation
      (clock 1) ttl deadline (round_clock clock n)) affinity_error_of_rejection (clock 1) ttl
      (ar_bindings r) = (b', res)" by fastforce
  have "grants True 2 (ar_bindings r) b' None"
    using bind_ready_loop.with_reclaim_grants[OF b w]
    by (simp split: sum.splits)
  with eq w grants_mono[OF shrinks_grants[OF shrinks_refl[OF b], of True], of 2]
  show "grants True 2 (ar_bindings r) (ar_bindings r') None" "ar_epoch r' = ar_epoch r"
    by (auto simp: bind_ready_continuation_with_deadline_def Let_def split: sum.splits)
qed

lemma begin_pending_continuation_grants:
  assumes b: "bindings_ok (ar_bindings r)"
    and eq: "begin_pending_continuation_with_deadline mac raw target ttl deadline clock r = (r', result)"
  shows "grants True 2 (ar_bindings r) (ar_bindings r') (case result of Inr x \<Rightarrow> pending_lease x | Inl _ \<Rightarrow> None)"
    "ar_epoch r' = ar_epoch r"
proof -
  obtain b' res where w: "with_reclaim (\<lambda>n. begin_pending_round (hash_continuation mac raw) target
      (clock 1) ttl deadline (round_clock clock n)) affinity_error_of_rejection (clock 1) ttl
      (ar_bindings r) = (b', res)" by fastforce
  have "grants True 2 (ar_bindings r) b' (case res of Inr x \<Rightarrow> pending_lease x | Inl _ \<Rightarrow> None)"
    using begin_pending_loop.with_reclaim_grants[OF b w] .
  with eq w grants_mono[OF shrinks_grants[OF shrinks_refl[OF b], of True], of 2]
  show "grants True 2 (ar_bindings r) (ar_bindings r') (case result of Inr x \<Rightarrow> pending_lease x | Inl _ \<Rightarrow> None)"
    "ar_epoch r' = ar_epoch r"
    by (auto simp: begin_pending_continuation_with_deadline_def Let_def split: sum.splits)
qed

lemma resolve_continuation_grants:
  assumes b: "bindings_ok (ar_bindings r)"
    and eq: "resolve_continuation mac raw now ttl available r = (r', result)"
  shows "grants True 2 (ar_bindings r) (ar_bindings r') None" "ar_epoch r' = ar_epoch r"
proof -
  have "grants True 0 (ar_bindings r) (fst (guard_remove i key (ar_bindings r))) None"
    if "guard_get (ar_bindings r) i key = Some (Bound binding)" "i < SHARD_COUNT"
      "tb_source binding = Continuation (Ready c)" for i key binding c
    using b that
    by (auto simp: grants_def same_limits_def guard_remove_ok wait_at_remove fun_eq_iff)
      (auto simp: wait_at_def)
  with eq b have "grants True 0 (ar_bindings r) (ar_bindings r') None"
    by (auto simp: resolve_continuation_def Let_def
        split: option.splits binding_state.splits binding_source.splits continuation_lifecycle.splits if_splits
        intro: refresh_grants[OF b shard_for_less] shrinks_grants[OF shrinks_refl])
  then show "grants True 2 (ar_bindings r) (ar_bindings r') None" by (rule grants_mono) simp
  show "ar_epoch r' = ar_epoch r"
    using eq by (auto simp: resolve_continuation_def Let_def
        split: option.splits binding_state.splits binding_source.splits continuation_lifecycle.splits if_splits)
qed

end
