(* ===== verification/Affinity_History.thy ===== *)
theory Affinity_History
  imports Affinity_Safety
begin

text \<open>
  Histories of the affinity registry. A world is the registry with the leases that are held at the
  moment; a step is one operation of one of the holders, of a new request, of the sweeper or of the
  administrator, with arbitrary clock readings. Operations that visit several shards are one step.
\<close>

section \<open>Leases\<close>

definition woke :: "affinity_registry \<Rightarrow> affinity_registry \<Rightarrow> bool" where
  "woke r r' \<longleftrightarrow> (\<exists>n. advance (ar_epoch r) = Some (ar_epoch r', n))"

lemma wake_waiters_woke:
  assumes "wake_waiters r = Some (r', n)"
  shows "woke r r'" "ar_bindings r' = ar_bindings r"
  using assms by (auto simp: wake_waiters_def woke_def bind_eq_Some_conv)

text \<open>
  \<open>drops lost r r'\<close>: entries that are waited for may have disappeared, but only if \<open>lost\<close> holds.
  \<open>retires r r' key tok\<close>: the entry at \<open>key\<close> has disappeared if it was the one of \<open>tok\<close>, and then the
  waiters were woken.
\<close>

definition drops :: "bool \<Rightarrow> sharded_bindings \<Rightarrow> sharded_bindings \<Rightarrow> bool" where
  "drops lost b b' \<longleftrightarrow>
     bindings_ok b' \<and> same_limits b b' \<and> sb_next_version b' = sb_next_version b \<and>
     (\<forall>j k. wait_at b' j k = wait_at b j k \<or> wait_at b' j k = None \<and> lost)"

definition retires ::
  "affinity_registry \<Rightarrow> affinity_registry \<Rightarrow> session_hash \<Rightarrow> nat \<times> bool \<Rightarrow> bool" where
  "retires r r' key tok \<longleftrightarrow>
     drops (woke r r') (ar_bindings r) (ar_bindings r') \<and>
     (woke r r' \<or> ar_epoch r' = ar_epoch r) \<and>
     wait_at (ar_bindings r') (shard_for key) key \<noteq> Some tok \<and>
     (\<forall>j k. (j, k) \<noteq> (shard_for key, key) \<or> wait_at (ar_bindings r) j k \<noteq> Some tok \<longrightarrow>
        wait_at (ar_bindings r') j k = wait_at (ar_bindings r) j k)"

lemma drops_refl: "bindings_ok b \<Longrightarrow> drops lost b b"
  by (simp add: drops_def same_limits_def)

lemma drops_trans: "drops l b c \<Longrightarrow> drops m c d \<Longrightarrow> drops (l \<or> m) b d"
  unfolding drops_def same_limits_def by metis

lemma drops_mono: "drops l b c \<Longrightarrow> (l \<Longrightarrow> m) \<Longrightarrow> drops m b c"
  unfolding drops_def by blast

lemma retires_refl:
  "bindings_ok (ar_bindings r) \<Longrightarrow> wait_at (ar_bindings r) (shard_for key) key \<noteq> Some tok \<Longrightarrow>
     retires r r key tok"
  by (simp add: retires_def drops_refl)

lemma guard_remove_retires:
  assumes "bindings_ok (ar_bindings r)" "wait_at (ar_bindings r) (shard_for key) key = Some tok"
    "wake_waiters (r\<lparr>ar_bindings := fst (guard_remove (shard_for key) key (ar_bindings r))\<rparr>) = Some (r', n)"
  shows "retires r r' key tok"
  using assms wake_waiters_woke[OF assms(3)]
  by (auto simp: retires_def drops_def woke_def same_limits_def guard_remove_ok wait_at_remove)

lemma guard_replace_retires:
  assumes b: "bindings_ok (ar_bindings r)" and old: "guard_get (ar_bindings r) (shard_for key) key = Some old"
    and tok: "token old = Some tok" "token entry = None"
    and less: "continuation_footprint entry \<le> continuation_footprint old"
    and rep: "guard_replace (shard_for key) key entry (ar_bindings r) = Some b"
    and wake: "wake_waiters (r\<lparr>ar_bindings := b\<rparr>) = Some (r', n)"
  shows "retires r r' key tok"
proof -
  have "wait_at b j k = (if j = shard_for key \<and> k = key then None else wait_at (ar_bindings r) j k)" for j k
    using guard_replace_set(1)[OF rep] assms(1) tok by (auto simp: wait_at_def guard_get_set)
  with guard_replace_ok[OF assms(1) shard_for_less old less rep] guard_replace_set[OF rep]
    wake_waiters_woke[OF wake] old tok show ?thesis
    by (auto simp: retires_def drops_def woke_def) (auto simp: wait_at_def)
qed

lemma remove_current_cases:
  assumes "remove_current r lease = (r', lease', matches)"
  shows "matches \<longleftrightarrow> bl_active lease \<and>
      (\<exists>phase. guard_get (ar_bindings r) (shard_for (bl_key lease)) (bl_key lease) =
         Some (Creating (bl_version lease) phase))"
    "r' = (if matches then r\<lparr>ar_bindings :=
       fst (guard_remove (shard_for (bl_key lease)) (bl_key lease) (ar_bindings r))\<rparr> else r)"
  using assms by (auto simp: remove_current_def Let_def split: if_splits option.splits binding_state.splits)

lemma creating_wait_at:
  "wait_at b i key = Some (version, False) \<longleftrightarrow> (\<exists>phase. guard_get b i key = Some (Creating version phase))"
  by (auto simp: wait_at_def token_def split: option.splits binding_state.splits binding_source.splits
      continuation_lifecycle.splits)

lemma pending_wait_at:
  "wait_at b i key = Some (version, True) \<longleftrightarrow>
     (\<exists>binding. guard_get b i key = Some (Bound binding) \<and> tb_source binding = Continuation (Pending version))"
  by (auto simp: wait_at_def token_def split: option.splits binding_state.splits binding_source.splits
      continuation_lifecycle.splits)

lemma binding_lease_drop_retires:
  assumes b: "bindings_ok (ar_bindings r)" and act: "bl_active lease"
    and eq: "binding_lease_drop r lease = Some r'"
  shows "retires r r' (bl_key lease) (bl_version lease, False)"
proof -
  obtain r1 lease' matches where rc: "remove_current r lease = (r1, lease', matches)"
    using prod_cases3 by blast
  note rc' = remove_current_cases[OF rc, folded creating_wait_at]
  show ?thesis
  proof (cases matches)
    case True
    with eq rc rc' b show ?thesis
      by (auto simp: binding_lease_drop_def intro: guard_remove_retires)
  next
    case False
    with eq rc rc' b act show ?thesis
      by (auto simp: binding_lease_drop_def intro: retires_refl)
  qed
qed

lemma binding_lease_drop_inactive:
  "\<not> bl_active lease \<Longrightarrow> binding_lease_drop r lease = Some r"
  by (simp add: binding_lease_drop_def remove_current_def)

lemma release_for_wait_retires:
  assumes b: "bindings_ok (ar_bindings r)" and act: "bl_active lease"
    and eq: "release_for_wait r lease = Some (r', result)"
  shows "retires r r' (bl_key lease) (bl_version lease, False)"
proof -
  obtain r1 lease' matches where "remove_current r lease = (r1, lease', matches)"
    using prod_cases3 by blast
  with eq have "binding_lease_drop r lease = Some r'"
    by (cases matches) (auto simp: binding_lease_drop_def release_for_wait_def bind_eq_Some_conv)
  then show ?thesis by (rule binding_lease_drop_retires[OF b act])
qed

lemma commit_with_deadline_cases:
  assumes "commit_with_deadline r lease target deadline clock = Some (r', lease', result)"
  obtains error where "r' = r" "lease' = lease" "result = Inl error"
  | b n where "guard_get (ar_bindings r) (shard_for (bl_key lease)) (bl_key lease) =
        Some (Creating (bl_version lease) PhaseAttempting)"
      "guard_replace (shard_for (bl_key lease)) (bl_key lease)
        (Bound \<lparr> tb_target = target, tb_last_seen_at = clock 0, tb_source = Session \<rparr>)
        (ar_bindings r) = Some b"
      "wake_waiters (r\<lparr>ar_bindings := b\<rparr>) = Some (r', n)"
      "lease' = lease\<lparr>bl_active := False\<rparr>" "result = Inr ()"
proof (cases "deadline_passed deadline (clock 0) \<or> deadline_passed deadline (clock 1) \<or>
    guard_get (ar_bindings r) (shard_for (bl_key lease)) (bl_key lease) \<noteq>
      Some (Creating (bl_version lease) PhaseAttempting) \<or> deadline_passed deadline (clock 2)")
  case True
  with assms have "r' = r \<and> lease' = lease \<and> (\<exists>error. result = Inl error)"
    by (auto simp: commit_with_deadline_def Let_def split: if_splits)
  then show ?thesis using that(1) by blast
next
  case False
  with assms have "\<exists>b n. guard_replace (shard_for (bl_key lease)) (bl_key lease)
        (Bound \<lparr> tb_target = target, tb_last_seen_at = clock 0, tb_source = Session \<rparr>)
        (ar_bindings r) = Some b \<and> wake_waiters (r\<lparr>ar_bindings := b\<rparr>) = Some (r', n) \<and>
      lease' = lease\<lparr>bl_active := False\<rparr> \<and> result = Inr ()"
    by (auto simp: commit_with_deadline_def Let_def bind_eq_Some_conv)
  with False show ?thesis using that(2) by blast
qed

lemma commit_retires:
  assumes b: "bindings_ok (ar_bindings r)" and act: "bl_active lease"
    and eq: "commit_with_deadline r lease target deadline clock = Some (r1, lease', result)"
      "binding_lease_drop r1 lease' = Some r'"
  shows "retires r r' (bl_key lease) (bl_version lease, False)"
  using eq(1)
proof (cases rule: commit_with_deadline_cases)
  case (1 error)
  with binding_lease_drop_retires[OF b act] eq(2) show ?thesis by simp
next
  case (2 c n)
  then have "r' = r1" using eq(2) binding_lease_drop_inactive[of lease' r1] by simp
  with guard_replace_retires[OF b 2(1) _ _ _ 2(2,3)] show ?thesis
    by (simp add: continuation_footprint_def)
qed

lemma lease_commit_retires:
  assumes "bindings_ok (ar_bindings r)" "bl_active lease"
  shows "lease_commit r lease target clock = Some (r', result) \<Longrightarrow>
      retires r r' (bl_key lease) (bl_version lease, False)"
    "lease_commit_before r lease target deadline clock = Some (r', result) \<Longrightarrow>
      retires r r' (bl_key lease) (bl_version lease, False)"
  using commit_retires[OF assms]
  by (auto simp: lease_commit_def lease_commit_before_def bind_eq_Some_conv)

lemma mark_attempting_drops:
  assumes b: "bindings_ok (ar_bindings r)" and eq: "mark_attempting r lease = Some (r', result)"
  shows "drops False (ar_bindings r) (ar_bindings r')" "woke r r' \<or> ar_epoch r' = ar_epoch r"
proof -
  let ?i = "shard_for (bl_key lease)"
  have "drops False (ar_bindings r) (guard_set ?i (bl_key lease) (Creating v PhaseAttempting) (ar_bindings r))"
    if "guard_get (ar_bindings r) ?i (bl_key lease) = Some (Creating v phase)" for v phase
    using b that guard_set_ok[OF b shard_for_less that, of "Creating v PhaseAttempting"]
    by (auto simp: drops_def same_limits_def wait_at_set continuation_footprint_def) (auto simp: wait_at_def)
  then show "drops False (ar_bindings r) (ar_bindings r')" "woke r r' \<or> ar_epoch r' = ar_epoch r"
    using eq b drops_refl wake_waiters_woke
    by (auto simp: mark_attempting_def bind_eq_Some_conv woke_def split: option.splits binding_state.splits if_splits;
        fastforce)+
qed

lemma continuation_lease_drop_retires:
  assumes b: "bindings_ok (ar_bindings r)" and act: "cl_active lease"
    and eq: "continuation_lease_drop r lease = Some r'"
  shows "retires r r' (cl_key lease) (cl_version lease, True)"
proof (cases "wait_at (ar_bindings r) (shard_for (cl_key lease)) (cl_key lease) = Some (cl_version lease, True)")
  case True
  with eq act guard_remove_retires[OF b True] show ?thesis
    by (auto simp: continuation_lease_drop_def Let_def pending_wait_at)
next
  case False
  with eq act have "r' = r"
    by (auto simp: continuation_lease_drop_def Let_def pending_wait_at
        split: option.splits binding_state.splits if_splits)
  with retires_refl[OF b False] show ?thesis by simp
qed

lemma continuation_ready_cases:
  assumes "continuation_ready r lease continuation deadline clock = Some (r', lease', result)"
  obtains error where "r' = r" "lease' = lease" "result = Inl error"
  | binding b n where
      "guard_get (ar_bindings r) (shard_for (cl_key lease)) (cl_key lease) = Some (Bound binding)"
      "tb_source binding = Continuation (Pending (cl_version lease))"
      "checked_state_bytes continuation \<noteq> Inl ContinuationTooLarge"
      "guard_replace (shard_for (cl_key lease)) (cl_key lease)
        (Bound \<lparr> tb_target = cl_target lease, tb_last_seen_at = clock 2,
          tb_source = Continuation (Ready continuation) \<rparr>) (ar_bindings r) = Some b"
      "wake_waiters (r\<lparr>ar_bindings := b\<rparr>) = Some (r', n)"
      "lease' = lease\<lparr>cl_active := False\<rparr>" "result = Inr ()"
proof -
  let ?current = "\<exists>binding. guard_get (ar_bindings r) (shard_for (cl_key lease)) (cl_key lease) =
      Some (Bound binding) \<and> tb_target binding = cl_target lease \<and>
      tb_source binding = Continuation (Pending (cl_version lease))"
  let ?pass = "\<not> deadline_passed deadline (clock 0) \<and> \<not> deadline_passed deadline (clock 1) \<and>
    checked_state_bytes continuation \<noteq> Inl ContinuationTooLarge \<and> ?current"
  have bytes: "checked_state_bytes continuation = Inl e \<Longrightarrow> e = ContinuationTooLarge" for e
    by (auto simp: checked_state_bytes_def Let_def split: if_splits)
  show ?thesis
  proof (cases ?pass)
    case True
    with assms have "\<exists>b n. guard_replace (shard_for (cl_key lease)) (cl_key lease)
        (Bound \<lparr> tb_target = cl_target lease, tb_last_seen_at = clock 2,
          tb_source = Continuation (Ready continuation) \<rparr>) (ar_bindings r) = Some b \<and>
        wake_waiters (r\<lparr>ar_bindings := b\<rparr>) = Some (r', n) \<and>
        lease' = lease\<lparr>cl_active := False\<rparr> \<and> result = Inr ()"
      by (cases "checked_state_bytes continuation")
        (auto simp: continuation_ready_def check_deadline_def Let_def bind_eq_Some_conv dest: bytes)
    with True show ?thesis using that(2) by blast
  next
    case False
    with assms have "r' = r \<and> lease' = lease \<and> (\<exists>error. result = Inl error)"
      by (cases "checked_state_bytes continuation")
        (auto simp: continuation_ready_def check_deadline_def Let_def dest: bytes
          split: if_splits option.splits binding_state.splits)
    then show ?thesis using that(1) by blast
  qed
qed

lemma continuation_ready_retires:
  assumes b: "bindings_ok (ar_bindings r)"
    and eq: "continuation_ready r lease continuation deadline clock = Some (r', lease', Inr ())"
  shows "retires r r' (cl_key lease) (cl_version lease, True)"
  using eq
proof (cases rule: continuation_ready_cases)
  case (2 binding c n)
  moreover have "continuation_footprint (Bound \<lparr> tb_target = cl_target lease, tb_last_seen_at = clock 2,
          tb_source = Continuation (Ready continuation) \<rparr>) \<le> continuation_footprint (Bound binding)"
    using 2(2,3) by (auto simp: continuation_footprint_def checked_state_bytes_def Let_def
        split: option.splits if_splits)
  ultimately show ?thesis
    using guard_replace_retires[OF b 2(1) _ _ _ 2(4,5)] by simp
qed simp

section \<open>Maintenance\<close>

lemma guard_clear_frame [simp]:
  "sb_next_version (fst (guard_clear i b)) = sb_next_version b"
  "sb_max_entries (fst (guard_clear i b)) = sb_max_entries b"
  "sb_max_continuation_bytes (fst (guard_clear i b)) = sb_max_continuation_bytes b"
  by (auto simp: guard_clear_def put_shard_def Let_def)

lemma guard_clear_drops:
  assumes b: "bindings_ok b" and i: "i < SHARD_COUNT"
  shows "drops (\<exists>(key, entry) \<in> set (sb_shards b ! i). is_waiting entry) b (fst (guard_clear i b))"
proof -
  have "guard_get (fst (guard_clear i b)) j k = (if i = j then None else guard_get b j k)" for j k
    using bindings_okD(1)[OF b i] by (simp add: guard_clear_def Let_def)
  then have "wait_at (fst (guard_clear i b)) j k = (if i = j then None else wait_at b j k)" for j k
    by (simp add: wait_at_def)
  moreover have "\<exists>(key, entry) \<in> set (sb_shards b ! i). is_waiting entry" if "wait_at b i k \<noteq> None" for k
    using that map_of_SomeD[of "sb_shards b ! i" k]
    by (force simp: wait_at_def guard_get_def is_waiting_token split: option.splits)
  ultimately show ?thesis
    using guard_clear_ok[OF b i] unfolding drops_def same_limits_def by (metis guard_clear_frame)
qed

lemma clear_shards_drops:
  assumes "bindings_ok b" "\<forall>i \<in> set is. i < SHARD_COUNT"
  shows "drops (snd (snd (clear_shards is b))) b (fst (clear_shards is b))"
  using assms
proof (induction "is" arbitrary: b)
  case (Cons i "is")
  have d: "drops (\<exists>(key, entry) \<in> set (sb_shards b ! i). is_waiting entry) b (fst (guard_clear i b))"
    using Cons.prems guard_clear_drops by simp
  then have "bindings_ok (fst (guard_clear i b))" by (simp add: drops_def)
  with Cons drops_trans[OF d] show ?case by (simp add: Let_def split_def)
qed (simp add: drops_refl)

lemma remove_counted_remove_keys: "fst (remove_counted i keys b) = remove_keys i keys b"
  by (induction keys arbitrary: b) (simp_all add: Let_def split_def)

lemma remove_keys_drops:
  assumes b: "bindings_ok b" and i: "i < SHARD_COUNT"
    and sub: "set removed \<subseteq> set (sb_shards b ! i)"
  shows "drops (\<exists>(key, entry) \<in> set removed. is_waiting entry) b (remove_keys i (map fst removed) b)"
proof -
  have "\<exists>(key, entry) \<in> set removed. is_waiting entry"
    if "k \<in> fst ` set removed" "wait_at b i k \<noteq> None" for k
  proof -
    from that obtain entry where e: "(k, entry) \<in> set removed" by auto
    with sub have "guard_get b i k = Some entry"
      using map_of_is_SomeI[OF bindings_okD(2)[OF b i]] by (auto simp: guard_get_def)
    with e that show ?thesis by (auto simp: wait_at_def is_waiting_token)
  qed
  moreover have "wait_at (remove_keys i (map fst removed) b) j k =
      (if i = j \<and> k \<in> fst ` set removed then None else wait_at b j k)" for j k
    by (simp add: wait_at_def guard_get_remove_keys[OF b i])
  ultimately show ?thesis
    using remove_keys_ok[OF b i] unfolding drops_def same_limits_def by (metis remove_keys_frame)
qed

lemma clear_credential_shards_drops:
  assumes "bindings_ok b" "\<forall>i \<in> set is. i < SHARD_COUNT"
  shows "drops (snd (snd (clear_credential_shards c is b))) b (fst (clear_credential_shards c is b))"
  using assms
proof (induction "is" arbitrary: b)
  case (Cons i "is")
  let ?removed = "filter (\<lambda>(key, entry). bound_to c entry) (sb_shards b ! i)"
  have d: "drops (\<exists>(key, entry) \<in> set ?removed. is_waiting entry) b (remove_keys i (map fst ?removed) b)"
    using Cons.prems by (intro remove_keys_drops) auto
  then have "bindings_ok (remove_keys i (map fst ?removed) b)" by (simp add: drops_def)
  with Cons drops_trans[OF d] show ?case
    by (simp add: Let_def split_def flip: remove_counted_remove_keys)
qed (simp add: drops_refl)

lemma wake_if_lost:
  assumes "drops lost (ar_bindings r) b"
    and "(if lost then do { (r, _) \<leftarrow> wake_waiters (r\<lparr>ar_bindings := b\<rparr>); Some (r, n) }
      else Some (r\<lparr>ar_bindings := b\<rparr>, n)) = Some (r', m)"
  shows "drops (woke r r') (ar_bindings r) (ar_bindings r') \<and> (woke r r' \<or> ar_epoch r' = ar_epoch r)"
proof (cases lost)
  case True
  with assms obtain k where "wake_waiters (r\<lparr>ar_bindings := b\<rparr>) = Some (r', k)"
    by (auto simp: bind_eq_Some_conv)
  from wake_waiters_woke[OF this] assms(1) show ?thesis
    by (auto simp: woke_def intro: drops_mono)
next
  case False
  with assms show ?thesis by (auto intro: drops_mono)
qed

lemma clear_drops:
  assumes b: "bindings_ok (ar_bindings r)"
  shows "clear_all r = Some (r', n) \<Longrightarrow>
      drops (woke r r') (ar_bindings r) (ar_bindings r') \<and> (woke r r' \<or> ar_epoch r' = ar_epoch r)"
    "clear_credential c r = Some (r', n) \<Longrightarrow>
      drops (woke r r') (ar_bindings r) (ar_bindings r') \<and> (woke r r' \<or> ar_epoch r' = ar_epoch r)"
  using wake_if_lost[OF clear_shards_drops[OF b, of "[0..<SHARD_COUNT]"]]
    wake_if_lost[OF clear_credential_shards_drops[OF b, of "[0..<SHARD_COUNT]" c]]
  by (simp_all add: clear_all_def clear_credential_def Let_def split_def)

lemma snapshot_shards_shrinks:
  assumes "bindings_ok b" "\<forall>i \<in> set is. i < SHARD_COUNT"
  shows "shrinks now ttl b (fst (snapshot_shards is now ttl enabled b))"
  using assms
proof (induction "is" arbitrary: b)
  case (Cons i "is")
  have s: "shrinks now ttl b (fst (remove_expired i now ttl b))"
    using Cons.prems by (simp add: expiry_shrinks)
  then have "bindings_ok (fst (remove_expired i now ttl b))" by (simp add: shrinks_def)
  with Cons shrinks_trans[OF s] show ?case by (simp add: Let_def split_def)
qed (simp add: shrinks_refl)

lemma shrinks_drops: "shrinks now ttl b b' \<Longrightarrow> drops False b b'"
  using shrinks_wait_at by (auto simp: drops_def shrinks_def)

lemma maintenance_drops:
  assumes b: "bindings_ok (ar_bindings r)"
  shows "sweep_expired ttl now r = (r', n) \<Longrightarrow>
      drops False (ar_bindings r) (ar_bindings r') \<and> ar_epoch r' = ar_epoch r"
    "registry_snapshot ttl enabled now r = (r', snapshot) \<Longrightarrow>
      drops False (ar_bindings r) (ar_bindings r') \<and> ar_epoch r' = ar_epoch r"
  using shrinks_drops[OF remove_expired_all_shrinks[OF b, of now ttl]]
    shrinks_drops[OF snapshot_shards_shrinks[OF b, of "[0..<SHARD_COUNT]" now ttl enabled]]
  by (auto simp: sweep_expired_def registry_snapshot_def split_def Let_def)

section \<open>Histories\<close>

record affinity_world =
  aw_registry :: affinity_registry
  aw_leases :: "binding_lease set"
  aw_continuations :: "continuation_lease set"

definition world_new :: "scheduler_epoch \<Rightarrow> instant \<Rightarrow> affinity_world" where
  "world_new epoch now =
     \<lparr> aw_registry = registry_with_scheduler_epoch epoch now, aw_leases = {}, aw_continuations = {} \<rparr>"

definition start_leases :: "affinity_error + binding_start \<Rightarrow> binding_lease set" where
  "start_leases result = (case result of Inr (StartCreate lease) \<Rightarrow> {lease} | _ \<Rightarrow> {})"

definition pending_leases :: "affinity_error + continuation_lease \<Rightarrow> continuation_lease set" where
  "pending_leases result = (case result of Inr lease \<Rightarrow> {lease} | Inl _ \<Rightarrow> {})"

text \<open>An operation that consumes a session lease.\<close>

definition consumes ::
  "binding_lease \<Rightarrow> affinity_registry \<Rightarrow> affinity_registry \<Rightarrow> bool" where
  "consumes lease r r' \<longleftrightarrow>
     binding_lease_drop r lease = Some r' \<or>
     (\<exists>result. release_for_wait r lease = Some (r', result)) \<or>
     (\<exists>target clock result. lease_commit r lease target clock = Some (r', result)) \<or>
     (\<exists>target deadline clock result.
        lease_commit_before r lease target deadline clock = Some (r', result))"

inductive affinity_step ::
  "(byte list \<Rightarrow> session_hash) \<Rightarrow> affinity_world \<Rightarrow> affinity_world \<Rightarrow> bool" for mac where
  step_begin_session:
    "begin_session mac dialect uuid raw now ttl (aw_registry w) = (r', result) \<Longrightarrow>
     affinity_step mac w (w\<lparr>aw_registry := r', aw_leases := start_leases result \<union> aw_leases w\<rparr>)"
| step_mark_attempting:
    "lease \<in> aw_leases w \<Longrightarrow> mark_attempting (aw_registry w) lease = Some (r', outcome) \<Longrightarrow>
     affinity_step mac w (w\<lparr>aw_registry := r'\<rparr>)"
| step_consume_lease:
    "lease \<in> aw_leases w \<Longrightarrow> consumes lease (aw_registry w) r' \<Longrightarrow>
     affinity_step mac w (w\<lparr>aw_registry := r', aw_leases := aw_leases w - {lease}\<rparr>)"
| step_resolve_continuation:
    "resolve_continuation mac raw now ttl available (aw_registry w) = (r', lookup) \<Longrightarrow>
     affinity_step mac w (w\<lparr>aw_registry := r'\<rparr>)"
| step_bind_ready:
    "bind_ready_continuation_with_deadline mac raw target continuation ttl deadline clock (aw_registry w) =
       (r', outcome) \<Longrightarrow>
     affinity_step mac w (w\<lparr>aw_registry := r'\<rparr>)"
| step_begin_pending:
    "begin_pending_continuation_with_deadline mac raw target ttl deadline clock (aw_registry w) =
       (r', pending) \<Longrightarrow>
     affinity_step mac w (w\<lparr>aw_registry := r', aw_continuations := pending_leases pending \<union> aw_continuations w\<rparr>)"
| step_ready:
    "lease \<in> aw_continuations w \<Longrightarrow>
     continuation_ready (aw_registry w) lease continuation deadline clock = Some (r', lease', outcome) \<Longrightarrow>
     affinity_step mac w
       (w\<lparr>aw_registry := r', aw_continuations := insert lease' (aw_continuations w - {lease})\<rparr>)"
| step_drop_continuation:
    "lease \<in> aw_continuations w \<Longrightarrow> continuation_lease_drop (aw_registry w) lease = Some r' \<Longrightarrow>
     affinity_step mac w (w\<lparr>aw_registry := r', aw_continuations := aw_continuations w - {lease}\<rparr>)"
| step_clear_all:
    "clear_all (aw_registry w) = Some (r', cleared) \<Longrightarrow> affinity_step mac w (w\<lparr>aw_registry := r'\<rparr>)"
| step_clear_credential:
    "clear_credential credential_id (aw_registry w) = Some (r', cleared) \<Longrightarrow>
     affinity_step mac w (w\<lparr>aw_registry := r'\<rparr>)"
| step_sweep:
    "sweep_expired ttl now (aw_registry w) = (r', cleared) \<Longrightarrow> affinity_step mac w (w\<lparr>aw_registry := r'\<rparr>)"
| step_snapshot:
    "registry_snapshot ttl enabled now (aw_registry w) = (r', snapshot) \<Longrightarrow>
     affinity_step mac w (w\<lparr>aw_registry := r'\<rparr>)"
| step_epoch: \<comment> \<open>another component that shares the epoch\<close>
    "advance (ar_epoch (aw_registry w)) = Some (epoch, n) \<Longrightarrow>
     affinity_step mac w (w\<lparr>aw_registry := (aw_registry w)\<lparr>ar_epoch := epoch\<rparr>\<rparr>)"

inductive affinity_run ::
  "(byte list \<Rightarrow> session_hash) \<Rightarrow> nat \<Rightarrow> affinity_world \<Rightarrow> bool" for mac where
  run_start: "ep_published epoch \<le> ep_current epoch \<Longrightarrow> affinity_run mac 0 (world_new epoch now)"
| run_step: "affinity_run mac n w \<Longrightarrow> affinity_step mac w w' \<Longrightarrow> affinity_run mac (Suc n) w'"

section \<open>The invariant\<close>

abbreviation world_bindings :: "affinity_world \<Rightarrow> sharded_bindings" where
  "world_bindings w \<equiv> ar_bindings (aw_registry w)"

definition holders :: "affinity_world \<Rightarrow> (session_hash \<times> nat \<times> bool) set" where
  "holders w =
     {(bl_key l, bl_version l, False) | l. l \<in> aw_leases w} \<union>
     {(cl_key l, cl_version l, True) | l. l \<in> aw_continuations w \<and> cl_active l}"

text \<open>A keyed hash that keeps sessions and continuations apart.\<close>

definition separated :: "(byte list \<Rightarrow> session_hash) \<Rightarrow> bool" where
  "separated mac \<longleftrightarrow>
     (\<forall>dialect uuid raw raw'. hash_session mac dialect uuid raw \<noteq> hash_continuation mac raw')"

definition fresh_versions :: "affinity_world \<Rightarrow> bool" where
  "fresh_versions w \<longleftrightarrow>
     (\<forall>l \<in> aw_leases w. bl_version l \<le> sb_next_version (world_bindings w)) \<and>
     (\<forall>l \<in> aw_continuations w. cl_version l \<le> sb_next_version (world_bindings w)) \<and>
     inj_on bl_version (aw_leases w) \<and> inj_on cl_version (aw_continuations w) \<and>
     bl_version ` aw_leases w \<inter> cl_version ` aw_continuations w = {}"

definition owned :: "affinity_world \<Rightarrow> bool" where
  "owned w \<longleftrightarrow>
     (\<forall>j k version pending. j < SHARD_COUNT \<and> wait_at (world_bindings w) j k = Some (version, pending) \<longrightarrow>
        j = shard_for k \<and> (k, version, pending) \<in> holders w)"

definition lease_kinds :: "(byte list \<Rightarrow> session_hash) \<Rightarrow> affinity_world \<Rightarrow> bool" where
  "lease_kinds mac w \<longleftrightarrow>
     (\<forall>l \<in> aw_leases w. bl_active l) \<and>
     (\<forall>l \<in> aw_continuations w. \<exists>raw. cl_key l = hash_continuation mac raw)"

definition world_ok :: "(byte list \<Rightarrow> session_hash) \<Rightarrow> nat \<Rightarrow> affinity_world \<Rightarrow> bool" where
  "world_ok mac n w \<longleftrightarrow>
     bindings_ok (world_bindings w) \<and>
     sb_max_entries (world_bindings w) = MAX_BINDINGS \<and>
     sb_max_continuation_bytes (world_bindings w) = MAX_BRIDGE_CONTINUATION_TOTAL_BYTES \<and>
     ep_published (ar_epoch (aw_registry w)) \<le> ep_current (ar_epoch (aw_registry w)) \<and>
     lease_kinds mac w \<and>
     (separated mac \<and> 2 * n < 2 ^ 64 \<longrightarrow>
        sb_next_version (world_bindings w) \<le> 2 * n \<and> fresh_versions w \<and> owned w)"

text \<open>Every operation either leaves the epoch alone or advances it.\<close>

definition epoch_kept :: "affinity_registry \<Rightarrow> affinity_registry \<Rightarrow> bool" where
  "epoch_kept r r' \<longleftrightarrow> woke r r' \<or> ar_epoch r' = ar_epoch r"

lemma woke_published:
  assumes "woke r r'" "ep_published (ar_epoch r) \<le> ep_current (ar_epoch r)"
  shows "ep_published (ar_epoch r) < ep_published (ar_epoch r')"
    "ep_published (ar_epoch r') \<le> ep_current (ar_epoch r')"
  using assms by (auto simp: woke_def advance_def advance_claim_def advance_publish_def
      checked_add_u64_def bind_eq_Some_conv split: if_splits dest!: sym[of _ "ar_epoch r'"])

lemma epoch_kept_published:
  assumes "epoch_kept r r'" "ep_published (ar_epoch r) \<le> ep_current (ar_epoch r)"
  shows "ep_published (ar_epoch r') \<le> ep_current (ar_epoch r')"
  using assms woke_published by (auto simp: epoch_kept_def)

lemma world_ok_no_pending:
  assumes "world_ok mac n w" "separated mac" "2 * n < 2 ^ 64"
  shows "no_pending (hash_session mac dialect uuid raw) (wait_at (world_bindings w))"
proof -
  let ?key = "hash_session mac dialect uuid raw"
  have False if "wait_at (world_bindings w) (shard_for ?key) ?key = Some (version, True)" for version
  proof -
    from assms that have "(?key, version, True) \<in> holders w"
      unfolding world_ok_def owned_def using shard_for_less by blast
    then obtain l where "l \<in> aw_continuations w" "cl_key l = ?key" by (auto simp: holders_def)
    with assms show False unfolding world_ok_def lease_kinds_def separated_def by metis
  qed
  then show ?thesis by (auto simp: no_pending_def)
qed

text \<open>Operations that hand out nothing and end no lease.\<close>

lemma world_ok_keep:
  assumes w: "world_ok mac n w" and ok: "bindings_ok (ar_bindings r')"
    and limits: "same_limits (world_bindings w) (ar_bindings r')"
    and epoch: "epoch_kept (aw_registry w) r'"
    and waits: "separated mac \<Longrightarrow> 2 * Suc n < 2 ^ 64 \<Longrightarrow>
      sb_next_version (world_bindings w) \<le> sb_next_version (ar_bindings r') \<and>
      sb_next_version (ar_bindings r') \<le> sb_next_version (world_bindings w) + 2 \<and>
      (\<forall>j k. wait_at (ar_bindings r') j k = wait_at (world_bindings w) j k \<or> wait_at (ar_bindings r') j k = None)"
  shows "world_ok mac (Suc n) (w\<lparr>aw_registry := r'\<rparr>)"
proof -
  have "fresh_versions (w\<lparr>aw_registry := r'\<rparr>) \<and> owned (w\<lparr>aw_registry := r'\<rparr>) \<and>
      sb_next_version (ar_bindings r') \<le> 2 * Suc n"
    if c: "separated mac" "2 * Suc n < 2 ^ 64"
  proof -
    note wt = waits[OF c]
    from w c have "fresh_versions w" "owned w" "sb_next_version (world_bindings w) \<le> 2 * n"
      by (auto simp: world_ok_def)
    with wt show ?thesis
      by (auto simp: fresh_versions_def owned_def holders_def) (metis option.distinct(1))+
  qed
  with w ok limits epoch_kept_published[OF epoch] show ?thesis
    by (auto simp: world_ok_def same_limits_def lease_kinds_def)
qed

lemma world_ok_grants:
  assumes w: "world_ok mac n w" and g: "grants safe 2 (world_bindings w) (ar_bindings r') None"
    and safe: "separated mac \<Longrightarrow> 2 * n < 2 ^ 64 \<Longrightarrow> safe"
    and epoch: "epoch_kept (aw_registry w) r'"
  shows "world_ok mac (Suc n) (w\<lparr>aw_registry := r'\<rparr>)"
  by (rule world_ok_keep[OF w _ _ epoch])
    (use g w safe in \<open>auto simp: grants_def world_ok_def\<close>)

lemma world_ok_drops:
  assumes w: "world_ok mac n w" and d: "drops lost (world_bindings w) (ar_bindings r')"
    and epoch: "epoch_kept (aw_registry w) r'"
  shows "world_ok mac (Suc n) (w\<lparr>aw_registry := r'\<rparr>)"
  by (rule world_ok_keep[OF w _ _ epoch]) (use d in \<open>unfold drops_def, simp_all, metis\<close>)

text \<open>Operations that hand out a lease.\<close>

lemma holders_insert:
  "holders (w\<lparr>aw_registry := r', aw_leases := insert l (aw_leases w)\<rparr>) =
     insert (bl_key l, bl_version l, False) (holders w)"
  "cl_active c \<Longrightarrow> holders (w\<lparr>aw_registry := r', aw_continuations := insert c (aw_continuations w)\<rparr>) =
     insert (cl_key c, cl_version c, True) (holders w)"
  by (auto simp: holders_def)

lemma world_ok_grant_lease:
  assumes w: "world_ok mac n w"
    and g: "grants safe 2 (world_bindings w) (ar_bindings r') (Some (bl_key l, bl_version l, False))"
    and safe: "separated mac \<Longrightarrow> 2 * n < 2 ^ 64 \<Longrightarrow> safe"
    and epoch: "epoch_kept (aw_registry w) r'" and act: "bl_active l"
  shows "world_ok mac (Suc n) (w\<lparr>aw_registry := r', aw_leases := insert l (aw_leases w)\<rparr>)"
    (is "world_ok mac _ ?w")
proof -
  have "fresh_versions ?w \<and> owned ?w \<and> sb_next_version (ar_bindings r') \<le> 2 * Suc n"
    if c: "separated mac" "2 * Suc n < 2 ^ 64"
  proof -
    from w c have fo: "fresh_versions w" "owned w" "sb_next_version (world_bindings w) \<le> 2 * n"
      by (auto simp: world_ok_def)
    with g safe c have g': "sb_next_version (world_bindings w) < bl_version l"
      "bl_version l = sb_next_version (ar_bindings r')" "sb_next_version (ar_bindings r') \<le> 2 * Suc n"
      "\<forall>j k. wait_at (ar_bindings r') j k = (if j = shard_for (bl_key l) \<and> k = bl_key l
         then Some (bl_version l, False) else wait_at (world_bindings w) j k)"
      by (auto simp: grants_def)
    then have "fresh_versions ?w" using fo(1) by (fastforce simp: fresh_versions_def)
    moreover have "owned ?w" using fo(2) g'(4) by (simp add: owned_def holders_insert)
    ultimately show ?thesis using g' by simp
  qed
  with w g act epoch_kept_published[OF epoch] show ?thesis
    by (auto simp: world_ok_def grants_def same_limits_def lease_kinds_def)
qed

lemma world_ok_grant_continuation:
  assumes w: "world_ok mac n w"
    and g: "grants True 2 (world_bindings w) (ar_bindings r') (Some (cl_key l, cl_version l, True))"
    and epoch: "epoch_kept (aw_registry w) r'" and act: "cl_active l" "cl_key l = hash_continuation mac raw"
  shows "world_ok mac (Suc n) (w\<lparr>aw_registry := r', aw_continuations := insert l (aw_continuations w)\<rparr>)"
    (is "world_ok mac _ ?w")
proof -
  have "fresh_versions ?w \<and> owned ?w \<and> sb_next_version (ar_bindings r') \<le> 2 * Suc n"
    if c: "separated mac" "2 * Suc n < 2 ^ 64"
  proof -
    from w c have fo: "fresh_versions w" "owned w" "sb_next_version (world_bindings w) \<le> 2 * n"
      by (auto simp: world_ok_def)
    with g c have g': "sb_next_version (world_bindings w) < cl_version l"
      "cl_version l = sb_next_version (ar_bindings r')" "sb_next_version (ar_bindings r') \<le> 2 * Suc n"
      "\<forall>j k. wait_at (ar_bindings r') j k = (if j = shard_for (cl_key l) \<and> k = cl_key l
         then Some (cl_version l, True) else wait_at (world_bindings w) j k)"
      by (auto simp: grants_def)
    then have "fresh_versions ?w" using fo(1) by (fastforce simp: fresh_versions_def)
    moreover have "owned ?w" using fo(2) g'(4) act by (simp add: owned_def holders_insert)
    ultimately show ?thesis using g' by simp
  qed
  with w g act epoch_kept_published[OF epoch] show ?thesis
    by (auto simp: world_ok_def grants_def same_limits_def lease_kinds_def)
qed

text \<open>Operations that end a lease.\<close>

lemma holders_remove:
  "h \<in> holders w \<Longrightarrow> h \<noteq> (bl_key l, bl_version l, False) \<Longrightarrow>
     h \<in> holders (w\<lparr>aw_registry := r', aw_leases := aw_leases w - {l}\<rparr>)"
  "h \<in> holders w \<Longrightarrow> h \<noteq> (cl_key c, cl_version c, True) \<Longrightarrow>
     h \<in> holders (w\<lparr>aw_registry := r', aw_continuations := new \<union> (aw_continuations w - {c})\<rparr>)"
  unfolding holders_def by (simp_all, blast+)

lemma owned_retire:
  assumes "owned (w\<lparr>aw_registry := r'\<rparr>)" "retires r r' key tok"
    and "j < SHARD_COUNT" "wait_at (ar_bindings r') j k = Some (version, pending)"
  shows "j = shard_for k" "(k, version, pending) \<in> holders w" "(k, version, pending) \<noteq> (key, tok)"
proof -
  have h: "holders (w\<lparr>aw_registry := r'\<rparr>) = holders w" by (simp add: holders_def)
  show j: "j = shard_for k" and "(k, version, pending) \<in> holders w"
    using assms(1,3,4) unfolding owned_def h by simp_all
  show "(k, version, pending) \<noteq> (key, tok)"
    using assms(2,4) j unfolding retires_def by (metis prod.inject)
qed

lemma world_ok_retire_lease:
  assumes w: "world_ok mac n w" and l: "l \<in> aw_leases w"
    and r: "retires (aw_registry w) r' (bl_key l) (bl_version l, False)"
  shows "world_ok mac (Suc n) (w\<lparr>aw_registry := r', aw_leases := aw_leases w - {l}\<rparr>)"
    (is "world_ok mac _ ?w")
proof -
  have d: "drops (woke (aw_registry w) r') (world_bindings w) (ar_bindings r')"
    and e: "epoch_kept (aw_registry w) r'" using r by (auto simp: retires_def epoch_kept_def)
  have keep: "world_ok mac (Suc n) (w\<lparr>aw_registry := r'\<rparr>)" by (rule world_ok_drops[OF w d e])
  have "owned ?w" if "owned (w\<lparr>aw_registry := r'\<rparr>)"
    unfolding owned_def by (auto intro!: holders_remove(1) dest: owned_retire[OF that r])
  with keep show ?thesis
    by (auto simp: world_ok_def lease_kinds_def fresh_versions_def intro: inj_on_subset)
qed

lemma inj_on_replace:
  assumes "inj_on f A" "l \<in> A" "new \<subseteq> {l'}" "f l' = f l"
  shows "inj_on f (new \<union> (A - {l}))"
proof -
  have "inj_on f (insert l' (A - {l}))" using assms(1,2,4) by (auto simp: inj_on_def)
  then show ?thesis by (rule inj_on_subset) (use assms(3) in blast)
qed

lemma world_ok_retire_continuation:
  assumes w: "world_ok mac n w" and l: "l \<in> aw_continuations w"
    and r: "retires (aw_registry w) r' (cl_key l) (cl_version l, True)"
    and new: "new \<subseteq> {l\<lparr>cl_active := False\<rparr>}"
  shows "world_ok mac (Suc n) (w\<lparr>aw_registry := r', aw_continuations := new \<union> (aw_continuations w - {l})\<rparr>)"
    (is "world_ok mac _ ?w")
proof -
  have d: "drops (woke (aw_registry w) r') (world_bindings w) (ar_bindings r')"
    and e: "epoch_kept (aw_registry w) r'" using r by (auto simp: retires_def epoch_kept_def)
  have keep: "world_ok mac (Suc n) (w\<lparr>aw_registry := r'\<rparr>)" by (rule world_ok_drops[OF w d e])
  have "owned ?w" if "owned (w\<lparr>aw_registry := r'\<rparr>)"
    unfolding owned_def by (auto intro!: holders_remove(2) dest: owned_retire[OF that r])
  moreover have "fresh_versions ?w" if f: "fresh_versions (w\<lparr>aw_registry := r'\<rparr>)"
  proof -
    have sub: "cl_version ` (new \<union> (aw_continuations w - {l})) \<subseteq> cl_version ` aw_continuations w"
      using new l by force
    from f have f': "bl_version ` aw_leases w \<inter> cl_version ` aw_continuations w = {}"
      "cl_version ` aw_continuations w \<subseteq> {..sb_next_version (ar_bindings r')}"
      by (simp_all add: fresh_versions_def image_subset_iff)
    from f'(1) sub have "bl_version ` aw_leases w \<inter> cl_version ` (new \<union> (aw_continuations w - {l})) = {}"
      by blast
    moreover have "cl_version c \<le> sb_next_version (ar_bindings r')" if "c \<in> new \<union> (aw_continuations w - {l})" for c
    proof -
      from that sub f'(2) have "cl_version c \<in> {..sb_next_version (ar_bindings r')}" by blast
      then show ?thesis by simp
    qed
    moreover have "inj_on cl_version (new \<union> (aw_continuations w - {l}))"
      using f by (intro inj_on_replace[OF _ l new]) (auto simp: fresh_versions_def)
    ultimately show ?thesis using f by (simp add: fresh_versions_def)
  qed
  moreover have "lease_kinds mac ?w" using keep new l by (auto simp: world_ok_def lease_kinds_def)
  ultimately show ?thesis using keep by (simp add: world_ok_def)
qed

lemma world_ok_discard:
  assumes "world_ok mac n w" "\<not> cl_active l"
  shows "world_ok mac (Suc n) (w\<lparr>aw_continuations := aw_continuations w - {l}\<rparr>)"
proof -
  have "holders (w\<lparr>aw_continuations := aw_continuations w - {l}\<rparr>) = holders w"
    using assms(2) by (auto simp: holders_def)
  with assms(1) show ?thesis
    unfolding world_ok_def owned_def lease_kinds_def fresh_versions_def
    by (auto intro: inj_on_subset)
qed

lemma world_ok_Suc: "world_ok mac n w \<Longrightarrow> world_ok mac (Suc n) w"
  by (auto simp: world_ok_def)

text \<open>What the leases that are handed out look like.\<close>

lemma with_reclaim_result:
  assumes "with_reclaim round err now ttl b = (b', Inr x)"
  obtains n c where "snd (round n c) = Done (Inr x)"
  using assms by (auto simp: with_reclaim_def split: prod.splits insert_round.splits bool.splits)
    (metis snd_conv)+

lemma session_round_lease:
  assumes "snd (session_round key now ttl b) = Done (Inr (StartCreate lease))"
  shows "bl_active lease"
  using assms
  by (auto simp: session_round_def session_existing_def session_create_def Let_def
      split: option.splits binding_state.splits prod.splits sum.splits if_splits)

lemma begin_session_lease:
  assumes "begin_session mac dialect uuid raw now ttl r = (r', Inr (StartCreate lease))"
  shows "bl_active lease"
  using assms by (auto simp: begin_session_def Let_def split: prod.splits
      elim!: with_reclaim_result dest: session_round_lease)

lemma begin_pending_round_lease:
  assumes "snd (begin_pending_round key target now ttl deadline t b) = Done (Inr lease)"
  shows "cl_active lease \<and> cl_key lease = key"
  using assms
  by (auto simp: begin_pending_round_def begin_pending_insert_def Let_def
      split: prod.splits sum.splits if_splits)

lemma begin_pending_lease:
  assumes "begin_pending_continuation_with_deadline mac raw target ttl deadline clock r = (r', Inr lease)"
  shows "cl_active lease" "cl_key lease = hash_continuation mac raw"
  using assms by (auto simp: begin_pending_continuation_with_deadline_def Let_def
      split: prod.splits sum.splits elim!: with_reclaim_result dest: begin_pending_round_lease)

lemma consumes_retires:
  assumes "bindings_ok (ar_bindings r)" "bl_active lease" "consumes lease r r'"
  shows "retires r r' (bl_key lease) (bl_version lease, False)"
  using assms binding_lease_drop_retires release_for_wait_retires lease_commit_retires
  unfolding consumes_def by metis

lemma world_ok_begin_session:
  assumes w: "world_ok mac n w"
    and eq: "begin_session mac dialect uuid raw now ttl (aw_registry w) = (r', result)"
  shows "world_ok mac (Suc n) (w\<lparr>aw_registry := r', aw_leases := start_leases result \<union> aw_leases w\<rparr>)"
proof -
  have b: "bindings_ok (world_bindings w)" using w by (simp add: world_ok_def)
  note g = begin_session_grants[OF b eq]
  have e: "epoch_kept (aw_registry w) r'" using g(2) by (simp add: epoch_kept_def)
  show ?thesis
  proof (cases "\<exists>lease. result = Inr (StartCreate lease)")
    case True
    then obtain lease where l: "result = Inr (StartCreate lease)" by blast
    with g(1) world_ok_grant_lease[OF w _ _ e] world_ok_no_pending[OF w] begin_session_lease[OF eq[unfolded l]]
    show ?thesis by (simp add: start_lease_def start_leases_def)
  next
    case False
    then have "start_leases result = {}" "(case result of Inr x \<Rightarrow> start_lease x | Inl _ \<Rightarrow> None) = None"
      by (auto simp: start_leases_def start_lease_def split: sum.splits binding_start.splits)
    with g(1) world_ok_grants[OF w _ _ e] world_ok_no_pending[OF w] show ?thesis by simp
  qed
qed

lemma world_ok_begin_pending:
  assumes w: "world_ok mac n w"
    and eq: "begin_pending_continuation_with_deadline mac raw target ttl deadline clock (aw_registry w) = (r', result)"
  shows "world_ok mac (Suc n)
    (w\<lparr>aw_registry := r', aw_continuations := pending_leases result \<union> aw_continuations w\<rparr>)"
proof -
  have b: "bindings_ok (world_bindings w)" using w by (simp add: world_ok_def)
  note g = begin_pending_continuation_grants[OF b eq]
  have e: "epoch_kept (aw_registry w) r'" using g(2) by (simp add: epoch_kept_def)
  show ?thesis
  proof (cases result)
    case (Inl error)
    with g(1) world_ok_grants[OF w _ _ e] show ?thesis by (simp add: pending_leases_def)
  next
    case (Inr lease)
    with g(1) world_ok_grant_continuation[OF w _ e] begin_pending_lease[OF eq[unfolded Inr]]
    show ?thesis by (simp add: pending_leases_def pending_lease_def)
  qed
qed

lemma world_ok_ready:
  assumes w: "world_ok mac n w" and l: "lease \<in> aw_continuations w"
    and eq: "continuation_ready (aw_registry w) lease continuation deadline clock = Some (r', lease', result)"
  shows "world_ok mac (Suc n)
    (w\<lparr>aw_registry := r', aw_continuations := insert lease' (aw_continuations w - {lease})\<rparr>)"
  using eq
proof (cases rule: continuation_ready_cases)
  case 1
  with l world_ok_Suc[OF w] show ?thesis by (simp add: insert_absorb)
next
  case 2
  have b: "bindings_ok (world_bindings w)" using w by (simp add: world_ok_def)
  have "continuation_ready (aw_registry w) lease continuation deadline clock = Some (r', lease', Inr ())"
    using eq 2 by simp
  from world_ok_retire_continuation[OF w l continuation_ready_retires[OF b this], of "{lease'}"] 2
  show ?thesis by simp
qed

lemma world_ok_drop_continuation:
  assumes w: "world_ok mac n w" and l: "lease \<in> aw_continuations w"
    and eq: "continuation_lease_drop (aw_registry w) lease = Some r'"
  shows "world_ok mac (Suc n) (w\<lparr>aw_registry := r', aw_continuations := aw_continuations w - {lease}\<rparr>)"
proof (cases "cl_active lease")
  case True
  have "bindings_ok (world_bindings w)" using w by (simp add: world_ok_def)
  from world_ok_retire_continuation[OF w l continuation_lease_drop_retires[OF this True eq], of "{}"]
  show ?thesis by simp
next
  case False
  with eq have "r' = aw_registry w" by (simp add: continuation_lease_drop_def)
  with world_ok_discard[OF w False] show ?thesis by simp
qed

theorem world_ok_step:
  assumes "affinity_step mac w w'" and w: "world_ok mac n w"
  shows "world_ok mac (Suc n) w'"
proof -
  have b: "bindings_ok (world_bindings w)" using w by (simp add: world_ok_def)
  from assms(1) show ?thesis
  proof cases
    case (step_mark_attempting lease r' outcome)
    with world_ok_drops[OF w mark_attempting_drops(1)[OF b]] mark_attempting_drops(2)[OF b]
    show ?thesis by (simp add: epoch_kept_def)
  next
    case (step_consume_lease lease r')
    moreover have "bl_active lease" using w step_consume_lease by (auto simp: world_ok_def lease_kinds_def)
    ultimately show ?thesis using world_ok_retire_lease[OF w] consumes_retires[OF b] by simp
  next
    case (step_resolve_continuation raw now ttl available r' lookup)
    with world_ok_grants[OF w resolve_continuation_grants(1)[OF b]] resolve_continuation_grants(2)[OF b]
    show ?thesis by (simp add: epoch_kept_def)
  next
    case (step_bind_ready raw target continuation ttl deadline clock r' outcome)
    with world_ok_grants[OF w bind_ready_continuation_grants(1)[OF b]] bind_ready_continuation_grants(2)[OF b]
    show ?thesis by (simp add: epoch_kept_def)
  next
    case (step_clear_all r' cleared)
    from clear_drops(1)[OF b this(2)] show ?thesis
      unfolding step_clear_all(1) by (auto simp: epoch_kept_def intro: world_ok_drops[OF w])
  next
    case (step_clear_credential c r' cleared)
    from clear_drops(2)[OF b this(2)] show ?thesis
      unfolding step_clear_credential(1) by (auto simp: epoch_kept_def intro: world_ok_drops[OF w])
  next
    case (step_sweep ttl now r' cleared)
    from maintenance_drops(1)[OF b this(2)] show ?thesis
      unfolding step_sweep(1) by (auto simp: epoch_kept_def intro: world_ok_drops[OF w])
  next
    case (step_snapshot ttl enabled now r' snapshot)
    from maintenance_drops(2)[OF b this(2)] show ?thesis
      unfolding step_snapshot(1) by (auto simp: epoch_kept_def intro: world_ok_drops[OF w])
  next
    case (step_epoch epoch m)
    with world_ok_drops[OF w, of False "(aw_registry w)\<lparr>ar_epoch := epoch\<rparr>"] drops_refl[OF b] show ?thesis
      by (simp add: epoch_kept_def woke_def)
  qed (simp_all add: world_ok_begin_session[OF w] world_ok_begin_pending[OF w] world_ok_ready[OF w]
      world_ok_drop_continuation[OF w])
qed

lemma world_ok_run: "affinity_run mac n w \<Longrightarrow> world_ok mac n w"
proof (induction rule: affinity_run.induct)
  case (run_start epoch now)
  have "bindings_ok (bindings_new MAX_BINDINGS MAX_BRIDGE_CONTINUATION_TOTAL_BYTES now)"
    by (rule bindings_new_ok)
      (simp_all add: MAX_BINDINGS_def MAX_BRIDGE_CONTINUATION_TOTAL_BYTES_def usize_max_def)
  moreover have "j < SHARD_COUNT \<Longrightarrow> wait_at (bindings_new m c now) j k = None" for j k m c
    by (simp add: wait_at_def guard_get_def bindings_new_def)
  ultimately show ?case
    using run_start
    by (simp add: world_ok_def world_new_def registry_with_scheduler_epoch_def registry_with_limits_def
        lease_kinds_def fresh_versions_def owned_def)
      (auto simp: bindings_new_def)
qed (rule world_ok_step)

section \<open>Wake-ups\<close>

lemma grants_wait: "grants safe n b b' g \<Longrightarrow> safe \<Longrightarrow> sb_next_version b + n < 2 ^ 64 \<Longrightarrow>
    wait_at b j k = Some tok \<Longrightarrow> wait_at b' j k = Some tok"
  by (cases g) (auto simp: grants_def)

lemma drops_wait: "drops lost b b' \<Longrightarrow> wait_at b j k = Some tok \<Longrightarrow> wait_at b' j k = Some tok \<or> lost"
  unfolding drops_def by metis

lemma retires_wait:
  "retires r r' key t \<Longrightarrow> wait_at (ar_bindings r) j k = Some tok \<Longrightarrow>
     wait_at (ar_bindings r') j k = Some tok \<or> woke r r'"
  unfolding retires_def using drops_wait by blast

lemma continuation_ready_wait:
  assumes b: "bindings_ok (ar_bindings r)" and "wait_at (ar_bindings r) j k = Some tok"
    and eq: "continuation_ready r lease continuation deadline clock = Some (r', lease', result)"
  shows "wait_at (ar_bindings r') j k = Some tok \<or> woke r r'"
  using eq
proof (cases rule: continuation_ready_cases)
  case 1
  with assms show ?thesis by simp
next
  case 2
  with eq have "continuation_ready r lease continuation deadline clock = Some (r', lease', Inr ())" by simp
  from retires_wait[OF continuation_ready_retires[OF b this] assms(2)] show ?thesis .
qed

lemma continuation_drop_wait:
  assumes b: "bindings_ok (ar_bindings r)" and "wait_at (ar_bindings r) j k = Some tok"
    and eq: "continuation_lease_drop r lease = Some r'"
  shows "wait_at (ar_bindings r') j k = Some tok \<or> woke r r'"
proof (cases "cl_active lease")
  case True
  from retires_wait[OF continuation_lease_drop_retires[OF b True eq] assms(2)] show ?thesis .
next
  case False
  with assms show ?thesis by (simp add: continuation_lease_drop_def)
qed

lemma step_wakes:
  assumes "affinity_step mac w w'" and w: "world_ok mac n w" and c: "separated mac" "2 * Suc n < 2 ^ 64"
    and t: "wait_at (world_bindings w) j k = Some tok"
  shows "wait_at (world_bindings w') j k = Some tok \<or> woke (aw_registry w) (aw_registry w')"
proof -
  have b: "bindings_ok (world_bindings w)" using w by (simp add: world_ok_def)
  have v: "sb_next_version (world_bindings w) + 2 < 2 ^ 64" using w c by (auto simp: world_ok_def)
  have np: "no_pending (hash_session mac dialect uuid raw) (wait_at (world_bindings w))" for dialect uuid raw
    using world_ok_no_pending[OF w] c by simp
  from assms(1) show ?thesis
  proof cases
    case (step_begin_session dialect uuid raw now ttl r' result)
    with grants_wait[OF begin_session_grants(1)[OF b] np v t] show ?thesis by simp
  next
    case (step_mark_attempting lease r' outcome)
    with drops_wait[OF mark_attempting_drops(1)[OF b] t] show ?thesis by simp
  next
    case (step_consume_lease lease r')
    moreover have "bl_active lease" using w step_consume_lease by (auto simp: world_ok_def lease_kinds_def)
    ultimately show ?thesis using retires_wait[OF consumes_retires[OF b] t] by simp
  next
    case (step_resolve_continuation raw now ttl available r' lookup)
    with grants_wait[OF resolve_continuation_grants(1)[OF b] TrueI v t] show ?thesis by simp
  next
    case (step_bind_ready raw target continuation ttl deadline clock r' outcome)
    with grants_wait[OF bind_ready_continuation_grants(1)[OF b] TrueI v t] show ?thesis by simp
  next
    case (step_begin_pending raw target ttl deadline clock r' pending)
    with grants_wait[OF begin_pending_continuation_grants(1)[OF b] TrueI v t] show ?thesis by simp
  next
    case (step_clear_all r' cleared)
    with drops_wait[OF conjunct1[OF clear_drops(1)[OF b]] t] show ?thesis by simp
  next
    case (step_clear_credential c r' cleared)
    with drops_wait[OF conjunct1[OF clear_drops(2)[OF b]] t] show ?thesis by simp
  next
    case (step_sweep ttl now r' cleared)
    with drops_wait[OF conjunct1[OF maintenance_drops(1)[OF b]] t] show ?thesis by simp
  next
    case (step_snapshot ttl enabled now r' snapshot)
    with drops_wait[OF conjunct1[OF maintenance_drops(2)[OF b]] t] show ?thesis by simp
  qed (simp_all add: continuation_ready_wait[OF b t] continuation_drop_wait[OF b t] t)
qed

end
