(* ===== verification/Session_Affinity.thy ===== *)
theory Session_Affinity
  imports Affinity_History
begin

text \<open>
  The contract of session affinity towards the request path: the table behaves like a map of live
  bindings whatever its shards reclaim and whenever, bindings that were committed are found again,
  and nobody waits for an entry that no lease holder will resolve.
\<close>

section \<open>The table as a map of live bindings\<close>

type_synonym live_table = "session_hash \<Rightarrow> binding_state option"

definition live_entries :: "instant \<Rightarrow> duration \<Rightarrow> sharded_bindings \<Rightarrow> live_table" where
  "live_entries now ttl b key =
     (case guard_get b (shard_for key) key of
        Some entry \<Rightarrow> (if is_expired entry now ttl then None else Some entry)
      | None \<Rightarrow> None)"

text \<open>What starting a session may do to the map. The only freedom is to refuse a new entry.\<close>

definition spec_begin_session ::
  "session_hash \<Rightarrow> instant \<Rightarrow> live_table \<Rightarrow> live_table \<Rightarrow> affinity_error + binding_start \<Rightarrow> bool" where
  "spec_begin_session key now T T' result \<longleftrightarrow>
     (case T key of
        Some (Bound binding) \<Rightarrow>
          result = Inr (StartBound (tb_target binding)) \<and>
          T' = T(key \<mapsto> Bound (binding\<lparr>tb_last_seen_at := now\<rparr>))
      | Some (Creating version phase) \<Rightarrow> result = Inr (StartWait phase) \<and> T' = T
      | None \<Rightarrow>
          (\<exists>lease. result = Inr (StartCreate lease) \<and> bl_key lease = key \<and>
             T' = T(key \<mapsto> Creating (bl_version lease) PhaseSelecting)) \<or>
          result = Inl Capacity \<and> T' = T)"

definition spec_resolve ::
  "session_hash \<Rightarrow> instant \<Rightarrow> (affinity_target \<Rightarrow> bool) \<Rightarrow> live_table \<Rightarrow> live_table \<Rightarrow>
   continuation_lookup \<Rightarrow> bool" where
  "spec_resolve key now available T T' lookup \<longleftrightarrow>
     (case T key of
        Some (Bound binding) \<Rightarrow>
          (case tb_source binding of
             Continuation (Ready continuation) \<Rightarrow>
               (if available (tb_target binding)
                then lookup = LookupReady (tb_target binding) continuation \<and>
                     T' = T(key \<mapsto> Bound (binding\<lparr>tb_last_seen_at := now\<rparr>))
                else lookup = LookupMissing \<and> T' = T)
           | Continuation (Pending _) \<Rightarrow> lookup = LookupPending \<and> T' = T
           | Session \<Rightarrow> lookup = LookupMissing \<and> T' = T)
      | _ \<Rightarrow> lookup = LookupMissing \<and> T' = T)"

lemma live_cong:
  "(\<And>k. guard_get b' (shard_for k) k = guard_get b (shard_for k) k) \<Longrightarrow> live_entries now ttl b' = live_entries now ttl b"
  by (simp add: live_entries_def fun_eq_iff)

lemma shrinks_live: "shrinks now ttl b b' \<Longrightarrow> live_entries now ttl b' = live_entries now ttl b"
proof
  fix k
  assume "shrinks now ttl b b'"
  then have "guard_get b' (shard_for k) k = guard_get b (shard_for k) k \<or>
      guard_get b' (shard_for k) k = None \<and>
      (\<exists>entry. guard_get b (shard_for k) k = Some entry \<and> is_expired entry now ttl)"
    by (simp add: shrinks_def)
  then show "live_entries now ttl b' k = live_entries now ttl b k" by (auto simp: live_entries_def)
qed

lemma live_set:
  assumes "bindings_ok b"
  shows "live_entries now ttl (guard_set (shard_for key) key entry b) =
    (live_entries now ttl b)(key := if is_expired entry now ttl then None else Some entry)"
  using guard_get_set[OF assms shard_for_less] by (auto simp: live_entries_def fun_eq_iff)

lemma live_remove:
  assumes "bindings_ok b"
  shows "live_entries now ttl (fst (guard_remove (shard_for key) key b)) = (live_entries now ttl b)(key := None)"
  using guard_get_remove[OF assms shard_for_less] by (auto simp: live_entries_def fun_eq_iff)

lemma is_expired_refresh:
  "0 < ttl \<Longrightarrow> \<not> is_expired (Bound (binding\<lparr>tb_last_seen_at := now\<rparr>)) now ttl"
  by (simp add: is_expired_def duration_since_def)

lemma not_expired_creating [simp]: "\<not> is_expired (Creating version phase) now ttl"
  by (simp add: is_expired_def)

lemma is_expired_not_pending:
  "token (Bound binding) = None \<Longrightarrow>
     is_expired (Bound binding) now ttl \<longleftrightarrow> ttl \<le> duration_since now (tb_last_seen_at binding)"
  by (auto simp: is_expired_def token_def is_pending_continuation_def
      split: binding_source.splits continuation_lifecycle.splits)

lemma session_existing_live:
  assumes b: "bindings_ok b" and np: "no_pending key (wait_at b)"
    and eq: "session_existing key now ttl b = (c, start)"
  shows "case start of
      Some s \<Rightarrow> spec_begin_session key now (live_entries now ttl b) (live_entries now ttl c) (Inr s)
    | None \<Rightarrow> live_entries now ttl b key = None \<and> live_entries now ttl c = live_entries now ttl b"
proof (cases "guard_get b (shard_for key) key")
  case None
  with eq show ?thesis by (auto simp: session_existing_def live_entries_def)
next
  case (Some entry)
  show ?thesis
  proof (cases entry)
    case (Creating version phase)
    with Some eq show ?thesis
      by (auto simp: session_existing_def spec_begin_session_def live_entries_def)
  next
    case (Bound binding)
    have "token entry = None"
      using np Some Bound by (auto simp: no_pending_def wait_at_def token_def
          split: binding_source.splits continuation_lifecycle.splits)
    then have "live_entries now ttl b key =
        (if duration_since now (tb_last_seen_at binding) < ttl then Some (Bound binding) else None)"
      using Some Bound by (simp add: live_entries_def is_expired_not_pending)
    with Some Bound eq b show ?thesis
      by (auto simp: session_existing_def spec_begin_session_def live_set live_remove is_expired_refresh fun_upd_idem
          split: if_splits)
  qed
qed

lemma session_create_live:
  assumes b: "bindings_ok b" and absent: "guard_get b (shard_for key) key = None"
    and eq: "session_create key now ttl b = (c, out)"
  shows "case out of
      Done result \<Rightarrow> (\<exists>lease. result = Inr (StartCreate lease) \<and> bl_key lease = key \<and>
        live_entries now ttl c = (live_entries now ttl b)(key \<mapsto> Creating (bl_version lease) PhaseSelecting))
    | Rejected rejection \<Rightarrow> live_entries now ttl c = live_entries now ttl b \<and> sb_max_entries c \<le> sb_entry_count c"
proof -
  define d where "d = reclaim_expired_sample (shard_for key) now ttl b"
  have s: "shrinks now ttl b d" unfolding d_def by (rule expiry_shrinks[OF b shard_for_less])
  then have d: "bindings_ok d" "guard_get d (shard_for key) key = None"
    using absent unfolding shrinks_def by (blast, metis option.distinct(1))
  define e where "e = fst (next_version d)"
  have e: "bindings_ok e" "guard_get e j k = guard_get d j k" for j k
    using next_version_ok[OF d(1)] by (auto simp: e_def next_version_def Let_def)
  have le: "live_entries now ttl e = live_entries now ttl b"
    using live_cong[OF e(2)] shrinks_live[OF s] by simp
  let ?entry = "Creating (snd (next_version d)) PhaseSelecting"
  from e d have "guard_get e (shard_for key) key = None" by simp
  from try_insert_cases[OF e(1) shard_for_less this, of ?entry] show ?thesis
  proof cases
    case (1 f)
    then have "live_entries now ttl f = (live_entries now ttl e)(key \<mapsto> ?entry)"
      by (auto simp: live_entries_def fun_eq_iff)
    with 1 eq le show ?thesis
      by (auto simp: session_create_def d_def[symmetric] e_def[symmetric] Let_def split_def)
  next
    case (2 rejection)
    then have "sb_max_entries e \<le> sb_entry_count e"
      by (auto simp: try_insert_def try_reserve_entry_def try_reserve_continuation_bytes_def
          continuation_footprint_def split: if_splits)
    with 2 eq le show ?thesis
      by (auto simp: session_create_def d_def[symmetric] e_def[symmetric] Let_def split_def)
  qed
qed

lemma session_round_live:
  assumes b: "bindings_ok b" and np: "no_pending key (wait_at b)"
    and eq: "session_round key now ttl b = (c, out)"
  shows "case out of
      Done result \<Rightarrow> spec_begin_session key now (live_entries now ttl b) (live_entries now ttl c) result \<and> result \<noteq> Inl Capacity
    | Rejected rejection \<Rightarrow> live_entries now ttl b key = None \<and> live_entries now ttl c = live_entries now ttl b \<and>
        sb_max_entries c \<le> sb_entry_count c"
proof -
  obtain d start where ex: "session_existing key now ttl b = (d, start)" by fastforce
  note live = session_existing_live[OF b np ex]
  have d: "bindings_ok d" "start = None \<Longrightarrow> guard_get d (shard_for key) key = None"
    using session_existing_grants[OF b ex] by (auto simp: grants_def)
  show ?thesis
  proof (cases start)
    case (Some s)
    with live ex eq show ?thesis by (auto simp: session_round_def)
  next
    case None
    then have "session_create key now ttl d = (c, out)" using eq ex by (simp add: session_round_def)
    from session_create_live[OF d(1) d(2)[OF None] this] live None show ?thesis
      by (cases out) (auto simp: spec_begin_session_def)
  qed
qed

text \<open>A scan that frees nothing changes nothing.\<close>

lemma remove_expired_from_none:
  "snd (remove_expired_from is now ttl b) = 0 \<Longrightarrow> fst (remove_expired_from is now ttl b) = b"
  by (induction "is" arbitrary: b) (auto simp: Let_def split_def remove_expired_def)

lemma reclaim_for_capacity_futile:
  assumes "reclaim_for_capacity now ttl b = (c, False)"
  shows "sb_entry_count c = sb_entry_count b" "sb_max_entries c = sb_max_entries b"
  using assms remove_expired_from_none[of "[0..<SHARD_COUNT]" now ttl b]
  by (auto simp: reclaim_for_capacity_def remove_expired_all_def Let_def split_def split: if_splits)

lemma begin_session_live:
  assumes b: "bindings_ok (ar_bindings r)"
    and v: "sb_next_version (ar_bindings r) + 2 < 2 ^ 64"
    and np: "no_pending (hash_session mac dialect uuid raw) (wait_at (ar_bindings r))"
    and eq: "begin_session mac dialect uuid raw now ttl r = (r', result)"
  shows "spec_begin_session (hash_session mac dialect uuid raw) now
      (live_entries now ttl (ar_bindings r)) (live_entries now ttl (ar_bindings r')) result \<and>
    (result = Inl Capacity \<longrightarrow> sb_max_entries (ar_bindings r') \<le> sb_entry_count (ar_bindings r'))"
proof -
  define key where "key = hash_session mac dialect uuid raw"
  define b0 where "b0 = ar_bindings r"
  have w: "with_reclaim (\<lambda>_. session_round key now ttl) (\<lambda>_. Capacity) now ttl b0 = (ar_bindings r', result)"
    using eq by (auto simp: begin_session_def key_def b0_def Let_def split: prod.splits)
  obtain b1 out1 where r1: "session_round key now ttl b0 = (b1, out1)" by fastforce
  note l1 = session_round_live[OF b[folded b0_def] np[folded key_def b0_def] r1]
  show ?thesis
  proof (cases out1)
    case (Done x)
    with w r1 l1 show ?thesis by (simp add: with_reclaim_def key_def b0_def)
  next
    case (Rejected rejection)
    have g1: "grants True 1 b0 b1 None"
      using session_round_grants[OF b, of key now ttl] np r1 Rejected
      by (simp add: round_grants_def b0_def key_def)
    obtain b2 progress where r2: "reclaim_for_capacity now ttl b1 = (b2, progress)" by fastforce
    have ok1: "bindings_ok b1" using g1 by (simp add: grants_def)
    have s: "shrinks now ttl b1 b2" using reclaim_for_capacity_shrinks[OF ok1, of now ttl] r2 by simp
    have l2: "live_entries now ttl b2 = live_entries now ttl b0" "live_entries now ttl b0 key = None"
      using shrinks_live[OF s] l1 Rejected by simp_all
    show ?thesis
    proof (cases progress)
      case False
      with w r1 r2 Rejected l1 l2 reclaim_for_capacity_futile[of now ttl b1 b2] show ?thesis
        by (simp add: with_reclaim_def spec_begin_session_def key_def[symmetric] b0_def[symmetric])
    next
      case True
      obtain b3 out3 where r3: "session_round key now ttl b2 = (b3, out3)" by fastforce
      have ok2: "bindings_ok b2" using s by (simp add: shrinks_def)
      have "wait_at b2 = wait_at b0"
        using g1 v shrinks_wait_at[OF s] by (auto simp: grants_def b0_def fun_eq_iff)
      then have "no_pending key (wait_at b2)" using np by (simp add: key_def b0_def)
      from session_round_live[OF ok2 this r3] w r1 r2 r3 Rejected True l2 show ?thesis
        by (cases out3) (auto simp: with_reclaim_def spec_begin_session_def key_def[symmetric] b0_def[symmetric])
    qed
  qed
qed

lemma resolve_continuation_live:
  assumes b: "bindings_ok (ar_bindings r)"
    and eq: "resolve_continuation mac raw now ttl available r = (r', lookup)"
  shows "spec_resolve (hash_continuation mac raw) now available
      (live_entries now ttl (ar_bindings r)) (live_entries now ttl (ar_bindings r')) lookup"
proof (cases "guard_get (ar_bindings r) (shard_for (hash_continuation mac raw)) (hash_continuation mac raw)")
  case None
  with eq show ?thesis by (auto simp: resolve_continuation_def spec_resolve_def live_entries_def Let_def)
next
  case (Some entry)
  show ?thesis
  proof (cases entry)
    case Creating
    with Some eq show ?thesis by (auto simp: resolve_continuation_def spec_resolve_def live_entries_def Let_def)
  next
    case (Bound binding)
    have tok: "token entry = None \<Longrightarrow> live_entries now ttl (ar_bindings r) (hash_continuation mac raw) =
        (if duration_since now (tb_last_seen_at binding) < ttl then Some entry else None)"
      using Some Bound by (simp add: live_entries_def is_expired_not_pending)
    show ?thesis
    proof (cases "tb_source binding")
      case Session
      with Some Bound eq tok show ?thesis
        by (auto simp: resolve_continuation_def spec_resolve_def Let_def split: if_splits)
    next
      case (Continuation lifecycle)
      show ?thesis
      proof (cases lifecycle)
        case (Pending version)
        with Some Bound Continuation eq show ?thesis
          by (auto simp: resolve_continuation_def spec_resolve_def live_entries_def Let_def is_expired_def
              is_pending_continuation_def)
      next
        case (Ready c)
        with Some Bound Continuation eq tok b show ?thesis
          by (auto simp: resolve_continuation_def spec_resolve_def Let_def live_set live_remove
              is_expired_refresh fun_upd_idem split: if_splits)
      qed
    qed
  qed
qed

section \<open>What was bound is found\<close>

lemma begin_session_found:
  assumes "guard_get (ar_bindings r) (shard_for (hash_session mac dialect uuid raw))
      (hash_session mac dialect uuid raw) = Some (Bound binding)"
    "duration_since now (tb_last_seen_at binding) < ttl"
  shows "snd (begin_session mac dialect uuid raw now ttl r) = Inr (StartBound (tb_target binding))"
  using assms by (simp add: begin_session_def with_reclaim_def session_round_def session_existing_def Let_def)

lemma resolve_found:
  assumes "guard_get (ar_bindings r) (shard_for (hash_continuation mac raw)) (hash_continuation mac raw) =
      Some (Bound binding)" "tb_source binding = Continuation (Ready state)"
    "duration_since now (tb_last_seen_at binding) < ttl" "available (tb_target binding)"
  shows "snd (resolve_continuation mac raw now ttl available r) = LookupReady (tb_target binding) state"
  using assms by (simp add: resolve_continuation_def Let_def)

lemma guard_get_replace:
  assumes "bindings_ok b" "guard_replace (shard_for key) key entry b = Some b'"
  shows "guard_get b' (shard_for key) key = Some entry"
  using guard_replace_set(1)[OF assms(2)] guard_get_set[OF assms(1) shard_for_less] by simp

lemma committed_found:
  assumes "lease_commit r lease target clock = Some (r', Inr ()) \<and>
      bl_key lease = hash_session mac dialect uuid raw"
    and b: "bindings_ok (ar_bindings r)" and ttl: "\<And>i. duration_since now (clock i) < ttl"
  shows "snd (begin_session mac dialect uuid raw now ttl r') = Inr (StartBound target)"
proof -
  from assms(1) obtain r1 lease' where c: "commit_with_deadline r lease target None clock = Some (r1, lease', Inr ())"
      "binding_lease_drop r1 lease' = Some r'" and key: "bl_key lease = hash_session mac dialect uuid raw"
    by (auto simp: lease_commit_def bind_eq_Some_conv)
  from c(1) show ?thesis
  proof (cases rule: commit_with_deadline_cases)
    case (2 b1 n)
    then have "r' = r1" using c(2) binding_lease_drop_inactive[of lease' r1] by simp
    with 2 key guard_get_replace[OF b 2(2)] wake_waiters_woke(2)[OF 2(3)] ttl show ?thesis
      by (simp add: begin_session_found)
  qed simp
qed

lemma readied_found:
  assumes "continuation_ready r lease state deadline clock = Some (r', lease', Inr ()) \<and>
      cl_key lease = hash_continuation mac raw \<and> available (cl_target lease)"
    and b: "bindings_ok (ar_bindings r)" and ttl: "\<And>i. duration_since now (clock i) < ttl"
  shows "snd (resolve_continuation mac raw now ttl available r') = LookupReady (cl_target lease) state"
proof -
  from assms(1) have "continuation_ready r lease state deadline clock = Some (r', lease', Inr ())" by simp
  then show ?thesis
  proof (cases rule: continuation_ready_cases)
    case (2 binding b1 n)
    with assms(1) guard_get_replace[OF b 2(4)] wake_waiters_woke(2)[OF 2(5)] ttl show ?thesis
      by (simp add: resolve_found)
  qed simp
qed

lemma bind_ready_round_entry:
  assumes b: "bindings_ok b"
    and eq: "bind_ready_round key target state now ttl deadline t b = (c, Done (Inr u))"
  shows "\<exists>binding. guard_get c (shard_for key) key = Some (Bound binding) \<and> tb_target binding = target \<and>
    tb_source binding = Continuation (Ready state) \<and> tb_last_seen_at binding = snd (snd t)"
proof -
  define d where "d = fst (remove_if_expired (shard_for key) key now ttl b)"
  have d: "bindings_ok d" unfolding d_def by (rule expiry_ok[OF b shard_for_less])
  show ?thesis
  proof (cases "guard_get d (shard_for key) key")
    case (Some existing)
    with eq d show ?thesis
      by (auto simp: bind_ready_round_def d_def[symmetric] bind_ready_existing_def Let_def guard_get_set
          split: if_splits binding_state.splits)
  next
    case None
    define e where "e = reclaim_expired_sample (shard_for key) now ttl d"
    have s: "shrinks now ttl d e" unfolding e_def by (rule expiry_shrinks[OF d shard_for_less])
    then have e: "bindings_ok e" "guard_get e (shard_for key) key = None"
      using None unfolding shrinks_def by (blast, metis option.distinct(1))
    let ?entry = "Bound \<lparr> tb_target = target, tb_last_seen_at = snd (snd t),
      tb_source = Continuation (Ready state) \<rparr>"
    from try_insert_cases[OF e(1) shard_for_less e(2), of ?entry] show ?thesis
      by cases (use None eq in \<open>auto simp: bind_ready_round_def d_def[symmetric] e_def[symmetric]
        bind_ready_insert_def Let_def split: if_splits\<close>)
  qed
qed

lemma bound_found:
  assumes "bind_ready_continuation_with_deadline mac raw target state ttl' deadline clock r = (r', Inr ()) \<and>
      available target"
    and b: "bindings_ok (ar_bindings r)" and ttl: "\<And>i. duration_since now (clock i) < ttl"
  shows "snd (resolve_continuation mac raw now ttl available r') = LookupReady target state"
proof -
  let ?key = "hash_continuation mac raw"
  let ?round = "\<lambda>n. bind_ready_round ?key target state (clock 1) ttl' deadline (round_clock clock n)"
  have "with_reclaim ?round affinity_error_of_rejection (clock 1) ttl' (ar_bindings r) = (ar_bindings r', Inr ())"
    using assms(1) by (auto simp: bind_ready_continuation_with_deadline_def Let_def split: sum.splits prod.splits)
  then obtain n c where "bindings_ok c" "?round n c = (ar_bindings r', Done (Inr ()))"
    using bind_ready_loop.done_in_round[OF b] by blast
  from bind_ready_round_entry[OF this] assms(1) ttl resolve_found show ?thesis
    by (auto simp: round_clock_def)
qed

section \<open>Reachable worlds\<close>

lemma run_facts:
  assumes "affinity_run mac n w" "separated mac" "2 * Suc n < 2 ^ 64"
  shows "bindings_ok (world_bindings w)" "sb_next_version (world_bindings w) + 2 < 2 ^ 64"
    "sb_max_entries (world_bindings w) = 300000"
    "no_pending (hash_session mac dialect uuid raw) (wait_at (world_bindings w))"
    "fresh_versions w" "owned w" "lease_kinds mac w"
  using world_ok_run[OF assms(1)] world_ok_no_pending[OF world_ok_run[OF assms(1)], of dialect uuid raw] assms(2,3)
  by (auto simp: world_ok_def MAX_BINDINGS_def)

lemma holder_unique:
  assumes "fresh_versions w" "(k, version, pending) \<in> holders w"
  shows "pending \<or> (\<exists>!l. l \<in> aw_leases w \<and> bl_key l = k \<and> bl_version l = version)"
    "\<not> pending \<or> (\<exists>!l. l \<in> aw_continuations w \<and> cl_active l \<and> cl_key l = k \<and> cl_version l = version)"
  using assms by (auto simp: fresh_versions_def holders_def inj_on_def)

lemma stale_commit:
  assumes "bl_active lease"
    and "\<And>phase. guard_get (ar_bindings r) (shard_for (bl_key lease)) (bl_key lease) \<noteq>
      Some (Creating (bl_version lease) phase)"
  shows "lease_commit r lease target clock = Some (r, Inl LeaseLost)"
proof -
  have "remove_current r lease = (r, lease\<lparr>bl_active := False\<rparr>, False)"
    using assms by (auto simp: remove_current_def Let_def split: option.splits binding_state.splits)
  with assms show ?thesis
    by (simp add: lease_commit_def commit_with_deadline_def deadline_passed_def binding_lease_drop_def)
qed

text \<open>A world in which one session is being bound, for the witnesses.\<close>

definition sample_start :: "affinity_registry \<times> (affinity_error + binding_start)" where
  "sample_start =
     begin_session (\<lambda>x. x) PD_OpenAiResponses [7] [8] 5 10 (registry_with_scheduler_epoch epoch_new 0)"

definition sample_world :: affinity_world where
  "sample_world = (world_new epoch_new 0)\<lparr>aw_registry := fst sample_start,
     aw_leases := start_leases (snd sample_start) \<union> {}\<rparr>"

definition sample_key :: session_hash where
  "sample_key = hash_session (\<lambda>x. x) PD_OpenAiResponses [7] [8]"

lemma affinity_sample_run: "affinity_run (\<lambda>x. x) 1 sample_world"
proof -
  have "affinity_run (\<lambda>x. x) 0 (world_new epoch_new 0)"
    by (rule run_start) (simp add: epoch_new_def)
  moreover have "affinity_step (\<lambda>x. x) (world_new epoch_new 0) sample_world"
    using step_begin_session[of "\<lambda>x. x" PD_OpenAiResponses "[7]" "[8]" 5 10 "world_new epoch_new 0"
        "fst sample_start" "snd sample_start"]
    by (simp add: sample_world_def sample_start_def world_new_def)
  ultimately show ?thesis using run_step by fastforce
qed

lemma separated_id: "separated (\<lambda>x. x)"
  by (simp add: separated_def hash_session_def hash_continuation_def digest_def digest_input_def bytes_of_string_def)

lemma sample_key_eval: "shard_for sample_key = 1"
  by code_simp

lemma sample_start_eval:
  "ar_bindings (fst sample_start) = (bindings_new MAX_BINDINGS MAX_BRIDGE_CONTINUATION_TOTAL_BYTES 0)
       \<lparr>sb_shards := (replicate 16 [])[1 := [(sample_key, Creating 1 PhaseSelecting)]],
        sb_entry_count := 1, sb_next_version := 1\<rparr>"
  "snd sample_start = Inr (StartCreate \<lparr> bl_key = sample_key, bl_version = 1, bl_active = True \<rparr>)"
  by (simp_all add: sample_start_def begin_session_def with_reclaim_def session_round_def
      session_existing_def session_create_def reclaim_expired_sample_def expired_keys_def next_version_def
      try_insert_def try_reserve_entry_def try_reserve_continuation_bytes_def guard_set_def put_shard_def
      guard_get_def bindings_new_def registry_with_scheduler_epoch_def registry_with_limits_def SHARD_COUNT_def
      continuation_footprint_def wrapping_add_usize_def MAX_BINDINGS_def Let_def
      sample_key_def[symmetric] sample_key_eval)

lemma sample_epoch: "ar_epoch (fst sample_start) = epoch_new"
  by (auto simp: sample_start_def begin_session_def Let_def registry_with_scheduler_epoch_def
      registry_with_limits_def split: prod.splits)

section \<open>Properties\<close>

text \<open>C22. In every reachable world the two shared counters are exact: the entry counter is the number
  of entries in all shards and the byte counter the number of continuation bytes they hold, with
  the full allowance for a pending continuation; they never exceed 300,000 entries and 64 MiB, and
  no shard holds a key twice.\<close>

theorem affinity_budgets_exact:
  assumes "affinity_run mac n w"
  shows "sb_entry_count (world_bindings w) = sum_list (map length (sb_shards (world_bindings w))) \<and>
    sb_continuation_bytes (world_bindings w) = sum_list (map shard_bytes (sb_shards (world_bindings w))) \<and>
    sb_entry_count (world_bindings w) \<le> 300000 \<and>
    sb_continuation_bytes (world_bindings w) \<le> 64 * 1024 * 1024 \<and>
    list_all (\<lambda>entries. distinct (map fst entries)) (sb_shards (world_bindings w))"
  using world_ok_run[OF assms]
  by (simp add: world_ok_def bindings_ok_def MAX_BINDINGS_def MAX_BRIDGE_CONTINUATION_TOTAL_BYTES_def list_all_iff)

theorem affinity_budgets_exact_witness:
  "sb_entry_count (ar_bindings (fst sample_start)) = 1 \<and>
   sum_list (map length (sb_shards (ar_bindings (fst sample_start)))) = 1 \<and>
   sb_continuation_bytes (ar_bindings (fst sample_start)) \<le> 64 * 1024 * 1024"
  using affinity_budgets_exact[OF affinity_sample_run] sample_start_eval(1) by (simp add: sample_world_def)



text \<open>C21. No wake-up is lost. Whatever operation is performed in a reachable world, if an entry that
  requests wait for disappears or is replaced by its final binding, then the epoch those requests
  watch has moved on.\<close>

theorem affinity_no_lost_wakeup:
  assumes "affinity_run mac n w" "separated mac" "2 * Suc n < 2 ^ 64" "affinity_step mac w w'"
    and "guard_get (world_bindings w) i k = Some entry" "is_waiting entry"
    and "\<forall>entry'. guard_get (world_bindings w') i k = Some entry' \<longrightarrow> token entry' \<noteq> token entry"
  shows "ep_published (ar_epoch (aw_registry w)) < ep_published (ar_epoch (aw_registry w'))"
proof -
  from assms(6) obtain tok where tok: "token entry = Some tok" by (auto simp: is_waiting_token)
  with assms(5) have "wait_at (world_bindings w) i k = Some tok" by (simp add: wait_at_def)
  from step_wakes[OF assms(4) world_ok_run[OF assms(1)] assms(2,3) this]
  have "woke (aw_registry w) (aw_registry w')"
    using assms(7) tok by (auto simp: wait_at_def split: option.splits)
  then show ?thesis
    using woke_published(1) world_ok_run[OF assms(1)] by (simp add: world_ok_def)
qed

definition sample_lease :: binding_lease where
  "sample_lease = \<lparr> bl_key = sample_key, bl_version = 1, bl_active = True \<rparr>"

theorem affinity_no_lost_wakeup_witness:
  "ep_published (ar_epoch (fst sample_start)) <
     ep_published (ar_epoch (the (binding_lease_drop (fst sample_start) sample_lease)))"
proof -
  have g: "guard_get (world_bindings sample_world) 1 sample_key = Some (Creating 1 PhaseSelecting)"
    by (simp add: guard_get_def sample_world_def sample_start_eval)
  define r where "r = the (binding_lease_drop (aw_registry sample_world) sample_lease)"
  have d: "binding_lease_drop (aw_registry sample_world) sample_lease = Some r"
    using g by (simp add: r_def sample_world_def sample_start_eval sample_lease_def binding_lease_drop_def
        remove_current_def Let_def sample_key_eval wake_waiters_def advance_def advance_claim_def
        checked_add_u64_def u64_max_def sample_epoch epoch_new_def)
  have l: "sample_lease \<in> aw_leases sample_world"
    by (simp add: sample_world_def sample_start_eval start_leases_def sample_lease_def)
  from d have "consumes sample_lease (aw_registry sample_world) r" by (simp add: consumes_def)
  from step_consume_lease[OF l this, of "\<lambda>x. x"]
  have step: "affinity_step (\<lambda>x. x) sample_world
    (sample_world\<lparr>aw_registry := r, aw_leases := aw_leases sample_world - {sample_lease}\<rparr>)" .
  have b: "bindings_ok (world_bindings sample_world)"
    using world_ok_run[OF affinity_sample_run] by (simp add: world_ok_def)
  have gone: "wait_at (ar_bindings r) 1 sample_key \<noteq> Some (1, False)"
    using binding_lease_drop_retires[OF b _ d] sample_key_eval
    by (simp add: sample_lease_def retires_def)
  show ?thesis
    using affinity_no_lost_wakeup[OF affinity_sample_run separated_id _ step g] gone
    by (auto simp: is_waiting_def wait_at_def r_def sample_world_def split: option.splits)
qed

text \<open>C5. The sharded table with its opportunistic and its forced reclaiming implements a plain map
  of live bindings. In every reachable world, starting a session returns a live binding and
  refreshes it, waits for one under construction, and otherwise creates an entry or reports that
  the table is full, which it then is; resolving a continuation answers from the live entry;
  sweeping and taking a snapshot leave the map as it is.\<close>

theorem affinity_refines_live_map:
  assumes "affinity_run mac n w" "separated mac" "2 * Suc n < 2 ^ 64"
  shows "(let (r', result) = begin_session mac dialect uuid raw now ttl (aw_registry w)
      in spec_begin_session (hash_session mac dialect uuid raw) now
           (live_entries now ttl (world_bindings w)) (live_entries now ttl (ar_bindings r')) result \<and>
         (result = Inl Capacity \<longrightarrow> 300000 \<le> sb_entry_count (ar_bindings r'))) \<and>
    (let (r', lookup) = resolve_continuation mac raw' now ttl available (aw_registry w)
      in spec_resolve (hash_continuation mac raw') now available
           (live_entries now ttl (world_bindings w)) (live_entries now ttl (ar_bindings r')) lookup) \<and>
    live_entries now ttl (ar_bindings (fst (sweep_expired ttl now (aw_registry w)))) = live_entries now ttl (world_bindings w) \<and>
    live_entries now ttl (ar_bindings (fst (registry_snapshot ttl enabled now (aw_registry w)))) =
      live_entries now ttl (world_bindings w)"
proof (intro conjI)
  note f = run_facts[OF assms]
  obtain r' result where eq: "begin_session mac dialect uuid raw now ttl (aw_registry w) = (r', result)"
    by fastforce
  have "sb_max_entries (ar_bindings r') = 300000"
    using begin_session_grants(1)[OF f(1) eq] f(3) by (simp add: grants_def same_limits_def)
  with begin_session_live[OF f(1,2) f(4) eq]
  show "let (r', result) = begin_session mac dialect uuid raw now ttl (aw_registry w)
      in spec_begin_session (hash_session mac dialect uuid raw) now
           (live_entries now ttl (world_bindings w)) (live_entries now ttl (ar_bindings r')) result \<and>
         (result = Inl Capacity \<longrightarrow> 300000 \<le> sb_entry_count (ar_bindings r'))"
    by (simp add: eq)
  show "let (r', lookup) = resolve_continuation mac raw' now ttl available (aw_registry w)
      in spec_resolve (hash_continuation mac raw') now available
           (live_entries now ttl (world_bindings w)) (live_entries now ttl (ar_bindings r')) lookup"
    using resolve_continuation_live[OF f(1)] by (auto split: prod.splits)
  show "live_entries now ttl (ar_bindings (fst (sweep_expired ttl now (aw_registry w)))) = live_entries now ttl (world_bindings w)"
    using shrinks_live[OF remove_expired_all_shrinks[OF f(1)]] by (simp add: sweep_expired_def split_def Let_def)
  show "live_entries now ttl (ar_bindings (fst (registry_snapshot ttl enabled now (aw_registry w)))) =
      live_entries now ttl (world_bindings w)"
    using shrinks_live[OF snapshot_shards_shrinks[OF f(1)]] by (simp add: registry_snapshot_def split_def Let_def)
qed

theorem affinity_refines_live_map_witness:
  "live_entries 6 10 (world_bindings sample_world) sample_key = Some (Creating 1 PhaseSelecting) \<and>
   snd (begin_session (\<lambda>x. x) PD_OpenAiResponses [7] [8] 6 10 (aw_registry sample_world)) =
     Inr (StartWait PhaseSelecting)"
proof -
  have g: "guard_get (world_bindings sample_world) 1 sample_key = Some (Creating 1 PhaseSelecting)"
    by (simp add: guard_get_def sample_world_def sample_start_eval)
  then have "live_entries 6 10 (world_bindings sample_world) sample_key = Some (Creating 1 PhaseSelecting)"
    using sample_key_eval by (simp add: live_entries_def)
  with affinity_refines_live_map[OF affinity_sample_run separated_id, of PD_OpenAiResponses "[7]" "[8]" 6 10
      "[]" "\<lambda>_. True" True]
  show ?thesis by (simp add: spec_begin_session_def sample_key_def[symmetric] split_def Let_def)
qed

text \<open>C31. What was bound is found again. After a session lease committed a target, a request with the
  same identity is given that target for as long as the binding has not been idle for the time to
  live; after a pending continuation became ready, or a ready one was bound under a fresh
  identity, resolving it returns its target and its state, provided the target is available.\<close>

theorem binding_round_trip:
  assumes "bindings_ok (ar_bindings r)" "\<And>i. duration_since now (clock i) < ttl"
  shows "(lease_commit r lease target clock = Some (r', Inr ()) \<and>
      bl_key lease = hash_session mac dialect uuid raw \<longrightarrow>
      snd (begin_session mac dialect uuid raw now ttl r') = Inr (StartBound target)) \<and>
    (continuation_ready r clease state deadline clock = Some (r', clease', Inr ()) \<and>
      cl_key clease = hash_continuation mac raw \<and> available (cl_target clease) \<longrightarrow>
      snd (resolve_continuation mac raw now ttl available r') = LookupReady (cl_target clease) state) \<and>
    (bind_ready_continuation_with_deadline mac raw target state ttl' deadline clock r = (r', Inr ()) \<and>
      available target \<longrightarrow>
      snd (resolve_continuation mac raw now ttl available r') = LookupReady target state)"
proof (intro conjI impI, goal_cases)
  case 1 then show ?case by (rule committed_found) (rule assms)+
next
  case 2 then show ?case by (rule readied_found) (rule assms)+
next
  case 3 then show ?case by (rule bound_found) (rule assms)+
qed

definition sample_target :: affinity_target where
  "sample_target = \<lparr> at_route_id = 1, at_target_id = 2, at_credential_id = ProviderCredential 3,
     at_upstream_model = ''m'', at_ingress_protocol_dialect = PD_OpenAiResponses,
     at_upstream_protocol_dialect = PD_OpenAiResponses \<rparr>"

definition sample_attempting :: affinity_registry where
  "sample_attempting = fst (the (mark_attempting (fst sample_start) sample_lease))"

definition sample_committed :: affinity_registry where
  "sample_committed = fst (the (lease_commit sample_attempting sample_lease sample_target (\<lambda>_. 5)))"

lemma sample_attempting_eval:
  "mark_attempting (fst sample_start) sample_lease = Some (sample_attempting, Inr ())"
  "ar_bindings sample_attempting = guard_set 1 sample_key (Creating 1 PhaseAttempting) (ar_bindings (fst sample_start))"
  "ar_epoch sample_attempting = epoch_new\<lparr>ep_current := 1, ep_published := 1\<rparr>"
  by (simp_all add: sample_attempting_def mark_attempting_def sample_lease_def sample_key_eval
      sample_start_eval guard_get_def wake_waiters_def advance_def advance_claim_def advance_publish_def
      checked_add_u64_def u64_max_def sample_epoch epoch_new_def)

lemma sample_committed_eval:
  "lease_commit sample_attempting sample_lease sample_target (\<lambda>_. 5) = Some (sample_committed, Inr ())"
  by (simp add: sample_committed_def lease_commit_def commit_with_deadline_def deadline_passed_def sample_lease_def
      sample_key_eval guard_replace_def guard_get_def guard_set_def put_shard_def sample_attempting_eval
      sample_start_eval continuation_footprint_def wake_waiters_def advance_def advance_claim_def advance_publish_def
      checked_add_u64_def u64_max_def epoch_new_def binding_lease_drop_inactive Let_def)

theorem binding_round_trip_witness:
  "snd (begin_session (\<lambda>x. x) PD_OpenAiResponses [7] [8] 6 10 sample_committed) = Inr (StartBound sample_target)"
proof -
  have b: "bindings_ok (ar_bindings (fst sample_start))"
    using world_ok_run[OF affinity_sample_run] by (simp add: world_ok_def sample_world_def)
  have "bindings_ok (ar_bindings sample_attempting)"
    using mark_attempting_drops(1)[OF b sample_attempting_eval(1)] by (simp add: drops_def)
  from conjunct1[OF binding_round_trip[OF this, of 6 "\<lambda>_. 5" 10 sample_lease sample_target sample_committed
        "\<lambda>x. x" PD_OpenAiResponses "[7]" "[8]"]] sample_committed_eval
  show ?thesis by (simp add: duration_since_def sample_lease_def sample_key_def)
qed

end
