(* ===== verification/Raw_Json.thy ===== *)
theory Raw_Json
  imports Payload_Buffer Protocol_Error "HOL-Library.List_Lexorder"
begin

text \<open>
  JSON bodies that are forwarded without being parsed into a tree:
  \<open>crates/protocol/src/raw_json.rs\<close>.

  A payload keeps the body and, for each top-level field, the range of its value in the body.
  The JSON parser is a third-party library and a parameter (\<open>json_lib\<close>): what it reports of an
  object are the decoded names with the positions of the raw values, in the order of the text, up
  to the end or the first error (\<open>jl_object\<close> when every value is taken, \<open>jl_scan names\<close> when the values of
  other names are skipped). Slices carry their address, because the code finds out by
  comparing addresses whether one slice is part of another. Indexing out of range is a panic.
\<close>

section \<open>Slices, errors and the JSON library\<close>

record slice =
  sl_addr :: nat
  sl_bytes :: "byte list"

definition sub_slice :: "slice \<Rightarrow> nat \<Rightarrow> nat \<Rightarrow> slice" where
  "sub_slice s offset len =
     \<lparr> sl_addr = sl_addr s + offset, sl_bytes = take len (drop offset (sl_bytes s)) \<rparr>"

record json_lib =
  jl_object :: "byte list \<Rightarrow> (byte list \<times> nat \<times> nat) list \<times> bool"
  jl_scan :: "byte list list \<Rightarrow> byte list \<Rightarrow> (byte list \<times> nat \<times> nat) list \<times> bool"
  jl_valid :: "byte list \<Rightarrow> bool"
  jl_string :: "byte list \<Rightarrow> byte list option"
  jl_array :: "byte list \<Rightarrow> (nat \<times> nat) list option"
  jl_quote :: "byte list \<Rightarrow> byte list list"

text \<open>The documented promise of the borrowed raw values: they lie in the text, one after the
  other, and none is empty.\<close>

fun entries_in_order :: "nat \<Rightarrow> nat \<Rightarrow> (byte list \<times> nat \<times> nat) list \<Rightarrow> bool" where
  "entries_in_order lo len [] \<longleftrightarrow> True"
| "entries_in_order lo len ((name, offset, n) # entries) \<longleftrightarrow>
     lo \<le> offset \<and> 0 < n \<and> offset + n \<le> len \<and> entries_in_order (offset + n) len entries"

definition json_lib_ok :: "json_lib \<Rightarrow> bool" where
  "json_lib_ok L \<longleftrightarrow> (\<forall>text. entries_in_order 0 (length text) (fst (jl_object L text))) \<and>
     (\<forall>names text. entries_in_order 0 (length text) (fst (jl_scan L names text)))"

definition raw_buffer_error :: "payload_buffer_error \<Rightarrow> protocol_error" where
  "raw_buffer_error e = PE_Internal ''protocol payload allocation failed''"

definition invalid_json :: protocol_error where
  "invalid_json = PE_InvalidPayload ''request body must be valid JSON''"

definition encode_error :: protocol_error where
  "encode_error = PE_InvalidPayload ''request JSON could not be encoded''"

definition is_ascii_whitespace :: "byte \<Rightarrow> bool" where
  "is_ascii_whitespace b \<longleftrightarrow> b = 32 \<or> b = 9 \<or> b = 10 \<or> b = 12 \<or> b = 13"

definition first_non_whitespace :: "byte list \<Rightarrow> byte option" where
  "first_non_whitespace bytes = List.find (\<lambda>b. \<not> is_ascii_whitespace b) bytes"

text \<open>Slicing \<open>&bytes[start..end]\<close>.\<close>

definition slice_range :: "byte list \<Rightarrow> nat \<times> nat \<Rightarrow> ('e, byte list) exec" where
  "slice_range bytes span =
     (if fst span \<le> snd span \<and> snd span \<le> length bytes
      then Returns (take (snd span - fst span) (drop (fst span) bytes)) else Panics)"

section \<open>Payloads\<close>

type_synonym raw_fields = "(byte list \<times> nat \<times> nat) list"

record raw_json_payload =
  rj_body :: slice
  rj_fields :: raw_fields
  rj_has_duplicate_fields :: bool

text \<open>The visitor of the object: it rejects a value outside the body.\<close>

fun visit_map :: "nat \<Rightarrow> nat \<Rightarrow> (byte list \<times> nat \<times> nat) list \<Rightarrow> raw_fields option" where
  "visit_map base end_addr [] = Some []"
| "visit_map base end_addr ((name, start, len) # entries) =
     (let value_end = saturating_add_usize start len
      in if start < base \<or> end_addr < value_end then None
         else map_option (\<lambda>fs. (name, start - base, value_end - base) # fs)
                (visit_map base end_addr entries))"

definition raw_object_fields :: "json_lib \<Rightarrow> slice \<Rightarrow> raw_fields option" where
  "raw_object_fields L bytes =
     (let base = sl_addr bytes;
          end_addr = saturating_add_usize base (length (sl_bytes bytes));
          (entries, complete) = jl_object L (sl_bytes bytes)
      in case visit_map base end_addr (map (\<lambda>(name, offset, len). (name, base + offset, len)) entries) of
           None \<Rightarrow> None
         | Some fs \<Rightarrow> if complete then Some fs else None)"

text \<open>\<open>dedup_by\<close> with the closure of \<open>parse\<close>: a later entry of the same name moves its range
  into the earlier one.\<close>

fun dedup_fields :: "raw_fields \<Rightarrow> raw_fields" where
  "dedup_fields [] = []"
| "dedup_fields [field] = [field]"
| "dedup_fields (earlier # later # fs) =
     (if fst later = fst earlier then dedup_fields ((fst earlier, snd later) # fs)
      else earlier # dedup_fields (later # fs))"

definition raw_json_parse :: "json_lib \<Rightarrow> slice \<Rightarrow> protocol_error + raw_json_payload" where
  "raw_json_parse L body =
     (if first_non_whitespace (sl_bytes body) \<noteq> Some 123
      then if jl_valid L (sl_bytes body)
           then Inl (PE_InvalidPayload ''request body must be a JSON object'') else Inl invalid_json
      else case raw_object_fields L body of
             None \<Rightarrow> Inl invalid_json
           | Some entries \<Rightarrow>
               (let sorted = sort_key fst entries; fs = dedup_fields sorted
                in Inr \<lparr> rj_body = body, rj_fields = fs,
                        rj_has_duplicate_fields = (length fs \<noteq> length sorted) \<rparr>))"

text \<open>The binary search of the standard library.\<close>

function binary_search :: "('k::linorder \<times> 'v) list \<Rightarrow> 'k \<Rightarrow> nat \<Rightarrow> nat \<Rightarrow> nat option" where
  "binary_search xs k lo hi =
     (if hi \<le> lo then None
      else (let mid = lo + (hi - lo) div 2; x = fst (xs ! mid)
            in if x = k then Some mid
               else if x < k then binary_search xs k (mid + 1) hi
               else binary_search xs k lo mid))"
  by pat_completeness auto

termination binary_search
  by (relation "measure (\<lambda>(xs, k, lo, hi). hi - lo)") auto

declare binary_search.simps [simp del]

definition field_range :: "raw_fields \<Rightarrow> byte list \<Rightarrow> (nat \<times> nat) option" where
  "field_range fs name =
     map_option (\<lambda>i. snd (fs ! i)) (binary_search fs name 0 (length fs))"

definition contains_field :: "raw_fields \<Rightarrow> byte list \<Rightarrow> bool" where
  "contains_field fs name \<longleftrightarrow> field_range fs name \<noteq> None"

definition raw_field :: "raw_json_payload \<Rightarrow> byte list \<Rightarrow> ('e, byte list option) exec" where
  "raw_field p name =
     (case field_range (rj_fields p) name of
        None \<Rightarrow> Returns None
      | Some span \<Rightarrow> bind_exec (slice_range (sl_bytes (rj_body p)) span) (\<lambda>value. Returns (Some value)))"

text \<open>\<open>parse_field::<String>\<close>: \<open>None\<close> for a missing field, \<open>Some None\<close> for one that is no string.\<close>

definition parse_string_field ::
  "json_lib \<Rightarrow> raw_json_payload \<Rightarrow> byte list \<Rightarrow> ('e, byte list option option) exec" where
  "parse_string_field L p name =
     bind_exec (raw_field p name) (\<lambda>value. Returns (map_option (jl_string L) value))"

section \<open>Writing\<close>

text \<open>An append whose failure is reported through \<open>err\<close>.\<close>

definition put_with ::
  "(payload_buffer_error \<Rightarrow> protocol_error) \<Rightarrow> allocator \<Rightarrow> payload_buffer \<Rightarrow> byte list \<Rightarrow>
   (protocol_error, payload_buffer) exec" where
  "put_with err A b bytes = map_err_exec err (extend_from_slice A b bytes)"

abbreviation put_bytes ::
  "allocator \<Rightarrow> payload_buffer \<Rightarrow> byte list \<Rightarrow> (protocol_error, payload_buffer) exec" where
  "put_bytes \<equiv> put_with raw_buffer_error"

text \<open>\<open>serde_json::to_writer\<close> of a string: it fails only when the buffer does.\<close>

definition put_json_string ::
  "json_lib \<Rightarrow> allocator \<Rightarrow> payload_buffer \<Rightarrow> byte list \<Rightarrow> (protocol_error, payload_buffer) exec" where
  "put_json_string L A b text =
     map_err_exec raw_buffer_error (append_pieces (extend_from_slice A) b (jl_quote L text))"

definition write_field_prefix ::
  "json_lib \<Rightarrow> allocator \<Rightarrow> payload_buffer \<Rightarrow> bool \<Rightarrow> byte list \<Rightarrow> (protocol_error, payload_buffer) exec" where
  "write_field_prefix L A b first name =
     bind_exec (if \<not> first then put_bytes A b (bytes_of_string '','') else Returns b)
       (\<lambda>b. bind_exec (put_json_string L A b name) (\<lambda>b. put_bytes A b (bytes_of_string '':'')))"

definition output_buffer :: "allocator \<Rightarrow> nat \<Rightarrow> (protocol_error, payload_buffer) exec" where
  "output_buffer A expected_len =
     map_err_exec raw_buffer_error (with_capacity_hint A (Some expected_len) usize_max)"

fun encode_fields ::
  "json_lib \<Rightarrow> allocator \<Rightarrow> protocol_operation \<Rightarrow> byte list \<Rightarrow> byte list \<Rightarrow> payload_buffer \<Rightarrow> bool \<Rightarrow>
   raw_fields \<Rightarrow> (protocol_error, payload_buffer) exec" where
  "encode_fields L A operation upstream_model body b first [] = Returns b"
| "encode_fields L A operation upstream_model body b first ((name, span) # fs) =
     (if name = bytes_of_string ''stream'' \<and> \<not> allows_stream operation
      then encode_fields L A operation upstream_model body b first fs
      else bind_exec (write_field_prefix L A b first name)
        (\<lambda>b. bind_exec
          (if name = bytes_of_string ''model'' then put_json_string L A b upstream_model
           else bind_exec (slice_range body span) (put_bytes A b))
          (\<lambda>b. encode_fields L A operation upstream_model body b False fs)))"

definition raw_json_encode ::
  "json_lib \<Rightarrow> allocator \<Rightarrow> raw_json_payload \<Rightarrow> protocol_operation \<Rightarrow> byte list \<Rightarrow>
   (protocol_error, byte list) exec" where
  "raw_json_encode L A p operation upstream_model =
     bind_exec (parse_string_field L p (bytes_of_string ''model''))
       (\<lambda>model. case model of
          Some None \<Rightarrow> Fails (PE_InvalidPayload ''model must be a non-empty string'')
        | _ \<Rightarrow>
            (let model_matches = model = Some (Some upstream_model);
                 removes_stream = \<not> allows_stream operation \<and>
                   contains_field (rj_fields p) (bytes_of_string ''stream'')
             in if model_matches \<and> \<not> removes_stream \<and> \<not> rj_has_duplicate_fields p
                then Returns (sl_bytes (rj_body p))
                else bind_exec (output_buffer A (length (sl_bytes (rj_body p))))
                  (\<lambda>b. bind_exec (put_bytes A b (bytes_of_string ''{''))
                  (\<lambda>b. bind_exec (encode_fields L A operation upstream_model (sl_bytes (rj_body p)) b True
                                   (rj_fields p))
                  (\<lambda>b. bind_exec (put_bytes A b (bytes_of_string ''}''))
                  (\<lambda>b. Returns (fst (freeze b))))))))"

text \<open>
  Rebuilding a payload with one value rewritten. The rewriting function is called for the first
  field of that name; a second one would be the panic of the emptied option. The ranges of the
  fields in the new body are collected on the way.
\<close>

fun rebuild_fields ::
  "json_lib \<Rightarrow> allocator \<Rightarrow> byte list \<Rightarrow> byte list \<Rightarrow>
   (byte list \<Rightarrow> payload_buffer \<Rightarrow> (protocol_error, payload_buffer) exec) option \<Rightarrow>
   payload_buffer \<Rightarrow> bool \<Rightarrow> raw_fields \<Rightarrow> (protocol_error, payload_buffer \<times> raw_fields) exec" where
  "rebuild_fields L A body field rewrite b first [] = Returns (b, [])"
| "rebuild_fields L A body field rewrite b first ((name, span) # fs) =
     bind_exec (write_field_prefix L A b first name)
       (\<lambda>b. let start = pb_len b in
        bind_exec
          (if name = field
           then (case rewrite of
                   None \<Rightarrow> Panics
                 | Some f \<Rightarrow> bind_exec (slice_range body span) (\<lambda>value. f value b))
           else bind_exec (slice_range body span) (put_bytes A b))
          (\<lambda>b'. bind_exec
            (rebuild_fields L A body field (if name = field then None else rewrite) b' False fs)
            (\<lambda>(b'', rewritten). Returns (b'', (name, start, pb_len b') # rewritten))))"

definition rebuild_raw_field ::
  "json_lib \<Rightarrow> allocator \<Rightarrow> byte list \<Rightarrow> raw_fields \<Rightarrow> byte list \<Rightarrow>
   (byte list \<Rightarrow> payload_buffer \<Rightarrow> (protocol_error, payload_buffer) exec) \<Rightarrow>
   (protocol_error, byte list \<times> raw_fields) exec" where
  "rebuild_raw_field L A body fs field rewrite =
     bind_exec (output_buffer A (length body))
       (\<lambda>b. bind_exec (put_bytes A b (bytes_of_string ''{''))
       (\<lambda>b. bind_exec (rebuild_fields L A body field (Some rewrite) b True fs)
       (\<lambda>(b, rewritten). bind_exec (put_bytes A b (bytes_of_string ''}''))
       (\<lambda>b. Returns (fst (freeze b), rewritten)))))"

text \<open>The new body is a new allocation at \<open>addr\<close>.\<close>

definition rewrite_raw_field ::
  "json_lib \<Rightarrow> allocator \<Rightarrow> nat \<Rightarrow> raw_json_payload \<Rightarrow> byte list \<Rightarrow>
   (byte list \<Rightarrow> payload_buffer \<Rightarrow> (protocol_error, payload_buffer) exec) \<Rightarrow>
   (protocol_error, raw_json_payload) exec" where
  "rewrite_raw_field L A addr p field rewrite =
     (if \<not> contains_field (rj_fields p) field then Returns p
      else bind_exec (rebuild_raw_field L A (sl_bytes (rj_body p)) (rj_fields p) field rewrite)
        (\<lambda>(body, fs). Returns \<lparr> rj_body = \<lparr> sl_addr = addr, sl_bytes = body \<rparr>, rj_fields = fs,
           rj_has_duplicate_fields = False \<rparr>))"

section \<open>Scanning\<close>

fun position_from :: "nat \<Rightarrow> 'a \<Rightarrow> 'a list \<Rightarrow> nat option" where
  "position_from i x [] = None"
| "position_from i x (y # ys) = (if y = x then Some i else position_from (i + 1) x ys)"

text \<open>The matches the scanner reports, in order, and whether the text was a complete object.\<close>

definition scan_object_fields ::
  "json_lib \<Rightarrow> slice \<Rightarrow> byte list list \<Rightarrow> (nat \<times> slice) list \<times> bool" where
  "scan_object_fields L json names =
     (let (entries, complete) = jl_scan L names (sl_bytes json)
      in (List.map_filter
            (\<lambda>(name, offset, len).
               map_option (\<lambda>index. (index, sub_slice json offset len)) (position_from 0 name names))
            entries,
          complete))"

definition top_fields :: "json_lib \<Rightarrow> slice \<Rightarrow> byte list list \<Rightarrow> slice option list" where
  "top_fields L json names =
     fold (\<lambda>(index, value) fs. fs[index := Some value])
       (fst (scan_object_fields L json names)) (replicate (length names) None)"

definition object_field_raw :: "json_lib \<Rightarrow> slice \<Rightarrow> byte list \<Rightarrow> slice option" where
  "object_field_raw L bytes name = hd (top_fields L bytes [name])"

definition object_field :: "json_lib \<Rightarrow> slice \<Rightarrow> byte list \<Rightarrow> byte list option" where
  "object_field L bytes name = map_option sl_bytes (object_field_raw L bytes name)"

definition json_string :: "json_lib \<Rightarrow> slice \<Rightarrow> byte list option" where
  "json_string L raw =
     (if take 1 (sl_bytes raw) \<noteq> [34] then None else jl_string L (sl_bytes raw))"

definition raw_array :: "json_lib \<Rightarrow> slice \<Rightarrow> slice list option" where
  "raw_array L bytes =
     (if first_non_whitespace (sl_bytes bytes) \<noteq> Some 91 then None
      else map_option (map (\<lambda>(offset, len). sub_slice bytes offset len)) (jl_array L (sl_bytes bytes)))"

definition raw_string :: "json_lib \<Rightarrow> byte list \<Rightarrow> byte list option" where
  "raw_string L bytes = jl_string L bytes"

definition subslice_range :: "slice \<Rightarrow> slice \<Rightarrow> (nat \<times> nat) option" where
  "subslice_range outer inner =
     (if sl_addr inner < sl_addr outer then None
      else (let offset = sl_addr inner - sl_addr outer
            in case checked_add_usize offset (length (sl_bytes inner)) of
                 None \<Rightarrow> None
               | Some end_offset \<Rightarrow>
                   if end_offset \<le> length (sl_bytes outer) then Some (offset, end_offset) else None))"

section \<open>Splicing\<close>

fun removed_bytes :: "nat \<Rightarrow> (nat \<times> nat) list \<Rightarrow> nat option" where
  "removed_bytes acc [] = Some acc"
| "removed_bytes acc (span # spans) =
     (case checked_add_usize acc (snd span - fst span) of
        None \<Rightarrow> None | Some acc \<Rightarrow> removed_bytes acc spans)"

definition checked_mul_usize :: "nat \<Rightarrow> nat \<Rightarrow> nat option" where
  "checked_mul_usize a b = (if a * b \<le> usize_max then Some (a * b) else None)"

definition spliced_len :: "nat \<Rightarrow> (nat \<times> nat) list \<Rightarrow> nat \<Rightarrow> nat option" where
  "spliced_len source_len spans replacement_len =
     (case removed_bytes 0 spans of
        None \<Rightarrow> None
      | Some removed \<Rightarrow>
          (case checked_mul_usize (length spans) replacement_len of
             None \<Rightarrow> None
           | Some replaced \<Rightarrow>
               if source_len < removed then None else checked_add_usize (source_len - removed) replaced))"

fun splice_loop ::
  "allocator \<Rightarrow> byte list \<Rightarrow> byte list \<Rightarrow> payload_buffer \<Rightarrow> nat \<Rightarrow> (nat \<times> nat) list \<Rightarrow>
   (protocol_error, payload_buffer) exec" where
  "splice_loop A source replacement b cursor [] =
     bind_exec (slice_range source (cursor, length source)) (put_bytes A b)"
| "splice_loop A source replacement b cursor (span # spans) =
     bind_exec (slice_range source (cursor, fst span))
       (\<lambda>kept. bind_exec (put_bytes A b kept)
       (\<lambda>b. bind_exec (put_bytes A b replacement)
       (\<lambda>b. splice_loop A source replacement b (snd span) spans)))"

definition splice_ranges ::
  "allocator \<Rightarrow> byte list \<Rightarrow> (nat \<times> nat) list \<Rightarrow> byte list \<Rightarrow> (protocol_error, byte list) exec" where
  "splice_ranges A source spans replacement =
     (case spliced_len (length source) spans (length replacement) of
        None \<Rightarrow> Fails encode_error
      | Some output_len \<Rightarrow>
          bind_exec (map_err_exec raw_buffer_error (with_capacity_hint A (Some output_len) output_len))
            (\<lambda>b. bind_exec (splice_loop A source replacement b 0 spans)
            (\<lambda>b. Returns (fst (freeze b)))))"

section \<open>Looking up fields\<close>

lemma binary_search_iff:
  assumes "sorted_wrt (<) (map fst xs)" "hi \<le> length xs"
  shows "binary_search xs k lo hi = Some i \<longleftrightarrow> lo \<le> i \<and> i < hi \<and> fst (xs ! i) = k"
  using assms
proof (induction xs k lo hi rule: binary_search.induct)
  case (1 xs k lo hi)
  show ?case
  proof (cases "hi \<le> lo")
    case True
    then show ?thesis by (simp add: binary_search.simps)
  next
    case False
    define mid where "mid = lo + (hi - lo) div 2"
    have mid: "lo \<le> mid" "mid < hi" using False by (auto simp: mid_def)
    have less: "fst (xs ! i) < fst (xs ! j)" if "i < j" "j < hi" for i j
      using 1(3,4) that sorted_wrt_nth_less[of "(<)" "map fst xs" i j] by simp
    have order: "i < mid \<Longrightarrow> fst (xs ! i) < fst (xs ! mid)" "mid < i \<Longrightarrow> i < hi \<Longrightarrow> fst (xs ! mid) < fst (xs ! i)" for i
      using less mid by auto
    consider "fst (xs ! mid) = k" | "fst (xs ! mid) < k" | "k < fst (xs ! mid)" by force
    then show ?thesis
    proof cases
      case 1
      then show ?thesis
        using False mid order by (subst binary_search.simps) (auto simp: mid_def[symmetric] Let_def, metis linorder_neqE_nat less_irrefl)
    next
      case 2
      have "binary_search xs k (mid + 1) hi = Some i \<longleftrightarrow> mid + 1 \<le> i \<and> i < hi \<and> fst (xs ! i) = k"
        using 1(1)[OF False mid_def refl] 2 1(3,4) by simp
      moreover have "\<not> (i \<le> mid \<and> fst (xs ! i) = k)" using 2 order(1)[of i] by (auto simp: le_less)
      ultimately show ?thesis
        using False 2 mid by (subst binary_search.simps) (auto simp: mid_def[symmetric] Let_def)
    next
      case 3
      have "binary_search xs k lo mid = Some i \<longleftrightarrow> lo \<le> i \<and> i < mid \<and> fst (xs ! i) = k"
        using 1(2)[OF False mid_def refl] 3 1(3,4) mid by simp
      moreover have "\<not> (mid \<le> i \<and> i < hi \<and> fst (xs ! i) = k)" using 3 order(2)[of i] by (auto simp: le_less)
      ultimately show ?thesis
        using False 3 mid by (subst binary_search.simps) (auto simp: mid_def[symmetric] Let_def)
    qed
  qed
qed

lemma field_range_map_of:
  assumes "sorted_wrt (<) (map fst fs)"
  shows "field_range fs name = map_of fs name"
proof (cases "binary_search fs name 0 (length fs)")
  case None
  then have "\<forall>i < length fs. fst (fs ! i) \<noteq> name"
    using binary_search_iff[OF assms, of "length fs" name 0] by auto
  then have "map_of fs name = None" by (fastforce simp: map_of_eq_None_iff in_set_conv_nth)
  with None show ?thesis by (simp add: field_range_def)
next
  case (Some i)
  then have i: "i < length fs" "fst (fs ! i) = name"
    using binary_search_iff[OF assms, of "length fs" name 0 i] by auto
  have "distinct (map fst fs)" using assms by (rule strict_sorted_iff[THEN iffD1, THEN conjunct2])
  moreover have "(name, snd (fs ! i)) \<in> set fs" using i by (metis nth_mem prod.collapse)
  ultimately show ?thesis using Some by (simp add: field_range_def)
qed

lemma dedup_fields_fst: "fst ` set (dedup_fields fs) = fst ` set fs"
  by (induction fs rule: dedup_fields.induct) auto

lemma dedup_fields_set: "set (dedup_fields fs) \<subseteq> set fs"
proof (induction fs rule: dedup_fields.induct)
  case (3 earlier later fs)
  show ?case
  proof (cases "fst later = fst earlier")
    case True
    then have "(fst earlier, snd later) = later" by (simp add: prod_eq_iff)
    with True 3(1) show ?thesis by auto
  next
    case False
    with 3(2) show ?thesis by auto
  qed
qed simp_all

lemma dedup_fields_sorted:
  "sorted (map fst fs) \<Longrightarrow> sorted_wrt (<) (map fst (dedup_fields fs))"
proof (induction fs rule: dedup_fields.induct)
  case (3 earlier later fs)
  show ?case
  proof (cases "fst later = fst earlier")
    case True
    with 3 show ?thesis by auto
  next
    case False
    have "fst earlier < fst x" if "x \<in> set (dedup_fields (later # fs))" for x
    proof -
      have "fst x \<in> fst ` set (later # fs)" using that dedup_fields_fst by blast
      with 3(3) False show ?thesis by (auto simp: le_less dest: order_le_less_trans)
    qed
    with False 3 show ?thesis by auto
  qed
qed simp_all

text \<open>The last occurrence wins.\<close>

lemma dedup_fields_map_of:
  "sorted (map fst fs) \<Longrightarrow> map_of (dedup_fields fs) k = map_of (rev fs) k"
proof (induction fs rule: dedup_fields.induct)
  case (3 earlier later fs)
  show ?case
  proof (cases "fst later = fst earlier")
    case True
    then have "(fst earlier, snd later) = later" by (simp add: prod_eq_iff)
    with True 3 show ?thesis by (auto simp: map_add_def split: option.splits)
  next
    case False
    then have "map_of (rev (later # fs)) (fst earlier) = None"
      using 3(3) by (force simp: map_of_eq_None_iff le_less)
    with False 3 show ?thesis by (auto simp: map_add_def split: option.splits)
  qed
qed simp_all

lemma map_of_filter_key: "map_of xs k = map_of (filter (\<lambda>x. fst x = k) xs) k"
  by (induction xs) auto

lemma sort_key_map_of_rev: "map_of (rev (sort_key fst xs)) k = map_of (rev xs) k"
proof -
  have "filter (\<lambda>x. fst x = k) (rev (sort_key fst xs)) = filter (\<lambda>x. fst x = k) (rev xs)"
    using sort_key_stable[of fst k xs] by (simp add: rev_filter[symmetric])
  then show ?thesis using map_of_filter_key by metis
qed

section \<open>Well-formed payloads\<close>

definition payload_ok :: "raw_json_payload \<Rightarrow> bool" where
  "payload_ok p \<longleftrightarrow>
     sorted_wrt (<) (map fst (rj_fields p)) \<and>
     (\<forall>(name, a, e) \<in> set (rj_fields p). a \<le> e \<and> e \<le> length (sl_bytes (rj_body p)))"

text \<open>Where the values of the entries of an object lie.\<close>

definition entry_spans :: "(byte list \<times> nat \<times> nat) list \<Rightarrow> raw_fields" where
  "entry_spans entries = map (\<lambda>(name, offset, len). (name, offset, offset + len)) entries"

lemma entries_in_order_bound:
  "entries_in_order lo len entries \<Longrightarrow> (name, offset, n) \<in> set entries \<Longrightarrow> lo \<le> offset \<and> offset + n \<le> len"
  by (induction lo len entries rule: entries_in_order.induct) fastforce+

lemma visit_map_in_order:
  assumes "entries_in_order lo len entries" "base + len \<le> usize_max"
  shows "visit_map base (base + len) (map (\<lambda>(name, offset, n). (name, base + offset, n)) entries) =
    Some (entry_spans entries)"
  using assms
  by (induction lo len entries rule: entries_in_order.induct)
    (auto simp: entry_spans_def saturating_add_usize_def Let_def)

lemma raw_object_fields_eq:
  assumes "json_lib_ok L" "sl_addr body + length (sl_bytes body) \<le> usize_max"
  shows "raw_object_fields L body =
    (if snd (jl_object L (sl_bytes body)) then Some (entry_spans (fst (jl_object L (sl_bytes body)))) else None)"
proof -
  have "entries_in_order 0 (length (sl_bytes body)) (fst (jl_object L (sl_bytes body)))"
    using assms(1) by (simp add: json_lib_ok_def)
  from visit_map_in_order[OF this assms(2)] assms(2) show ?thesis
    by (simp add: raw_object_fields_def split_def Let_def saturating_add_usize_def)
qed

lemma raw_json_parse_ok:
  assumes L: "json_lib_ok L" and addr: "sl_addr body + length (sl_bytes body) \<le> usize_max"
    and eq: "raw_json_parse L body = Inr p"
  shows "payload_ok p" "rj_body p = body" "snd (jl_object L (sl_bytes body))"
    "field_range (rj_fields p) name = map_of (rev (entry_spans (fst (jl_object L (sl_bytes body))))) name"
proof -
  define es where "es = entry_spans (fst (jl_object L (sl_bytes body)))"
  from eq have p: "rj_body p = body" "rj_fields p = dedup_fields (sort_key fst es)"
    "snd (jl_object L (sl_bytes body))"
    by (auto simp: raw_json_parse_def raw_object_fields_eq[OF L addr] es_def Let_def split: if_splits)
  show "rj_body p = body" "snd (jl_object L (sl_bytes body))" by fact+
  have s: "sorted_wrt (<) (map fst (rj_fields p))"
    unfolding p(2) by (rule dedup_fields_sorted) (rule sorted_sort_key)
  moreover have "(n, a, e) \<in> set es \<Longrightarrow> a \<le> e \<and> e \<le> length (sl_bytes body)" for n a e
    using L by (auto simp: es_def entry_spans_def json_lib_ok_def dest!: entries_in_order_bound)
  moreover have "set (rj_fields p) \<subseteq> set es" unfolding p(2) using dedup_fields_set by fastforce
  ultimately show "payload_ok p" using p(1) by (auto simp: payload_ok_def)
  show "field_range (rj_fields p) name = map_of (rev (entry_spans (fst (jl_object L (sl_bytes body))))) name"
    unfolding field_range_map_of[OF s] unfolding p(2)
    by (simp add: dedup_fields_map_of sort_key_map_of_rev es_def)
qed

lemma payload_ok_span:
  assumes "payload_ok p" "field_range (rj_fields p) name = Some (a, e)"
  shows "a \<le> e" "e \<le> length (sl_bytes (rj_body p))"
  using assms field_range_map_of[of "rj_fields p" name] map_of_SomeD[of "rj_fields p" name]
  by (auto simp: payload_ok_def)

text \<open>The value of a field.\<close>

definition payload_value :: "raw_json_payload \<Rightarrow> byte list \<Rightarrow> byte list option" where
  "payload_value p name =
     map_option (\<lambda>(a, e). take (e - a) (drop a (sl_bytes (rj_body p)))) (field_range (rj_fields p) name)"

lemma raw_field_returns:
  assumes "payload_ok p"
  shows "raw_field p name = Returns (payload_value p name)"
  using payload_ok_span[OF assms, of name]
  by (auto simp: raw_field_def payload_value_def slice_range_def split: option.splits)

lemma slice_range_ok:
  "a \<le> e \<Longrightarrow> e \<le> length bytes \<Longrightarrow> slice_range bytes (a, e) = Returns (take (e - a) (drop a bytes))"
  by (simp add: slice_range_def)

section \<open>Sequences of writes\<close>

text \<open>Everything the code writes is a sequence of appends that stops at the first failure.\<close>

definition puts ::
  "(payload_buffer_error \<Rightarrow> protocol_error) \<Rightarrow> allocator \<Rightarrow> payload_buffer \<Rightarrow> byte list list \<Rightarrow>
   (protocol_error, payload_buffer) exec" where
  "puts err A b pieces = map_err_exec err (append_pieces (extend_from_slice A) b pieces)"

lemma bind_exec_assoc: "bind_exec (bind_exec r f) g = bind_exec r (\<lambda>x. bind_exec (f x) g)"
  by (cases r) auto

lemma bind_exec_Returns [simp]: "bind_exec r Returns = r"
  by (cases r) auto

lemma map_err_bind: "map_err_exec h (bind_exec r f) = bind_exec (map_err_exec h r) (\<lambda>x. map_err_exec h (f x))"
  by (cases r) auto

lemma puts_simps [simp]:
  "puts err A b [] = Returns b"
  "puts err A b (p # ps) = bind_exec (put_with err A b p) (\<lambda>b. puts err A b ps)"
  by (simp_all add: puts_def put_with_def map_err_bind)

lemma puts_append: "puts err A b (ps @ qs) = bind_exec (puts err A b ps) (\<lambda>b. puts err A b qs)"
  by (induction ps arbitrary: b) (simp_all add: bind_exec_assoc)

lemma put_json_string_puts: "put_json_string L A b text = puts raw_buffer_error A b (jl_quote L text)"
  by (simp add: put_json_string_def puts_def)

lemma puts_total:
  assumes "allocator_ok A" "allocator_total A" "pb_inv b"
    and "length (as_slice b) + length (concat pieces) \<le> pb_max_len b"
  obtains b' where "puts err A b pieces = Returns b'" "pb_inv b'" "as_slice b' = as_slice b @ concat pieces"
    "pb_max_len b' = pb_max_len b"
  using pbuf.append_pieces_total[OF assms] by (auto simp: puts_def)

text \<open>Writing into a fresh buffer and freezing it.\<close>

lemma fresh_buffer:
  assumes "allocator_total A" "allocator_ok A" "max_len \<le> usize_max"
  obtains b where "with_capacity_hint A hint max_len = Returns b" "pb_inv b" "as_slice b = []"
    "pb_max_len b = max_len"
proof -
  have "\<exists>s. allocate_storage A n = Returns s" for n
  proof -
    obtain c m where "vec_try_reserve_exact A n = Some c" "mmap_anon A n = Some m"
      using assms(1) unfolding allocator_total_def by blast
    then show ?thesis by (simp add: allocate_storage_def)
  qed
  then have "\<exists>b. with_capacity_hint A hint max_len = Returns b"
    by (simp add: with_capacity_hint_def Let_def bind_exec_Returns_iff)
  with with_capacity_hint_ok[OF assms(2,3), of hint] that show ?thesis by blast
qed

lemma fresh_puts_then:
  assumes "allocator_total A" "allocator_ok A" "length (concat pieces) \<le> max_len" "max_len \<le> usize_max"
  shows "bind_exec (map_err_exec err (with_capacity_hint A hint max_len))
    (\<lambda>b. bind_exec (puts err A b pieces) (\<lambda>b. k (fst (freeze b)))) = k (concat pieces)"
proof -
  obtain b where b: "with_capacity_hint A hint max_len = Returns b" "pb_inv b" "as_slice b = []"
    "pb_max_len b = max_len" using fresh_buffer[OF assms(1,2,4)] by blast
  obtain b' where "puts err A b pieces = Returns b'" "pb_inv b'" "as_slice b' = concat pieces"
    using puts_total[OF assms(2,1) b(2), of pieces] assms(3) b by auto
  with b show ?thesis by (simp add: freeze_bytes)
qed

lemmas fresh_puts = fresh_puts_then[where k = Returns]

section \<open>Encoding\<close>

text \<open>The object a payload is forwarded as: its members in the order of their names, separated by
  commas, the model replaced and a stream flag left out where the operation has none.\<close>

definition member ::
  "json_lib \<Rightarrow> byte list \<Rightarrow> byte list \<Rightarrow> byte list \<times> nat \<times> nat \<Rightarrow> byte list" where
  "member L upstream_model body field =
     concat (jl_quote L (fst field)) @ bytes_of_string '':'' @
     (if fst field = bytes_of_string ''model'' then concat (jl_quote L upstream_model)
      else take (snd (snd field) - fst (snd field)) (drop (fst (snd field)) body))"

definition forwarded :: "protocol_operation \<Rightarrow> raw_fields \<Rightarrow> raw_fields" where
  "forwarded operation fs =
     filter (\<lambda>field. fst field \<noteq> bytes_of_string ''stream'' \<or> allows_stream operation) fs"

fun join_with :: "byte list \<Rightarrow> byte list list \<Rightarrow> byte list" where
  "join_with separator [] = []"
| "join_with separator [x] = x"
| "join_with separator (x # y # ys) = x @ separator @ join_with separator (y # ys)"

definition rendered ::
  "json_lib \<Rightarrow> protocol_operation \<Rightarrow> byte list \<Rightarrow> byte list \<Rightarrow> raw_fields \<Rightarrow> byte list" where
  "rendered L operation upstream_model body fs =
     bytes_of_string ''{'' @
     join_with (bytes_of_string '','') (map (member L upstream_model body) (forwarded operation fs)) @
     bytes_of_string ''}''"

fun field_pieces ::
  "json_lib \<Rightarrow> protocol_operation \<Rightarrow> byte list \<Rightarrow> byte list \<Rightarrow> bool \<Rightarrow> raw_fields \<Rightarrow> byte list list" where
  "field_pieces L operation upstream_model body first [] = []"
| "field_pieces L operation upstream_model body first ((name, span) # fs) =
     (if name = bytes_of_string ''stream'' \<and> \<not> allows_stream operation
      then field_pieces L operation upstream_model body first fs
      else (if first then [] else [bytes_of_string '','']) @ jl_quote L name @ [bytes_of_string '':''] @
        (if name = bytes_of_string ''model'' then jl_quote L upstream_model
         else [take (snd span - fst span) (drop (fst span) body)]) @
        field_pieces L operation upstream_model body False fs)"

lemma write_field_prefix_puts:
  "write_field_prefix L A b first name =
     puts raw_buffer_error A b ((if first then [] else [bytes_of_string '','']) @ jl_quote L name @ [bytes_of_string '':''])"
  by (simp add: write_field_prefix_def put_json_string_puts puts_append)

lemma encode_fields_puts:
  assumes "\<forall>(name, a, e) \<in> set fs. a \<le> e \<and> e \<le> length body"
  shows "encode_fields L A operation upstream_model body b first fs =
    puts raw_buffer_error A b (field_pieces L operation upstream_model body first fs)"
  using assms
proof (induction fs arbitrary: b first)
  case (Cons field fs)
  obtain name a e where f: "field = (name, a, e)" using prod_cases3 by blast
  with Cons show ?case
    by (simp add: slice_range_ok write_field_prefix_puts put_json_string_puts puts_append bind_exec_assoc)
qed simp

lemma field_pieces_concat:
  "concat (field_pieces L operation upstream_model body first fs) =
     (if first \<or> forwarded operation fs = [] then [] else bytes_of_string '','') @
     join_with (bytes_of_string '','') (map (member L upstream_model body) (forwarded operation fs))"
proof (induction fs arbitrary: first)
  case (Cons field fs)
  obtain name span where f: "field = (name, span)" by (cases field)
  show ?case
  proof (cases "forwarded operation fs")
    case Nil
    with Cons f show ?thesis by (auto simp: forwarded_def member_def)
  next
    case (Cons x xs)
    with Cons.IH f show ?thesis by (auto simp: forwarded_def member_def)
  qed
qed (simp add: forwarded_def)

lemma raw_json_encode_exact:
  assumes A: "allocator_ok A" "allocator_total A" and p: "payload_ok p"
    and model: "map_option (jl_string L) (payload_value p (bytes_of_string ''model'')) \<noteq> Some None"
    and fits: "length (rendered L operation upstream_model (sl_bytes (rj_body p)) (rj_fields p)) \<le> usize_max"
  shows "raw_json_encode L A p operation upstream_model = Returns
    (if map_option (jl_string L) (payload_value p (bytes_of_string ''model'')) = Some (Some upstream_model) \<and> \<not> rj_has_duplicate_fields p \<and>
        (allows_stream operation \<or> \<not> contains_field (rj_fields p) (bytes_of_string ''stream''))
     then sl_bytes (rj_body p)
     else rendered L operation upstream_model (sl_bytes (rj_body p)) (rj_fields p))"
proof -
  let ?body = "sl_bytes (rj_body p)"
  let ?pieces = "[bytes_of_string ''{''] @ field_pieces L operation upstream_model ?body True (rj_fields p) @
    [bytes_of_string ''}'']"
  have concat: "concat ?pieces = rendered L operation upstream_model ?body (rj_fields p)"
    by (simp add: rendered_def field_pieces_concat)
  have len: "length (concat ?pieces) \<le> usize_max" unfolding concat by (rule fits)
  have "bind_exec (output_buffer A n) (\<lambda>b. bind_exec (put_bytes A b (bytes_of_string ''{''))
      (\<lambda>b. bind_exec (encode_fields L A operation upstream_model ?body b True (rj_fields p))
      (\<lambda>b. bind_exec (put_bytes A b (bytes_of_string ''}'')) (\<lambda>b. Returns (fst (freeze b)))))) =
    Returns (rendered L operation upstream_model ?body (rj_fields p))" for n
    using fresh_puts[OF A(2,1) len order_refl, of raw_buffer_error "Some n", unfolded concat] p
    by (simp add: output_buffer_def encode_fields_puts payload_ok_def puts_append bind_exec_assoc)
  with model show ?thesis
    by (auto simp: raw_json_encode_def parse_string_field_def raw_field_returns[OF p] Let_def
        split: option.splits)
qed

section \<open>Splicing is exact\<close>

text \<open>
  A text cut into segments that are kept and segments that are removed, and where the latter lie.
\<close>

fun segment_spans :: "nat \<Rightarrow> (byte list \<times> byte list) list \<Rightarrow> (nat \<times> nat) list" where
  "segment_spans offset [] = []"
| "segment_spans offset ((kept, removed) # segments) =
     (offset + length kept, offset + length kept + length removed) #
     segment_spans (offset + length kept + length removed) segments"

definition segments_text :: "(byte list \<times> byte list) list \<Rightarrow> byte list \<Rightarrow> byte list" where
  "segments_text segments rest = concat (map (\<lambda>(kept, removed). kept @ removed) segments) @ rest"

definition segments_replaced :: "(byte list \<times> byte list) list \<Rightarrow> byte list \<Rightarrow> byte list \<Rightarrow> byte list" where
  "segments_replaced segments replacement rest =
     concat (map (\<lambda>(kept, removed). kept @ replacement) segments) @ rest"

lemma removed_bytes_segments:
  "acc + length (concat (map snd segments)) \<le> usize_max \<Longrightarrow>
     removed_bytes acc (segment_spans offset segments) = Some (acc + length (concat (map snd segments)))"
  by (induction segments arbitrary: acc offset) (auto simp: checked_add_usize_def)

lemma length_segment_spans: "length (segment_spans offset segments) = length segments"
  by (induction segments arbitrary: offset) auto

lemma segments_length:
  "length (segments_text segments rest) =
     length (concat (map fst segments)) + length (concat (map snd segments)) + length rest"
  "length (segments_replaced segments replacement rest) =
     length (concat (map fst segments)) + length segments * length replacement + length rest"
  by (induction segments) (auto simp: segments_text_def segments_replaced_def)

lemma spliced_len_segments:
  assumes "length (segments_text segments rest) \<le> usize_max"
    and "length (segments_replaced segments replacement rest) \<le> usize_max"
  shows "spliced_len (length (segments_text segments rest)) (segment_spans 0 segments) (length replacement) =
    Some (length (segments_replaced segments replacement rest))"
  using assms removed_bytes_segments[of 0 segments 0]
  by (simp add: spliced_len_def segments_length checked_mul_usize_def checked_add_usize_def length_segment_spans)

lemma splice_loop_puts:
  assumes "source = before @ segments_text segments rest"
  shows "splice_loop A source replacement b (length before) (segment_spans (length before) segments) =
    puts raw_buffer_error A b (concat (map (\<lambda>(kept, removed). [kept, replacement]) segments) @ [rest])"
  using assms
proof (induction segments arbitrary: before b)
  case Nil
  then show ?case by (simp add: segments_text_def slice_range_def)
next
  case (Cons segment segments)
  obtain kept removed where s: "segment = (kept, removed)" by fastforce
  have src: "source = (before @ kept @ removed) @ segments_text segments rest"
    using Cons.prems s by (simp add: segments_text_def)
  have "length before + length kept \<le> length source" "take (length kept) (drop (length before) source) = kept"
    using src by simp_all
  then show ?case
    using Cons.IH[OF src] s by (simp add: slice_range_ok add.assoc)
qed

lemma splice_ranges_segments:
  assumes A: "allocator_ok A" "allocator_total A"
    and "length (segments_text segments rest) \<le> usize_max"
    and fits: "length (segments_replaced segments replacement rest) \<le> usize_max"
  shows "splice_ranges A (segments_text segments rest) (segment_spans 0 segments) replacement =
    Returns (segments_replaced segments replacement rest)"
proof -
  let ?pieces = "concat (map (\<lambda>(kept, removed). [kept, replacement]) segments) @ [rest]"
  have "concat (concat (map (\<lambda>(kept, removed). [kept, replacement]) xs)) =
      concat (map (\<lambda>(kept, removed). kept @ replacement) xs)" for xs :: "(byte list \<times> byte list) list"
    by (induction xs) auto
  then have concat: "concat ?pieces = segments_replaced segments replacement rest"
    by (simp add: segments_replaced_def)
  have loop: "splice_loop A (segments_text segments rest) replacement b 0 (segment_spans 0 segments) =
      puts raw_buffer_error A b ?pieces" for b
    using splice_loop_puts[of "segments_text segments rest" "[]" segments rest A replacement b] by simp
  show ?thesis
    using spliced_len_segments[OF assms(3,4)] fresh_puts[OF A(2,1) _ fits, of ?pieces, unfolded concat]
    by (simp add: splice_ranges_def loop)
qed

section \<open>Rewriting one field\<close>

definition rewritten_value ::
  "byte list \<Rightarrow> byte list \<Rightarrow> (byte list \<Rightarrow> byte list list) \<Rightarrow> byte list \<times> nat \<times> nat \<Rightarrow> byte list list" where
  "rewritten_value body field g entry =
     (let old = take (snd (snd entry) - fst (snd entry)) (drop (fst (snd entry)) body)
      in if fst entry = field then g old else [old])"

fun rebuild_pieces ::
  "json_lib \<Rightarrow> byte list \<Rightarrow> byte list \<Rightarrow> (byte list \<Rightarrow> byte list list) \<Rightarrow> bool \<Rightarrow> raw_fields \<Rightarrow> byte list list" where
  "rebuild_pieces L body field g first [] = []"
| "rebuild_pieces L body field g first (entry # fs) =
     ((if first then [] else [bytes_of_string '','']) @ jl_quote L (fst entry) @ [bytes_of_string '':'']) @
     rewritten_value body field g entry @ rebuild_pieces L body field g False fs"

definition same_value ::
  "byte list \<Rightarrow> byte list \<Rightarrow> (byte list \<Rightarrow> byte list list) \<Rightarrow> byte list \<Rightarrow>
   byte list \<times> nat \<times> nat \<Rightarrow> byte list \<times> nat \<times> nat \<Rightarrow> bool" where
  "same_value body field g text entry entry' \<longleftrightarrow>
     fst entry' = fst entry \<and> fst (snd entry') \<le> snd (snd entry') \<and> snd (snd entry') \<le> length text \<and>
     take (snd (snd entry') - fst (snd entry')) (drop (fst (snd entry')) text) =
       concat (rewritten_value body field g entry)"

lemma rebuild_fields_correct:
  assumes A: "allocator_ok A" "allocator_total A" and f: "\<And>v b. f v b = puts raw_buffer_error A b (g v)"
    and "pb_inv b" "\<forall>(name, a, e) \<in> set fs. a \<le> e \<and> e \<le> length body" "distinct (map fst fs)"
    and "field \<in> fst ` set fs \<longrightarrow> rewrite = Some f"
    and "length (as_slice b) + length (concat (rebuild_pieces L body field g first fs)) \<le> pb_max_len b"
  shows "\<exists>b' rw. rebuild_fields L A body field rewrite b first fs = Returns (b', rw) \<and> pb_inv b' \<and>
    as_slice b' = as_slice b @ concat (rebuild_pieces L body field g first fs) \<and>
    pb_max_len b' = pb_max_len b \<and>
    (\<forall>rest. list_all2 (same_value body field g (as_slice b' @ rest)) fs rw)"
  using assms(4-)
proof (induction fs arbitrary: b first rewrite)
  case Nil
  then show ?case by simp
next
  case (Cons entry fs)
  obtain name a e where n: "entry = (name, a, e)" using prod_cases3 by blast
  let ?prefix = "(if first then [] else [bytes_of_string '','']) @ jl_quote L name @ [bytes_of_string '':'']"
  let ?new_value = "rewritten_value body field g entry"
  obtain b1 where b1: "puts raw_buffer_error A b ?prefix = Returns b1" "pb_inv b1" "as_slice b1 = as_slice b @ concat ?prefix"
    "pb_max_len b1 = pb_max_len b"
    using puts_total[where err = raw_buffer_error, OF A Cons.prems(1), of ?prefix] Cons.prems(5) n by auto
  obtain b2 where b2: "puts raw_buffer_error A b1 ?new_value = Returns b2" "pb_inv b2" "as_slice b2 = as_slice b1 @ concat ?new_value"
    "pb_max_len b2 = pb_max_len b1"
    using puts_total[where err = raw_buffer_error, OF A b1(2), of ?new_value] Cons.prems(5) n b1(3,4) by auto
  have val: "(if name = field
       then (case rewrite of None \<Rightarrow> Panics | Some f \<Rightarrow> bind_exec (slice_range body (a, e)) (\<lambda>v. f v b1))
       else bind_exec (slice_range body (a, e)) (put_bytes A b1)) = Returns b2"
    using b2(1) Cons.prems(2,4) n f by (auto simp: slice_range_ok rewritten_value_def Let_def split: if_splits)
  have len: "length (as_slice b2) + length (concat (rebuild_pieces L body field g False fs)) \<le> pb_max_len b2"
    using Cons.prems(5) b1(3,4) b2(3,4) n by auto
  have rw: "field \<in> fst ` set fs \<longrightarrow> (if name = field then None else rewrite) = Some f"
    using Cons.prems(3,4) n by auto
  obtain b3 rw where b3: "rebuild_fields L A body field (if name = field then None else rewrite) b2 False fs =
      Returns (b3, rw)" "pb_inv b3" "as_slice b3 = as_slice b2 @ concat (rebuild_pieces L body field g False fs)"
    "pb_max_len b3 = pb_max_len b2" "\<forall>rest. list_all2 (same_value body field g (as_slice b3 @ rest)) fs rw"
    using Cons.IH[OF b2(2) _ _ rw len] Cons.prems(2,3) by auto
  have "same_value body field g (as_slice b3 @ rest) entry (name, pb_len b1, pb_len b2)" for rest
    using length_as_slice[OF b1(2)] length_as_slice[OF b2(2)] b2(3) b3(3) n
    by (simp add: same_value_def flip: length_as_slice[OF b1(2)] length_as_slice[OF b2(2)])
  then show ?case
    using b1 b2 b3 val n
    by (simp add: write_field_prefix_puts Let_def del: puts_append)
qed

lemma list_all2_same_value_map_of:
  assumes "list_all2 (same_value body field g text) fs rw"
  shows "map fst rw = map fst fs"
    "map_option (\<lambda>(a, e). take (e - a) (drop a text)) (map_of rw name) =
       map_option (\<lambda>span. concat (rewritten_value body field g (name, span))) (map_of fs name)"
    "\<forall>(name, a, e) \<in> set rw. a \<le> e \<and> e \<le> length text"
  using assms
  by (induction rule: list_all2_induct) (auto simp: same_value_def split: if_splits)

lemma rewrite_raw_field_correct:
  assumes A: "allocator_ok A" "allocator_total A" and f: "\<And>v b. f v b = puts raw_buffer_error A b (g v)"
    and p: "payload_ok p"
    and fits: "length (concat (rebuild_pieces L (sl_bytes (rj_body p)) field g True (rj_fields p))) + 2 \<le> usize_max"
  shows "\<exists>p'. rewrite_raw_field L A addr p field f = Returns p' \<and> payload_ok p' \<and>
    (\<forall>name. payload_value p' name =
       (if name = field then map_option (\<lambda>v. concat (g v)) (payload_value p name) else payload_value p name))"
proof (cases "contains_field (rj_fields p) field")
  case False
  then have "field_range (rj_fields p) field = None" unfolding contains_field_def by blast
  then have "payload_value p field = None" by (auto simp: contains_field_def payload_value_def)
  with False p show ?thesis by (simp add: rewrite_raw_field_def)
next
  case True
  let ?body = "sl_bytes (rj_body p)"
  let ?pieces = "rebuild_pieces L ?body field g True (rj_fields p)"
  have sorted: "sorted_wrt (<) (map fst (rj_fields p))" and spans:
    "\<forall>(name, a, e) \<in> set (rj_fields p). a \<le> e \<and> e \<le> length ?body"
    using p by (auto simp: payload_ok_def)
  obtain b0 where b0: "with_capacity_hint A (Some (length ?body)) usize_max = Returns b0" "pb_inv b0"
    "as_slice b0 = []" "pb_max_len b0 = usize_max" using fresh_buffer[OF A(2,1) order_refl] by blast
  obtain b1 where b1: "put_bytes A b0 (bytes_of_string ''{'') = Returns b1" "pb_inv b1"
    "as_slice b1 = bytes_of_string ''{''" "pb_max_len b1 = usize_max"
    using puts_total[where err = raw_buffer_error, OF A b0(2), of "[bytes_of_string ''{'']"] b0 fits by (auto simp: bytes_of_string_def)
  obtain b2 rw where b2: "rebuild_fields L A ?body field (Some f) b1 True (rj_fields p) = Returns (b2, rw)" "pb_inv b2"
    "as_slice b2 = as_slice b1 @ concat ?pieces" "pb_max_len b2 = usize_max"
    "\<forall>rest. list_all2 (same_value ?body field g (as_slice b2 @ rest)) (rj_fields p) rw"
    using rebuild_fields_correct[where f = f and g = g and field = field and rewrite = "Some f" and L = L
        and first = True, OF A f b1(2) spans] sorted b1 fits
    by (auto simp: strict_sorted_iff bytes_of_string_def)
  obtain b3 where b3: "put_bytes A b2 (bytes_of_string ''}'') = Returns b3" "pb_inv b3"
    "as_slice b3 = as_slice b2 @ bytes_of_string ''}''"
    using puts_total[where err = raw_buffer_error, OF A b2(2), of "[bytes_of_string ''}'']"] b1 b2 fits by (auto simp: bytes_of_string_def)
  define p' where "p' = \<lparr> rj_body = \<lparr> sl_addr = addr, sl_bytes = as_slice b3 \<rparr>, rj_fields = rw,
    rj_has_duplicate_fields = False \<rparr>"
  have "rewrite_raw_field L A addr p field f = Returns p'"
    using True b0 b1 b2 b3 by (simp add: rewrite_raw_field_def rebuild_raw_field_def output_buffer_def p'_def freeze_bytes)
  moreover have rw: "list_all2 (same_value ?body field g (as_slice b3)) (rj_fields p) rw"
    using b2(5) b3(3) by simp
  note rw' = list_all2_same_value_map_of[OF rw]
  have ok: "payload_ok p'" using rw'(1,3) sorted by (simp add: p'_def payload_ok_def)
  moreover have "payload_value p' name =
      (if name = field then map_option (\<lambda>v. concat (g v)) (payload_value p name) else payload_value p name)" for name
  proof -
    have "sorted_wrt (<) (map fst rw)" using rw'(1) sorted by simp
    then show ?thesis
      using rw'(2)[of name] by (auto simp: payload_value_def p'_def field_range_map_of sorted rewritten_value_def
          Let_def map_option_case split: option.splits prod.splits)
  qed
  ultimately show ?thesis by blast
qed

section \<open>Scanning\<close>

text \<open>\<open>object_field_raw\<close> answers with the last value the parser delivered under the name, whether or
  not the text after it is well-formed.\<close>

lemma object_field_raw_last:
  "object_field_raw L json name =
     map_option (\<lambda>(a, e). sub_slice json a (e - a))
       (map_of (rev (entry_spans (fst (jl_scan L [name] (sl_bytes json))))) name)"
proof -
  have "fold (\<lambda>(index, value) fs. fs[index := Some value])
      (List.map_filter (\<lambda>(n, offset, len).
         map_option (\<lambda>index. (index, sub_slice json offset len)) (position_from 0 n [name])) entries) [v] =
    [case map_of (rev (entry_spans entries)) name of
       None \<Rightarrow> v | Some (a, e) \<Rightarrow> Some (sub_slice json a (e - a))]" for entries v
  proof (induction entries arbitrary: v)
    case Nil
    then show ?case by (simp add: map_filter_def entry_spans_def)
  next
    case (Cons x xs)
    then show ?case
      by (cases x) (auto simp: List.map_filter_simps entry_spans_def map_add_def split: option.splits)
  qed
  from this[of "fst (jl_scan L [name] (sl_bytes json))" None] show ?thesis
    by (auto simp: object_field_raw_def top_fields_def scan_object_fields_def split_def Let_def
        split: option.splits)
qed

text \<open>Borrowed values are recognised as parts of the text they come from, and only those.\<close>

lemma subslice_range_sub_slice:
  assumes "offset + n \<le> length (sl_bytes s)" "length (sl_bytes s) \<le> usize_max"
  shows "subslice_range s (sub_slice s offset n) = Some (offset, offset + n)"
proof -
  have "length (take n (drop offset (sl_bytes s))) = n" using assms(1) by simp
  with assms show ?thesis
    by (simp add: subslice_range_def sub_slice_def checked_add_usize_def del: length_take)
qed

lemma subslice_range_disjoint:
  assumes "sl_addr inner + length (sl_bytes inner) \<le> sl_addr outer \<or>
      sl_addr outer + length (sl_bytes outer) \<le> sl_addr inner" "sl_bytes inner \<noteq> []"
  shows "subslice_range outer inner = None"
proof -
  obtain n where "length (sl_bytes inner) = Suc n" using assms(2) by (cases "sl_bytes inner") auto
  with assms(1) show ?thesis by (auto simp: subslice_range_def checked_add_usize_def Let_def)
qed

section \<open>Properties\<close>

text \<open>A parser that knows one text, for closed examples: the object with the members \<open>a: 49\<close>,
  \<open>model: 120\<close> and again \<open>a: 50\<close>, whose values lie at the positions 2, 4 and 6.\<close>

definition sample_text :: "byte list" where
  "sample_text = [123, 97, 49, 109, 120, 97, 50, 125]"

definition sample_json :: json_lib where
  "sample_json =
     \<lparr> jl_object = (\<lambda>text. if text = sample_text
          then ([([97], 2, 1), (bytes_of_string ''model'', 4, 1), ([97], 6, 1)], True) else ([], False)),
       jl_scan = (\<lambda>names text. if text = sample_text then ([([97], 2, 1)], True) else ([], False)),
       jl_valid = (\<lambda>text. text = sample_text), jl_string = Some, jl_array = (\<lambda>text. None),
       jl_quote = (\<lambda>text. [[34], text, [34]]) \<rparr>"

definition sample_body :: slice where
  "sample_body = \<lparr> sl_addr = 100, sl_bytes = sample_text \<rparr>"

definition sample_payload :: raw_json_payload where
  "sample_payload = \<lparr> rj_body = sample_body, rj_fields = [([97], 6, 7), (bytes_of_string ''model'', 4, 5)],
     rj_has_duplicate_fields = True \<rparr>"

lemmas sample_defs = sample_text_def sample_json_def sample_body_def sample_payload_def bytes_of_string_def

lemma sample_json_ok: "json_lib_ok sample_json"
  by (auto simp: json_lib_ok_def sample_json_def sample_text_def)

lemma sample_parse: "raw_json_parse sample_json sample_body = Inr sample_payload"
  by (simp add: raw_json_parse_def raw_object_fields_def first_non_whitespace_def is_ascii_whitespace_def
      sample_defs usize_max_def saturating_add_usize_def Let_def)

lemma sample_payload_ok: "payload_ok sample_payload"
  by (simp add: payload_ok_def sample_defs)

lemma sample_value:
  "payload_value sample_payload [97] = Some [50]"
  "payload_value sample_payload (bytes_of_string ''model'') = Some [120]"
  by (simp_all add: payload_value_def field_range_map_of sample_defs)

text \<open>C40. A request body that parses is a well-formed payload: its field table is strictly sorted by name,
  every span of it lies in the body, and looking a field up by binary search never panics and returns the text
  of the last occurrence of that name in the object, or nothing when the object has no such name.\<close>

theorem raw_payload_well_formed:
  fixes L :: json_lib
  assumes "json_lib_ok L" "sl_addr body + length (sl_bytes body) \<le> usize_max"
    and "raw_json_parse L body = Inr p"
  shows "payload_ok p \<and> rj_body p = body \<and>
    raw_field p name = (Returns (map_option (\<lambda>(a, e). take (e - a) (drop a (sl_bytes body)))
      (map_of (rev (entry_spans (fst (jl_object L (sl_bytes body))))) name)) :: (protocol_error, byte list option) exec)"
  using raw_json_parse_ok[OF assms] raw_field_returns[of p name]
  by (simp add: payload_value_def)

theorem raw_payload_well_formed_witness:
  "payload_ok sample_payload \<and>
   raw_field sample_payload [97] = (Returns (Some [50]) :: (protocol_error, byte list option) exec) \<and>
   raw_field sample_payload [98] = (Returns None :: (protocol_error, byte list option) exec)"
  using raw_payload_well_formed[OF sample_json_ok _ sample_parse, of "[97]"]
    raw_payload_well_formed[OF sample_json_ok _ sample_parse, of "[98]"]
  by (simp add: sample_defs entry_spans_def usize_max_def)

text \<open>C16. Encoding a payload for an upstream keeps the body untouched exactly when the model already is the
  upstream's, no field is duplicated and no forbidden \<open>stream\<close> field has to go. Otherwise the result is the object
  with every remaining field once, in order of their names, each value byte for byte the original except the
  value of \<open>model\<close>, which is the upstream model quoted.\<close>

theorem raw_forward_exact:
  assumes "allocator_ok A" "allocator_total A" "payload_ok p"
    and "payload_value p (bytes_of_string ''model'') = Some text" "jl_string L text = Some model"
    and "length (rendered L operation upstream_model (sl_bytes (rj_body p)) (rj_fields p)) \<le> usize_max"
  shows "raw_json_encode L A p operation upstream_model = Returns
    (if model = upstream_model \<and> \<not> rj_has_duplicate_fields p \<and>
        (allows_stream operation \<or> \<not> contains_field (rj_fields p) (bytes_of_string ''stream''))
     then sl_bytes (rj_body p)
     else rendered L operation upstream_model (sl_bytes (rj_body p)) (rj_fields p))"
  using raw_json_encode_exact[OF assms(1-3) _ assms(6)] assms(4,5) by simp

theorem raw_forward_exact_witness:
  "raw_json_encode sample_json exact_allocator sample_payload PO_Responses [120] =
   Returns (bytes_of_string ''{'' @ [34, 97, 34] @ bytes_of_string '':'' @ [50] @ bytes_of_string '','' @
     [34] @ bytes_of_string ''model'' @ [34] @ bytes_of_string '':'' @ [34, 120, 34] @ bytes_of_string ''}'')"
  using raw_forward_exact[OF exact_allocator_ok sample_payload_ok sample_value(2), of sample_json "[120]"
      PO_Responses "[120]"]
  by (simp add: sample_defs rendered_def forwarded_def member_def usize_max_def)



text \<open>The lenient field scan keeps what the parser delivered before a syntax error: the fields of an invalid
  text are not all absent.\<close>

lemma top_fields_keeps_partial:
  "\<exists>L json. json_lib_ok L \<and> \<not> snd (jl_scan L [[97]] (sl_bytes json)) \<and> top_fields L json [[97]] \<noteq> [None]"
proof -
  let ?L = "sample_json \<lparr> jl_scan := \<lambda>names text. if text = sample_text then ([([97], 2, 1)], False) else ([], False) \<rparr>"
  have "json_lib_ok ?L" using sample_json_ok by (auto simp: json_lib_ok_def sample_text_def)
  moreover have "top_fields ?L sample_body [[97]] \<noteq> [None]"
    by (simp add: top_fields_def scan_object_fields_def sample_body_def List.map_filter_simps)
  ultimately show ?thesis by (intro exI[of _ ?L] exI[of _ sample_body]) (simp add: sample_body_def)
qed

end
