(* ===== verification/Sse_Event.thy ===== *)
theory Sse_Event
  imports Raw_Json
begin

text \<open>
  The meaning of one server-sent event: \<open>crates/protocol/src/sse/event.rs\<close>.

  A frame is scanned in place: lines and values are ranges of the frame, and slicing out of range
  is a panic. A lone data line shares the allocation of the frame; several data lines are joined
  in a new allocation at an address of its own, which is how the rewriter later tells the two
  cases apart. Line ends are LF, CR LF and CR.
\<close>

section \<open>The text of an event\<close>

record sse_json_data =
  jd_event_name :: "slice option"
  jd_data :: slice

datatype sse_event_payload = SE_Empty | SE_Done | SE_NonJson | SE_Json sse_json_data

function next_line_from :: "byte list \<Rightarrow> nat \<Rightarrow> nat \<Rightarrow> (nat \<times> nat) \<times> nat" where
  "next_line_from bytes start index =
     (if index < length bytes
      then if bytes ! index = 10 then ((start, index), index + 1)
           else if bytes ! index = 13
           then ((start, index),
                 if index + 1 < length bytes \<and> bytes ! (index + 1) = 10 then index + 2 else index + 1)
           else next_line_from bytes start (index + 1)
      else ((start, length bytes), length bytes))"
  by pat_completeness auto
termination
  by (relation "measure (\<lambda>(bytes, start, index). length bytes - index)") auto

declare next_line_from.simps [simp del]

definition next_line :: "byte list \<Rightarrow> nat \<Rightarrow> (nat \<times> nat) \<times> nat" where
  "next_line bytes start = next_line_from bytes start start"

lemma next_line_from_progress:
  "index < length bytes \<Longrightarrow> index < snd (next_line_from bytes start index)"
proof (induction bytes start index rule: next_line_from.induct)
  case (1 bytes start index)
  have last: "next_line_from bytes start (length bytes) = ((start, length bytes), length bytes)"
    by (subst next_line_from.simps) simp
  from 1 show ?case
    by (cases "index + 1 = length bytes") (auto simp: next_line_from.simps[of bytes start index] last)
qed

lemma next_line_progress: "start < length bytes \<Longrightarrow> next_line bytes start = (line, next) \<Longrightarrow> start < next"
  using next_line_from_progress[of start bytes start] by (simp add: next_line_def)

definition field_value ::
  "byte list \<Rightarrow> nat \<times> nat \<Rightarrow> ('e, (byte list \<times> nat \<times> nat) option) exec" where
  "field_value bytes line =
     bind_exec (slice_range bytes line)
       (\<lambda>txt. if txt = [] \<or> txt ! 0 = 58 then Returns None
          else (let (name_end, colon_end) =
                      (case position_from 0 58 txt of
                         Some colon \<Rightarrow> (colon, colon + 1)
                       | None \<Rightarrow> (length txt, length txt));
                    value_start =
                      (if colon_end < length txt \<and> txt ! colon_end = 32 then colon_end + 1 else colon_end)
                in bind_exec (slice_range bytes (fst line, fst line + name_end))
                     (\<lambda>name. Returns (Some (name, fst line + value_start, snd line)))))"

text \<open>The scan of a frame: the range of the last event name, of the first data value and of the
  further ones.\<close>

type_synonym event_scan = "(nat \<times> nat) option \<times> (nat \<times> nat) option \<times> (nat \<times> nat) list"

fun note_field :: "(byte list \<times> nat \<times> nat) option \<Rightarrow> event_scan \<Rightarrow> event_scan" where
  "note_field None scan = scan"
| "note_field (Some (name, span)) (event_name, first_data, extra_data) =
     (if name = bytes_of_string ''event'' then (Some span, first_data, extra_data)
      else if name = bytes_of_string ''data''
      then (case first_data of
              None \<Rightarrow> (event_name, Some span, extra_data)
            | Some _ \<Rightarrow> (event_name, first_data, extra_data @ [span]))
      else (event_name, first_data, extra_data))"

function scan_event :: "byte list \<Rightarrow> nat \<Rightarrow> event_scan \<Rightarrow> ('e, event_scan) exec" where
  "scan_event bytes offset scan =
     (if offset < length bytes
      then (case next_line bytes offset of
              (line, next) \<Rightarrow>
                bind_exec (field_value bytes line)
                  (\<lambda>found. scan_event bytes next (note_field found scan)))
      else Returns scan)"
  by pat_completeness auto
termination
proof (relation "measure (\<lambda>(bytes, offset, scan). length bytes - offset)", goal_cases)
  case (2 bytes offset scan line after found)
  then show ?case using next_line_progress[OF 2(1) 2(2)[symmetric]] by simp
qed simp

declare scan_event.simps [simp del]

section \<open>Classification\<close>

definition in_bytes :: "nat \<Rightarrow> nat \<Rightarrow> byte \<Rightarrow> bool" where
  "in_bytes lo hi b \<longleftrightarrow> lo \<le> unat b \<and> unat b \<le> hi"

text \<open>The encodings \<open>std::str::from_utf8\<close> accepts.\<close>

fun utf8_valid :: "byte list \<Rightarrow> bool" where
  "utf8_valid [] \<longleftrightarrow> True"
| "utf8_valid (a # bs) \<longleftrightarrow>
     (if in_bytes 0 127 a then utf8_valid bs
      else case bs of
        [] \<Rightarrow> False
      | b # cs \<Rightarrow>
          if in_bytes 194 223 a then in_bytes 128 191 b \<and> utf8_valid cs
          else case cs of
            [] \<Rightarrow> False
          | c # ds \<Rightarrow>
              if in_bytes 224 239 a
              then in_bytes (if a = 224 then 160 else 128) (if a = 237 then 159 else 191) b \<and>
                   in_bytes 128 191 c \<and> utf8_valid ds
              else case ds of
                [] \<Rightarrow> False
              | d # es \<Rightarrow>
                  in_bytes 240 244 a \<and>
                  in_bytes (if a = 240 then 144 else 128) (if a = 244 then 143 else 191) b \<and>
                  in_bytes 128 191 c \<and> in_bytes 128 191 d \<and> utf8_valid es)"

definition trim_ascii :: "byte list \<Rightarrow> byte list" where
  "trim_ascii bytes = rev (dropWhile is_ascii_whitespace (rev (dropWhile is_ascii_whitespace bytes)))"

definition classify_data :: "json_lib \<Rightarrow> slice option \<Rightarrow> slice \<Rightarrow> sse_event_payload" where
  "classify_data L event_name data =
     (if trim_ascii (sl_bytes data) = bytes_of_string ''[DONE]'' then SE_Done
      else if \<not> utf8_valid (sl_bytes data) then SE_NonJson
      else if \<not> jl_valid L (sl_bytes data) then SE_NonJson
      else SE_Json \<lparr> jd_event_name = event_name, jd_data = data \<rparr>)"

definition event_buffer_error :: "payload_buffer_error \<Rightarrow> protocol_error" where
  "event_buffer_error e = PE_Internal ''SSE event allocation failed''"

definition event_size_error :: protocol_error where
  "event_size_error = PE_Internal ''SSE event size overflowed''"

fun joined_len_from :: "nat \<Rightarrow> (nat \<times> nat) list \<Rightarrow> nat option" where
  "joined_len_from acc [] = Some acc"
| "joined_len_from acc (line # lines) =
     (case checked_add_usize acc 1 of
        None \<Rightarrow> None
      | Some acc \<Rightarrow>
          (case checked_add_usize acc (snd line - fst line) of
             None \<Rightarrow> None | Some acc \<Rightarrow> joined_len_from acc lines))"

fun join_lines ::
  "allocator \<Rightarrow> byte list \<Rightarrow> payload_buffer \<Rightarrow> (nat \<times> nat) list \<Rightarrow> (protocol_error, payload_buffer) exec" where
  "join_lines A bytes b [] = Returns b"
| "join_lines A bytes b (line # lines) =
     bind_exec (put_with event_buffer_error A b [10])
       (\<lambda>b. bind_exec (slice_range bytes line)
       (\<lambda>txt. bind_exec (put_with event_buffer_error A b txt)
       (\<lambda>b. join_lines A bytes b lines)))"

text \<open>\<open>Bytes::slice\<close>: part of the same allocation.\<close>

definition bytes_slice :: "slice \<Rightarrow> nat \<times> nat \<Rightarrow> ('e, slice) exec" where
  "bytes_slice s span =
     (if fst span \<le> snd span \<and> snd span \<le> length (sl_bytes s)
      then Returns (sub_slice s (fst span) (snd span - fst span)) else Panics)"

definition slice_name :: "slice \<Rightarrow> (nat \<times> nat) option \<Rightarrow> ('e, slice option) exec" where
  "slice_name frame span =
     (case span of
        None \<Rightarrow> Returns None
      | Some span \<Rightarrow> bind_exec (bytes_slice frame span) (\<lambda>name. Returns (Some name)))"

text \<open>\<open>addr\<close> is the address of the allocation for joined data.\<close>

definition parse_event_payload ::
  "json_lib \<Rightarrow> allocator \<Rightarrow> nat \<Rightarrow> slice \<Rightarrow> (protocol_error, sse_event_payload) exec" where
  "parse_event_payload L A addr frame =
     bind_exec (scan_event (sl_bytes frame) 0 (None, None, []))
       (\<lambda>(event_name, first_data, extra_data).
          case first_data of
            None \<Rightarrow> Returns SE_Empty
          | Some first \<Rightarrow>
              bind_exec (slice_name frame event_name)
                (\<lambda>event_name.
                   if extra_data = []
                   then if snd first \<le> fst first then Returns SE_Empty
                        else bind_exec (bytes_slice frame first)
                               (\<lambda>data. Returns (classify_data L event_name data))
                   else case joined_len_from (snd first - fst first) extra_data of
                     None \<Rightarrow> Fails event_size_error
                   | Some joined_len \<Rightarrow>
                       bind_exec (map_err_exec event_buffer_error
                                    (with_capacity_hint A (Some joined_len) joined_len))
                         (\<lambda>b. bind_exec (slice_range (sl_bytes frame) first)
                         (\<lambda>txt. bind_exec (put_with event_buffer_error A b txt)
                         (\<lambda>b. bind_exec (join_lines A (sl_bytes frame) b extra_data)
                         (\<lambda>b. Returns (classify_data L event_name
                                  \<lparr> sl_addr = addr, sl_bytes = fst (freeze b) \<rparr>)))))))"

definition sse_event_name :: "sse_json_data \<Rightarrow> byte list option" where
  "sse_event_name d =
     (case jd_event_name d of
        None \<Rightarrow> None
      | Some name \<Rightarrow> if utf8_valid (sl_bytes name) then Some (sl_bytes name) else None)"

section \<open>Lines\<close>

text \<open>A text as a list of lines with their ends, and back.\<close>

fun raw_lines :: "byte list \<Rightarrow> (byte list \<times> byte list) list" where
  "raw_lines [] = []"
| "raw_lines (c # cs) =
     (if c = 10 then ([], [10]) # raw_lines cs
      else if c = 13
      then (case cs of
              [] \<Rightarrow> [([], [13])]
            | d # ds \<Rightarrow> if d = 10 then ([], [13, 10]) # raw_lines ds else ([], [13]) # raw_lines cs)
      else (case raw_lines cs of [] \<Rightarrow> [([c], [])] | (l, t) # ls \<Rightarrow> (c # l, t) # ls))"

definition lines_text :: "(byte list \<times> byte list) list \<Rightarrow> byte list" where
  "lines_text ls = concat (map (\<lambda>(l, t). l @ t) ls)"

definition no_eol :: "byte list \<Rightarrow> bool" where
  "no_eol bytes \<longleftrightarrow> 10 \<notin> set bytes \<and> 13 \<notin> set bytes"

lemma lines_text_simps [simp]:
  "lines_text [] = []" "lines_text ((l, t) # ls) = l @ t @ lines_text ls"
  "lines_text (ls @ ls') = lines_text ls @ lines_text ls'"
  by (simp_all add: lines_text_def)

lemma no_eol_simps [simp]:
  "no_eol []" "no_eol (c # cs) \<longleftrightarrow> c \<noteq> 10 \<and> c \<noteq> 13 \<and> no_eol cs"
  "no_eol (bs @ cs) \<longleftrightarrow> no_eol bs \<and> no_eol cs"
  by (auto simp: no_eol_def)

declare raw_lines.simps(2) [simp del]

lemma raw_lines_simps [simp]:
  "raw_lines (10 # cs) = ([], [10]) # raw_lines cs"
  "raw_lines (13 # 10 # cs) = ([], [13, 10]) # raw_lines cs"
  "take 1 cs \<noteq> [10] \<Longrightarrow> raw_lines (13 # cs) = ([], [13]) # raw_lines cs"
  by (auto simp: raw_lines.simps(2) split: list.splits)

lemma raw_lines_other:
  "no_eol [c] \<Longrightarrow> raw_lines (c # cs) = (case raw_lines cs of [] \<Rightarrow> [([c], [])] | (l, t) # ls \<Rightarrow> (c # l, t) # ls)"
  by (simp add: raw_lines.simps(2))

lemma raw_lines_induct [case_names Nil LF CRLF CR other]:
  assumes "P []" "\<And>cs. P cs \<Longrightarrow> P (10 # cs)" "\<And>cs. P cs \<Longrightarrow> P (13 # 10 # cs)"
    and "\<And>cs. take 1 cs \<noteq> [10] \<Longrightarrow> P cs \<Longrightarrow> P (13 # cs)" "\<And>c cs. no_eol [c] \<Longrightarrow> P cs \<Longrightarrow> P (c # cs)"
  shows "P bytes"
proof (induction bytes rule: length_induct)
  case (1 bytes)
  show ?case
  proof (cases bytes)
    case (Cons c cs)
    show ?thesis
    proof (cases "c = 13 \<and> take 1 cs = [10]")
      case True
      then obtain ds where "bytes = 13 # 10 # ds" using Cons by (cases cs) auto
      then show ?thesis using 1 assms(3) by simp
    next
      case False
      then show ?thesis using Cons 1 assms(2)[of cs] assms(4)[of cs] assms(5)[of c cs] by auto
    qed
  qed (simp add: assms)
qed

lemma raw_lines_Nil [simp]: "raw_lines bytes = [] \<longleftrightarrow> bytes = []"
  by (cases bytes) (auto simp: raw_lines.simps(2) split: list.splits)

lemma lines_text_raw_lines [simp]: "lines_text (raw_lines bytes) = bytes"
  by (induction bytes rule: raw_lines_induct) (auto simp: raw_lines_other split: list.splits)

lemma raw_lines_Cons:
  "raw_lines bytes = (l, t) # ls \<Longrightarrow> no_eol l \<and> bytes = l @ t @ lines_text ls \<and> raw_lines (lines_text ls) = ls"
proof (induction bytes arbitrary: l rule: raw_lines_induct)
  case (other c cs)
  then show ?case by (cases "raw_lines cs") (auto simp: raw_lines_other)
qed auto

lemma raw_lines_no_eol: "(l, t) \<in> set (raw_lines bytes) \<Longrightarrow> no_eol l"
proof (induction "raw_lines bytes" arbitrary: bytes)
  case (Cons x xs)
  obtain l' t' where "x = (l', t')" by fastforce
  with Cons raw_lines_Cons[of bytes l' t' xs] show ?case by (metis (no_types, lifting) Pair_inject set_ConsD)
qed simp

text \<open>One line of the scanner is one line of the text.\<close>

lemma next_line_from_lines:
  "raw_lines bytes = (l, t) # ls \<Longrightarrow>
   next_line_from (before @ bytes) start (length before) =
     ((start, length before + length l), length before + length l + length t)"
proof (induction bytes arbitrary: before l rule: raw_lines_induct)
  case (CR cs)
  then show ?case by (subst next_line_from.simps) (cases cs, auto simp: nth_append)
next
  case (other c cs)
  then have step: "next_line_from (before @ c # cs) start (length before) =
      next_line_from ((before @ [c]) @ cs) start (length (before @ [c]))"
    by (subst next_line_from.simps) simp
  show ?case
  proof (cases "raw_lines cs")
    case Nil
    then have "cs = []" "l = [c]" "t = []" using other by (auto simp: raw_lines_other)
    then show ?thesis unfolding step by (subst next_line_from.simps) simp
  next
    case (Cons x xs)
    then obtain l' where "raw_lines cs = (l', t) # ls" "l = c # l'" using other by (cases x) (auto simp: raw_lines_other)
    then show ?thesis unfolding step using other(2)[of l' "before @ [c]"] by simp
  qed
qed (simp, (subst next_line_from.simps, auto simp: nth_append)+)

lemma next_line_lines:
  assumes "raw_lines bytes = (l, t) # ls"
  shows "next_line (before @ bytes) (length before) =
    ((length before, length before + length l), length before + length l + length t)"
  unfolding next_line_def by (rule next_line_from_lines[OF assms])

section \<open>Fields\<close>

text \<open>The field of a line: the name up to the first colon and the value behind it, without one
  leading space; blank lines and comments have none.\<close>

definition line_field :: "byte list \<Rightarrow> (byte list \<times> byte list) option" where
  "line_field l =
     (if l = [] \<or> hd l = 58 then None
      else (let name = takeWhile (\<lambda>b. b \<noteq> 58) l; rest = drop (length name + 1) l
            in Some (name, if take 1 rest = [32] then tl rest else rest)))"

lemma position_from_takeWhile:
  "position_from i x xs = (if x \<in> set xs then Some (i + length (takeWhile (\<lambda>y. y \<noteq> x) xs)) else None)"
  by (induction i x xs rule: position_from.induct) auto

definition value_start :: "byte list \<Rightarrow> nat" where
  "value_start l =
     (let k = length (takeWhile (\<lambda>b. b \<noteq> 58) l) + 1 in if k < length l \<and> l ! k = 32 then k + 1 else k)"

lemma line_field_eq:
  "line_field l =
     (if l = [] \<or> hd l = 58 then None
      else Some (takeWhile (\<lambda>b. b \<noteq> 58) l, drop (value_start l) l))"
proof -
  have "take 1 (drop k l) = [32] \<longleftrightarrow> k < length l \<and> l ! k = 32" for k
    by (cases "k < length l") (auto simp: Cons_nth_drop_Suc[symmetric])
  moreover have "tl (drop k l) = drop (k + 1) l" for k by (simp add: drop_Suc tl_drop)
  ultimately show ?thesis
    unfolding line_field_def value_start_def Let_def by presburger
qed

lemma line_field_suffix:
  assumes "line_field l = Some (name, v)"
  shows "\<exists>u. l = u @ v \<and> length name \<le> length u \<and> name = takeWhile (\<lambda>b. b \<noteq> 58) l"
  using assms length_takeWhile_le[of "\<lambda>b. b \<noteq> 58" l]
  by (intro exI[of _ "take (value_start l) l"])
    (auto simp: line_field_eq value_start_def Let_def split: if_splits)

definition field_span :: "nat \<Rightarrow> byte list \<Rightarrow> (byte list \<times> nat \<times> nat) option" where
  "field_span offset l =
     map_option (\<lambda>(name, v). (name, offset + (length l - length v), offset + length l)) (line_field l)"

lemma field_value_line:
  "field_value (before @ l @ rest) (length before, length before + length l) = Returns (field_span (length before) l)"
proof (cases "l = [] \<or> hd l = 58")
  case True
  then show ?thesis
    by (cases l) (auto simp: field_value_def slice_range_def field_span_def line_field_def)
next
  case False
  let ?n = "takeWhile (\<lambda>b. b \<noteq> 58) l"
  have n: "take (length ?n) l = ?n" by (metis takeWhile_eq_take)
  have le: "length ?n \<le> length l" by (rule length_takeWhile_le)
  have all: "58 \<notin> set l \<Longrightarrow> ?n = l" by (rule takeWhile_eq_all_conv[THEN iffD2]) auto
  have lt: "58 \<in> set l \<Longrightarrow> length ?n < length l" by (induction l) auto
  have hd: "l ! 0 \<noteq> 58" "l \<noteq> []" using False by (auto simp: hd_conv_nth)
  show ?thesis
  proof (cases "58 \<in> set l")
    case True
    then show ?thesis using False hd lt n
      by (auto simp: slice_range_ok field_value_def field_span_def line_field_eq position_from_takeWhile value_start_def Let_def)
  next
    case no: False
    then show ?thesis using False hd
      by (auto simp: all[OF no] slice_range_ok field_value_def field_span_def line_field_eq position_from_takeWhile value_start_def Let_def)
  qed
qed

section \<open>What an event means\<close>

text \<open>The fields of a text in order, the values of one name, and from them the event: the last
  \<open>event\<close> value and the \<open>data\<close> values joined by line feeds.\<close>

definition event_fields :: "byte list \<Rightarrow> (byte list \<times> byte list) list" where
  "event_fields bytes = List.map_filter (\<lambda>(l, t). line_field l) (raw_lines bytes)"

definition values_of :: "string \<Rightarrow> (byte list \<times> 'v) list \<Rightarrow> 'v list" where
  "values_of name fs = map snd (filter (\<lambda>f. fst f = bytes_of_string name) fs)"

definition last_of :: "'v list \<Rightarrow> 'v option" where
  "last_of vs = (if vs = [] then None else Some (last vs))"

datatype event_view = EV_Empty | EV_Done | EV_NonJson | EV_Json "byte list option" "byte list"

definition spec_event :: "json_lib \<Rightarrow> byte list \<Rightarrow> event_view" where
  "spec_event L bytes =
     (let lines = values_of ''data'' (event_fields bytes); data = join_with [10] lines
      in if lines = [] \<or> lines = [[]] then EV_Empty
         else if trim_ascii data = bytes_of_string ''[DONE]'' then EV_Done
         else if utf8_valid data \<and> jl_valid L data
         then EV_Json (last_of (values_of ''event'' (event_fields bytes))) data
         else EV_NonJson)"

fun payload_view :: "sse_event_payload \<Rightarrow> event_view" where
  "payload_view SE_Empty = EV_Empty"
| "payload_view SE_Done = EV_Done"
| "payload_view SE_NonJson = EV_NonJson"
| "payload_view (SE_Json d) = EV_Json (map_option sl_bytes (jd_event_name d)) (sl_bytes (jd_data d))"

section \<open>The scanner\<close>

fun spans_from :: "nat \<Rightarrow> (byte list \<times> byte list) list \<Rightarrow> (byte list \<times> nat \<times> nat) option list" where
  "spans_from offset [] = []"
| "spans_from offset ((l, t) # ls) = field_span offset l # spans_from (offset + length l + length t) ls"

lemma scan_event_spans:
  "raw_lines bytes = ls \<Longrightarrow>
   scan_event (before @ bytes) (length before) scan = Returns (fold note_field (spans_from (length before) ls) scan)"
proof (induction ls arbitrary: before bytes scan)
  case Nil
  then show ?case by (subst scan_event.simps) simp
next
  case (Cons x ls)
  obtain l t where x: "x = (l, t)" by fastforce
  have b: "bytes = l @ t @ lines_text ls" "raw_lines (lines_text ls) = ls"
    using raw_lines_Cons Cons.prems x by blast+
  have ne: "bytes \<noteq> []" using Cons.prems by auto
  show ?case
    using next_line_lines[OF Cons.prems[unfolded x], of before] ne Cons.IH[OF b(2), of "before @ l @ t"] x
    by (subst scan_event.simps) (simp add: b(1) add.assoc field_value_line)
qed

definition named_spans :: "string \<Rightarrow> (byte list \<times> nat \<times> nat) option list \<Rightarrow> (nat \<times> nat) list" where
  "named_spans name xs = values_of name (List.map_filter (\<lambda>x. x) xs)"

lemma named_spans_simps [simp]:
  "named_spans name [] = []" "named_spans name (None # xs) = named_spans name xs"
  "named_spans name (Some (n, span) # xs) =
     (if n = bytes_of_string name then span # named_spans name xs else named_spans name xs)"
  by (simp_all add: named_spans_def values_of_def List.map_filter_simps)

lemma data_not_event: "bytes_of_string ''data'' \<noteq> bytes_of_string ''event''"
  by (simp add: bytes_of_string_def)

lemma fold_note_field:
  "fold note_field xs (e, f, ex) =
     ((if named_spans ''event'' xs = [] then e else Some (last (named_spans ''event'' xs))),
      (case f of None \<Rightarrow> (if named_spans ''data'' xs = [] then None else Some (hd (named_spans ''data'' xs))) | Some d \<Rightarrow> Some d),
      (case f of None \<Rightarrow> ex @ tl (named_spans ''data'' xs) | Some _ \<Rightarrow> ex @ named_spans ''data'' xs))"
proof (induction xs arbitrary: e f ex)
  case (Cons x xs)
  show ?case
  proof (cases x)
    case (Some y)
    obtain n span where "y = (n, span)" by (cases y) blast
    with Some Cons data_not_event show ?thesis by (auto split: option.splits)
  next
    case None
    then show ?thesis by (simp only: fold_simps note_field.simps named_spans_simps Cons)
  qed
qed (auto split: option.splits)

lemma scan_event_result:
  "scan_event bytes 0 (None, None, []) =
     (let xs = spans_from 0 (raw_lines bytes); ds = named_spans ''data'' xs
      in Returns (last_of (named_spans ''event'' xs), if ds = [] then None else Some (hd ds), tl ds))"
  using scan_event_spans[of bytes "raw_lines bytes" "[]" "(None, None, [])"]
  by (simp add: fold_note_field last_of_def Let_def)

text \<open>The ranges lie in the frame and hold the values.\<close>

definition span_text :: "byte list \<Rightarrow> nat \<times> nat \<Rightarrow> byte list" where
  "span_text bytes span = take (snd span - fst span) (drop (fst span) bytes)"

definition span_in :: "byte list \<Rightarrow> nat \<times> nat \<Rightarrow> bool" where
  "span_in bytes span \<longleftrightarrow> fst span \<le> snd span \<and> snd span \<le> length bytes"

lemma field_span_value:
  assumes "field_span (length before) l = Some (name, span)"
  shows "span_in (before @ l @ rest) span" "line_field l = Some (name, span_text (before @ l @ rest) span)"
proof -
  obtain v where v: "line_field l = Some (name, v)" "span = (length before + (length l - length v), length before + length l)"
    using assms by (auto simp: field_span_def)
  obtain u where u: "l = u @ v" using line_field_suffix[OF v(1)] by blast
  show "span_in (before @ l @ rest) span" "line_field l = Some (name, span_text (before @ l @ rest) span)"
    using v by (simp_all add: span_in_def span_text_def u)
qed

lemma named_spans_values:
  "(\<forall>span \<in> set (named_spans name (spans_from (length before) ls)). span_in (before @ lines_text ls) span) \<and>
   map (span_text (before @ lines_text ls)) (named_spans name (spans_from (length before) ls)) =
     values_of name (List.map_filter (\<lambda>(l, t). line_field l) ls)"
proof (induction ls arbitrary: before)
  case Nil
  then show ?case by (simp add: values_of_def List.map_filter_simps)
next
  case (Cons x ls)
  obtain l t where x: "x = (l, t)" by fastforce
  have IH: "(\<forall>span \<in> set (named_spans name (spans_from (length before + length l + length t) ls)).
       span_in (before @ l @ t @ lines_text ls) span) \<and>
     map (span_text (before @ l @ t @ lines_text ls)) (named_spans name (spans_from (length before + length l + length t) ls)) =
     values_of name (List.map_filter (\<lambda>(l, t). line_field l) ls)"
    using Cons.IH[of "before @ l @ t"] by (simp add: add.assoc)
  show ?case
  proof (cases "field_span (length before) l")
    case None
    then have "line_field l = None" by (simp add: field_span_def)
    with None IH x show ?thesis by (simp add: List.map_filter_simps)
  next
    case (Some y)
    obtain n span where y: "y = (n, span)" by (cases y) blast
    note v = field_span_value[OF Some[unfolded y], of "t @ lines_text ls"]
    show ?thesis using IH x Some y v by (simp add: List.map_filter_simps values_of_def)
  qed
qed

lemma event_spans:
  fixes bytes
  defines "xs \<equiv> spans_from 0 (raw_lines bytes)"
  shows "span \<in> set (named_spans name xs) \<Longrightarrow> span_in bytes span"
    "map (span_text bytes) (named_spans name xs) = values_of name (event_fields bytes)"
  using named_spans_values[of name "[]" "raw_lines bytes"] by (auto simp: xs_def event_fields_def)

section \<open>The parser\<close>

lemma data_values_total:
  "(\<Sum>v\<leftarrow>values_of ''data'' (List.map_filter (\<lambda>(l, t). line_field l) ls). length v + 1) \<le> length (lines_text ls)"
proof (induction ls)
  case (Cons x ls)
  obtain l t where x: "x = (l, t)" by fastforce
  have "line_field l = Some (bytes_of_string ''data'', v) \<Longrightarrow> length v + 4 \<le> length l" for v
    using line_field_suffix[of l "bytes_of_string ''data''" v] by (auto simp: bytes_of_string_def)
  then show ?case using Cons x
    by (cases "line_field l") (fastforce simp: values_of_def List.map_filter_simps)+
qed (simp add: values_of_def List.map_filter_simps)

lemma length_join_with: "vs \<noteq> [] \<Longrightarrow> length (join_with [10] vs) + 1 = (\<Sum>v\<leftarrow>vs. length v + 1)"
  by (induction "[10] :: byte list" vs rule: join_with.induct) auto

lemma join_with_pieces: "join_with sep (v # vs) = v @ concat (concat (map (\<lambda>v. [sep, v]) vs))"
  by (induction vs arbitrary: v) auto

lemma event_data_bound: "length (join_with [10] (values_of ''data'' (event_fields bytes))) \<le> length bytes"
proof (cases "values_of ''data'' (event_fields bytes) = []")
  case False
  then show ?thesis using length_join_with[OF False] data_values_total[of "raw_lines bytes"]
    by (simp add: event_fields_def)
qed simp

lemma joined_len_from_sum:
  "acc + (\<Sum>(a, e)\<leftarrow>spans. e - a + 1) \<le> usize_max \<Longrightarrow>
   joined_len_from acc spans = Some (acc + (\<Sum>(a, e)\<leftarrow>spans. e - a + 1))"
  by (induction acc spans rule: joined_len_from.induct) (auto simp: checked_add_usize_def)

lemma slice_range_span: "span_in bytes span \<Longrightarrow> slice_range bytes span = Returns (span_text bytes span)"
  by (simp add: slice_range_def span_in_def span_text_def)

lemma bytes_slice_span:
  "span_in (sl_bytes frame) span \<Longrightarrow> bytes_slice frame span = Returns (sub_slice frame (fst span) (snd span - fst span))"
  by (simp add: bytes_slice_def span_in_def)

lemma length_span_text: "span_in bytes span \<Longrightarrow> length (span_text bytes span) = snd span - fst span"
  by (auto simp: span_text_def span_in_def)

lemma length_joined_pieces:
  "(\<And>span. span \<in> set spans \<Longrightarrow> span_in bytes span) \<Longrightarrow>
   length (concat (concat (map (\<lambda>v. [[10], v]) (map (span_text bytes) spans)))) = (\<Sum>(a, e)\<leftarrow>spans. e - a + 1)"
  by (induction spans) (auto simp: length_span_text)

lemma join_lines_puts:
  "(\<And>span. span \<in> set spans \<Longrightarrow> span_in bytes span) \<Longrightarrow>
   join_lines A bytes b spans =
     puts event_buffer_error A b (concat (map (\<lambda>v. [[10], v]) (map (span_text bytes) spans)))"
  by (induction spans arbitrary: b) (simp_all add: slice_range_span bind_exec_assoc)

lemma payload_view_classify:
  "payload_view (classify_data L name data) =
     (if trim_ascii (sl_bytes data) = bytes_of_string ''[DONE]'' then EV_Done
      else if utf8_valid (sl_bytes data) \<and> jl_valid L (sl_bytes data)
      then EV_Json (map_option sl_bytes name) (sl_bytes data) else EV_NonJson)"
  by (simp add: classify_data_def)

lemma slice_name_returns:
  assumes "\<And>span. s = Some span \<Longrightarrow> span_in (sl_bytes frame) span"
  shows "slice_name frame s = Returns (map_option (\<lambda>(a, e). sub_slice frame a (e - a)) s)"
  using assms by (auto simp: slice_name_def bytes_slice_def span_in_def split: option.splits)

lemma sub_slice_text: "sl_bytes (sub_slice frame a (e - a)) = span_text (sl_bytes frame) (a, e)"
  by (simp add: sub_slice_def span_text_def)

text \<open>The result in closed form: the spans of the frame decide, and the data are a part of the
  frame when there is one data line and a new allocation otherwise.\<close>

definition event_slices :: "nat \<Rightarrow> slice \<Rightarrow> slice option \<times> slice" where
  "event_slices addr frame =
     (let xs = spans_from 0 (raw_lines (sl_bytes frame)); ds = named_spans ''data'' xs
      in (map_option (\<lambda>(a, e). sub_slice frame a (e - a)) (last_of (named_spans ''event'' xs)),
          if tl ds = [] then sub_slice frame (fst (hd ds)) (snd (hd ds) - fst (hd ds))
          else \<lparr> sl_addr = addr, sl_bytes = join_with [10] (values_of ''data'' (event_fields (sl_bytes frame))) \<rparr>))"

lemma parse_event_spans:
  assumes ds: "named_spans ''data'' (spans_from 0 (raw_lines (sl_bytes frame))) = d # rest"
  shows "parse_event_payload L A addr frame =
    (let name = fst (event_slices addr frame)
     in if rest = [] then if snd d \<le> fst d then Returns SE_Empty
          else Returns (classify_data L name (sub_slice frame (fst d) (snd d - fst d)))
        else case joined_len_from (snd d - fst d) rest of
               None \<Rightarrow> Fails event_size_error
             | Some n \<Rightarrow>
                 bind_exec (map_err_exec event_buffer_error (with_capacity_hint A (Some n) n))
                   (\<lambda>b. bind_exec (puts event_buffer_error A b
                          (span_text (sl_bytes frame) d #
                           concat (map (\<lambda>v. [[10], v]) (map (span_text (sl_bytes frame)) rest))))
                   (\<lambda>b. Returns (classify_data L name \<lparr> sl_addr = addr, sl_bytes = fst (freeze b) \<rparr>))))"
proof -
  note spans = event_spans(1)[where bytes = "sl_bytes frame"]
  have d_in: "span_in (sl_bytes frame) d" and rest_in: "span \<in> set rest \<Longrightarrow> span_in (sl_bytes frame) span" for span
    using spans[of _ "''data''"] by (auto simp: ds)
  have name: "last_of (named_spans ''event'' (spans_from 0 (raw_lines (sl_bytes frame)))) = Some span \<Longrightarrow>
      span_in (sl_bytes frame) span" for span
    using spans[of span "''event''"] by (auto simp: last_of_def split: if_splits)
  show ?thesis
    unfolding parse_event_payload_def scan_event_result
    by (simp add: ds event_slices_def Let_def slice_name_returns[OF name] slice_range_span[OF d_in]
        bytes_slice_span[OF d_in] join_lines_puts[OF rest_in] bind_exec_assoc split: option.split)
qed

lemma parse_event_payload_closed:
  assumes A: "allocator_ok A" "allocator_total A" and len: "length (sl_bytes frame) \<le> usize_max"
  shows "parse_event_payload L A addr frame = Returns
    (if values_of ''data'' (event_fields (sl_bytes frame)) \<in> {[], [[]]} then SE_Empty
     else classify_data L (fst (event_slices addr frame)) (snd (event_slices addr frame)))"
proof (cases "named_spans ''data'' (spans_from 0 (raw_lines (sl_bytes frame)))")
  case Nil
  then have "values_of ''data'' (event_fields (sl_bytes frame)) = []"
    using event_spans(2)[of "sl_bytes frame" "''data''"] by simp
  with Nil show ?thesis unfolding parse_event_payload_def scan_event_result by simp
next
  case (Cons d rest)
  let ?bytes = "sl_bytes frame" and ?vs = "values_of ''data'' (event_fields (sl_bytes frame))"
  have ins: "span_in ?bytes d" "span \<in> set rest \<Longrightarrow> span_in ?bytes span" for span
    using event_spans(1)[of _ "''data''" ?bytes] by (auto simp: Cons)
  have vals: "?vs = map (span_text ?bytes) (d # rest)"
    using event_spans(2)[of ?bytes "''data''"] Cons by simp
  have slice: "snd (event_slices addr frame) =
      (if rest = [] then sub_slice frame (fst d) (snd d - fst d) else \<lparr> sl_addr = addr, sl_bytes = join_with [10] ?vs \<rparr>)"
    using Cons by (simp add: event_slices_def Let_def)
  show ?thesis
  proof (cases "rest = []")
    case True
    have "span_text ?bytes d = [] \<longleftrightarrow> snd d \<le> fst d"
      using length_span_text[OF ins(1)] by (cases "span_text ?bytes d") auto
    then show ?thesis unfolding parse_event_spans[OF Cons] slice vals using True by (simp add: Let_def)
  next
    case False
    then have ne: "?vs \<notin> {[], [[]]}" using vals by auto
    have joined: "join_with [10] ?vs =
        concat (span_text ?bytes d # concat (map (\<lambda>v. [[10], v]) (map (span_text ?bytes) rest)))"
      unfolding vals list.map join_with_pieces by simp
    have fits: "length (join_with [10] ?vs) \<le> usize_max" using event_data_bound len by (rule order_trans)
    have "length (join_with [10] ?vs) = snd d - fst d + (\<Sum>(a, e)\<leftarrow>rest. e - a + 1)"
      unfolding joined using length_joined_pieces[OF ins(2)] length_span_text[OF ins(1)] by simp
    then have "joined_len_from (snd d - fst d) rest = Some (length (join_with [10] ?vs))"
      using joined_len_from_sum[of "snd d - fst d" rest] fits by simp
    then show ?thesis
      using False ne slice fresh_puts_then[OF A(2,1) order_refl fits[unfolded joined], of event_buffer_error _
          "\<lambda>data. Returns (classify_data L (fst (event_slices addr frame)) \<lparr> sl_addr = addr, sl_bytes = data \<rparr>)"]
      unfolding parse_event_spans[OF Cons] joined by simp
  qed
qed

lemma event_slices_bytes:
  assumes "values_of ''data'' (event_fields (sl_bytes frame)) \<noteq> []"
  shows "map_option sl_bytes (fst (event_slices addr frame)) = last_of (values_of ''event'' (event_fields (sl_bytes frame)))"
    "sl_bytes (snd (event_slices addr frame)) = join_with [10] (values_of ''data'' (event_fields (sl_bytes frame)))"
proof -
  let ?spans = "\<lambda>name. named_spans name (spans_from 0 (raw_lines (sl_bytes frame)))"
  note vals = event_spans(2)[of "sl_bytes frame", symmetric]
  show "map_option sl_bytes (fst (event_slices addr frame)) = last_of (values_of ''event'' (event_fields (sl_bytes frame)))"
    by (simp add: event_slices_def Let_def vals last_of_def last_map sub_slice_text split_def)
  show "sl_bytes (snd (event_slices addr frame)) = join_with [10] (values_of ''data'' (event_fields (sl_bytes frame)))"
    using assms unfolding vals
    by (cases "?spans ''data''") (auto simp: event_slices_def Let_def vals sub_slice_text)
qed


text \<open>The frame \<open>event:a LF event: b CR data:x CR LF data LF LF\<close>: two event fields, a data field and an empty
  one.\<close>

definition sample_frame :: slice where
  "sample_frame =
     \<lparr> sl_addr = 500,
       sl_bytes = bytes_of_string ''event:a'' @ [10] @ bytes_of_string ''event: b'' @ [13] @
         bytes_of_string ''data:x'' @ [13, 10] @ bytes_of_string ''data'' @ [10, 10] \<rparr>"

lemma sample_frame_fields:
  "event_fields (sl_bytes sample_frame) =
     [(bytes_of_string ''event'', [97]), (bytes_of_string ''event'', [98]),
      (bytes_of_string ''data'', [120]), (bytes_of_string ''data'', [])]"
  by (simp add: event_fields_def sample_frame_def bytes_of_string_def raw_lines_other line_field_def
      List.map_filter_simps Let_def)


end
