(* ===== verification/Sse_Rewrite.thy ===== *)
theory Sse_Rewrite
  imports Sse_Event "HOL-Library.Multiset"
begin

text \<open>
  Restoring the public model name in what an upstream sends back: in the events of a stream
  (\<open>crates/protocol/src/sse/rewrite.rs\<close>) and in a whole response body (\<open>rewrite_body_model\<close> of
  \<open>crates/protocol/src/json_codec.rs\<close>).

  The model values are found by the lenient field scan and cut out of the original bytes, so that
  everything else passes through untouched. An event whose data spanned several lines is written
  anew around the changed data.
\<close>

section \<open>Replacing the model\<close>

definition push_model_span ::
  "json_lib \<Rightarrow> slice \<Rightarrow> slice \<Rightarrow> byte list \<Rightarrow> (nat \<times> nat) list \<Rightarrow> (nat \<times> nat) list" where
  "push_model_span L data val public_model spans =
     (case json_string L val of
        None \<Rightarrow> spans
      | Some model \<Rightarrow>
          if model \<noteq> public_model
          then (case subslice_range data val of None \<Rightarrow> spans | Some span \<Rightarrow> spans @ [span])
          else spans)"

text \<open>Sorting by the start is unstable in the code; the starts are distinct.\<close>

definition model_spans :: "json_lib \<Rightarrow> slice \<Rightarrow> byte list \<Rightarrow> (nat \<times> nat) list" where
  "model_spans L data public_model =
     (let matches = fst (scan_object_fields L data
            [bytes_of_string ''model'', bytes_of_string ''response'', bytes_of_string ''message'']);
          (spans, containers) =
            fold (\<lambda>(index, val) (spans, containers).
                    if index = 0 then (push_model_span L data val public_model spans, containers)
                    else (spans, containers @ [val]))
              matches ([], []);
          spans = fold (\<lambda>container spans.
                    fold (\<lambda>(_, val) spans. push_model_span L data val public_model spans)
                      (fst (scan_object_fields L container [bytes_of_string ''model''])) spans)
              containers spans
      in sort_key fst spans)"

definition is_data_line :: "byte list \<Rightarrow> bool" where
  "is_data_line line \<longleftrightarrow> line = bytes_of_string ''data'' \<or> take 5 line = bytes_of_string ''data:''"

fun split_lf :: "byte list \<Rightarrow> byte list list" where
  "split_lf [] = [[]]"
| "split_lf (c # cs) =
     (if c = 10 then [] # split_lf cs
      else (case split_lf cs of [] \<Rightarrow> [[c]] | piece # pieces \<Rightarrow> (c # piece) # pieces))"

fun write_pieces ::
  "allocator \<Rightarrow> payload_buffer \<Rightarrow> byte list list \<Rightarrow> (protocol_error, payload_buffer) exec" where
  "write_pieces A b [] = Returns b"
| "write_pieces A b (piece # pieces) =
     bind_exec (put_with event_buffer_error A b (bytes_of_string ''data: ''))
       (\<lambda>b. bind_exec (put_with event_buffer_error A b piece)
       (\<lambda>b. bind_exec (put_with event_buffer_error A b [10])
       (\<lambda>b. write_pieces A b pieces)))"

function rebuild_lines ::
  "allocator \<Rightarrow> byte list \<Rightarrow> byte list \<Rightarrow> payload_buffer \<Rightarrow> bool \<Rightarrow> nat \<Rightarrow> (protocol_error, payload_buffer) exec" where
  "rebuild_lines A bytes data b data_written offset =
     (if offset < length bytes
      then (case next_line bytes offset of
              (line, next) \<Rightarrow>
                bind_exec (slice_range bytes line)
                  (\<lambda>txt.
                     if is_data_line txt
                     then bind_exec (if data_written then Returns b else write_pieces A b (split_lf data))
                            (\<lambda>b. rebuild_lines A bytes data b True next)
                     else if txt = [] then rebuild_lines A bytes data b data_written next
                     else bind_exec (put_with event_buffer_error A b txt)
                            (\<lambda>b. bind_exec (put_with event_buffer_error A b [10])
                            (\<lambda>b. rebuild_lines A bytes data b data_written next))))
      else Returns b)"
  by pat_completeness auto
termination
proof (relation "measure (\<lambda>(A, bytes, data, b, data_written, offset). length bytes - offset)", goal_cases)
  case (2 A bytes data b data_written offset line after)
  then show ?case using next_line_progress[OF 2(1) 2(2)[symmetric]] by simp
next
  case (3 A bytes data b data_written offset line after)
  then show ?case using next_line_progress[OF 3(1) 3(2)[symmetric]] by simp
next
  case (4 A bytes data b data_written offset line after)
  then show ?case using next_line_progress[OF 4(1) 4(2)[symmetric]] by simp
qed simp

declare rebuild_lines.simps [simp del]

definition rebuild_frame ::
  "allocator \<Rightarrow> byte list \<Rightarrow> byte list \<Rightarrow> (protocol_error, byte list) exec" where
  "rebuild_frame A bytes data =
     (case checked_add_usize (length bytes) (length data) of
        None \<Rightarrow> Fails event_size_error
      | Some expected_len \<Rightarrow>
          bind_exec (map_err_exec event_buffer_error (with_capacity_hint A (Some expected_len) usize_max))
            (\<lambda>b. bind_exec (rebuild_lines A bytes data b False 0)
            (\<lambda>b. bind_exec (put_with event_buffer_error A b [10])
            (\<lambda>b. Returns (fst (freeze b))))))"

text \<open>Quoting a string, \<open>serde_json::to_string\<close>, does not fail.\<close>

definition rewrite_known_model ::
  "json_lib \<Rightarrow> allocator \<Rightarrow> slice \<Rightarrow> sse_event_payload \<Rightarrow> byte list \<Rightarrow> (protocol_error, byte list) exec" where
  "rewrite_known_model L A bytes payload public_model =
     (case payload of
        SE_Json d \<Rightarrow>
          (let spans = model_spans L (jd_data d) public_model
           in if spans = [] then Returns (sl_bytes bytes)
              else (let replacement = concat (jl_quote L public_model)
                    in case subslice_range bytes (jd_data d) of
                         Some span \<Rightarrow>
                           splice_ranges A (sl_bytes bytes)
                             (map (\<lambda>(a, e). (fst span + a, fst span + e)) spans) replacement
                       | None \<Rightarrow>
                           bind_exec (splice_ranges A (sl_bytes (jd_data d)) spans replacement)
                             (rebuild_frame A (sl_bytes bytes))))
      | _ \<Rightarrow> Returns (sl_bytes bytes))"

definition rewrite_body_model ::
  "json_lib \<Rightarrow> allocator \<Rightarrow> slice \<Rightarrow> byte list \<Rightarrow> (protocol_error, byte list) exec" where
  "rewrite_body_model L A body public_model =
     (case object_field_raw L body (bytes_of_string ''model'') of
        None \<Rightarrow> Returns (sl_bytes body)
      | Some model \<Rightarrow>
          if json_string L model = Some public_model then Returns (sl_bytes body)
          else (case subslice_range body model of
                  None \<Rightarrow> Returns (sl_bytes body)
                | Some span \<Rightarrow>
                    splice_ranges A (sl_bytes body) [span] (concat (jl_quote L public_model))))"

section \<open>Which places are replaced\<close>

text \<open>The places of model names that differ from the public one, in the order of the text: of the
  top-level field and of those inside the \<open>response\<close> and \<open>message\<close> objects.\<close>

definition string_place :: "json_lib \<Rightarrow> byte list \<Rightarrow> byte list \<Rightarrow> nat \<Rightarrow> nat \<Rightarrow> (nat \<times> nat) list" where
  "string_place L data public_model offset n =
     (case json_string L \<lparr> sl_addr = 0, sl_bytes = take n (drop offset data) \<rparr> of
        None \<Rightarrow> [] | Some model \<Rightarrow> if model \<noteq> public_model then [(offset, offset + n)] else [])"

definition inner_places :: "json_lib \<Rightarrow> byte list \<Rightarrow> byte list \<Rightarrow> nat \<Rightarrow> nat \<Rightarrow> (nat \<times> nat) list" where
  "inner_places L data public_model offset n =
     concat (map (\<lambda>(name, o', n'). if name = bytes_of_string ''model''
         then string_place L data public_model (offset + o') n' else [])
       (fst (jl_scan L [bytes_of_string ''model''] (take n (drop offset data)))))"

definition model_places :: "json_lib \<Rightarrow> byte list \<Rightarrow> byte list \<Rightarrow> (nat \<times> nat) list" where
  "model_places L data public_model =
     concat (map (\<lambda>(name, offset, n).
         if name = bytes_of_string ''model'' then string_place L data public_model offset n
         else if name = bytes_of_string ''response'' \<or> name = bytes_of_string ''message''
         then inner_places L data public_model offset n else [])
       (fst (jl_scan L [bytes_of_string ''model'', bytes_of_string ''response'', bytes_of_string ''message''] data)))"

text \<open>Spans that follow each other without touching order.\<close>

fun spans_chain :: "nat \<Rightarrow> nat \<Rightarrow> (nat \<times> nat) list \<Rightarrow> bool" where
  "spans_chain lo hi [] \<longleftrightarrow> lo \<le> hi"
| "spans_chain lo hi ((a, e) # spans) \<longleftrightarrow> lo \<le> a \<and> a < e \<and> spans_chain e hi spans"

lemma spans_chain_le: "spans_chain lo hi spans \<Longrightarrow> lo \<le> hi"
  by (induction lo hi spans rule: spans_chain.induct) auto

lemma spans_chain_mono: "spans_chain lo hi spans \<Longrightarrow> lo' \<le> lo \<Longrightarrow> hi \<le> hi' \<Longrightarrow> spans_chain lo' hi' spans"
  by (induction lo hi spans arbitrary: lo' rule: spans_chain.induct) auto

lemma spans_chain_append:
  "spans_chain lo mid spans \<Longrightarrow> spans_chain mid' hi spans' \<Longrightarrow> mid \<le> mid' \<Longrightarrow> spans_chain lo hi (spans @ spans')"
proof (induction lo mid spans rule: spans_chain.induct)
  case (1 lo mid)
  then show ?case by (cases "(mid', hi, spans')" rule: spans_chain.cases) auto
qed auto

lemma spans_chain_concat:
  "entries_in_order lo hi entries \<Longrightarrow> lo \<le> hi \<Longrightarrow>
   (\<And>name offset n. (name, offset, n) \<in> set entries \<Longrightarrow> spans_chain offset (offset + n) (f (name, offset, n))) \<Longrightarrow>
   spans_chain lo hi (concat (map f entries))"
proof (induction lo hi entries rule: entries_in_order.induct)
  case (2 lo hi name offset n entries)
  have "spans_chain lo (offset + n) (f (name, offset, n))"
    using 2(4)[of name offset n] 2(2) spans_chain_append[of lo offset "[]" offset "offset + n"] by simp
  with 2 show ?case by (auto intro!: spans_chain_append[of lo "offset + n" _ "offset + n"])
qed simp

lemma entries_in_order_pos: "entries_in_order lo hi entries \<Longrightarrow> (name, offset, n) \<in> set entries \<Longrightarrow> 0 < n"
  by (induction lo hi entries rule: entries_in_order.induct) auto

lemma entries_in_order_shift:
  "entries_in_order (k + lo) (k + hi) (map (\<lambda>(name, offset, n). (name, k + offset, n)) entries) = entries_in_order lo hi entries"
  by (induction lo hi entries rule: entries_in_order.induct) (auto simp: add.assoc)

lemma scan_entry_bound:
  assumes "json_lib_ok L" "(name, offset, n) \<in> set (fst (jl_scan L names data))"
  shows "0 < n \<and> offset + n \<le> length data"
proof -
  have E: "entries_in_order 0 (length data) (fst (jl_scan L names data))" using assms(1) unfolding json_lib_ok_def by blast
  show ?thesis using entries_in_order_bound[OF E assms(2)] entries_in_order_pos[OF E assms(2)] by simp
qed

lemma string_place_chain: "0 < n \<Longrightarrow> spans_chain offset (offset + n) (string_place L data public_model offset n)"
  by (auto simp: string_place_def split: option.splits)

lemma spans_chain_shift: "spans_chain (k + lo) (k + hi) (map (\<lambda>(a, e). (k + a, k + e)) spans) = spans_chain lo hi spans"
  by (induction lo hi spans rule: spans_chain.induct) auto

lemma inner_places_chain:
  assumes L: "json_lib_ok L" and "offset + n \<le> length data"
  shows "spans_chain offset (offset + n) (inner_places L data public_model offset n)"
proof -
  let ?entries = "fst (jl_scan L [bytes_of_string ''model''] (take n (drop offset data)))"
  let ?shifted = "map (\<lambda>(name, o', n'). (name, offset + o', n')) ?entries"
  have "entries_in_order 0 (length (take n (drop offset data))) ?entries" using L unfolding json_lib_ok_def by blast
  then have E0: "entries_in_order 0 n ?entries" using assms(2) by (simp add: min_absorb2)
  have E: "entries_in_order (offset + 0) (offset + n) ?shifted" using E0 unfolding entries_in_order_shift .
  have eq: "inner_places L data public_model offset n =
      concat (map (\<lambda>(name, o', n'). if name = bytes_of_string ''model''
        then string_place L data public_model o' n' else []) ?shifted)"
    by (simp add: inner_places_def comp_def split_def cong: if_cong)
  have "spans_chain (offset + 0) (offset + n) (inner_places L data public_model offset n)"
    unfolding eq by (rule spans_chain_concat[OF E]) (auto intro!: string_place_chain dest: entries_in_order_pos[OF E0])
  then show ?thesis by simp
qed

lemma model_places_chain:
  assumes L: "json_lib_ok L"
  shows "spans_chain 0 (length data) (model_places L data public_model)"
proof -
  have E: "entries_in_order 0 (length data) (fst (jl_scan L names data))" for names
    using L unfolding json_lib_ok_def by blast
  show ?thesis unfolding model_places_def
    by (rule spans_chain_concat[OF E])
      (auto dest!: scan_entry_bound[OF L] intro!: string_place_chain inner_places_chain[OF L])
qed

section \<open>The scanner finds these places\<close>

lemma sub_slice_sub_slice:
  "o' + n' \<le> n \<Longrightarrow> sub_slice (sub_slice s offset n) o' n' = sub_slice s (offset + o') n'"
  by (simp add: sub_slice_def drop_take min_absorb1 add.commute)

lemma push_model_span_place:
  assumes "offset + n \<le> length (sl_bytes data)" "length (sl_bytes data) \<le> usize_max"
  shows "push_model_span L data (sub_slice data offset n) public_model spans =
    spans @ string_place L (sl_bytes data) public_model offset n"
proof -
  have "json_string L (sub_slice data offset n) =
      json_string L \<lparr> sl_addr = 0, sl_bytes = take n (drop offset (sl_bytes data)) \<rparr>"
    by (simp add: json_string_def sub_slice_def)
  then show ?thesis
    by (simp add: push_model_span_def subslice_range_sub_slice[OF assms] string_place_def split: option.split)
qed

lemma scan_matches:
  "fst (scan_object_fields L json names) =
     List.map_filter (\<lambda>(name, offset, len).
         map_option (\<lambda>index. (index, sub_slice json offset len)) (position_from 0 name names))
       (fst (jl_scan L names (sl_bytes json)))"
  by (simp add: scan_object_fields_def split_def Let_def)

lemma inner_fold:
  assumes L: "json_lib_ok L" and bound: "offset + n \<le> length (sl_bytes data)" "length (sl_bytes data) \<le> usize_max"
  shows "fold (\<lambda>(_, val) spans. push_model_span L data val public_model spans)
      (fst (scan_object_fields L (sub_slice data offset n) [bytes_of_string ''model''])) spans =
    spans @ inner_places L (sl_bytes data) public_model offset n"
proof -
  have "fold (\<lambda>(_, val) spans. push_model_span L data val public_model spans)
      (List.map_filter (\<lambda>(name, o', len). map_option (\<lambda>index. (index, sub_slice (sub_slice data offset n) o' len))
         (position_from 0 name [bytes_of_string ''model''])) entries) spans =
      spans @ concat (map (\<lambda>(name, o', n'). if name = bytes_of_string ''model''
         then string_place L (sl_bytes data) public_model (offset + o') n' else []) entries)"
    if "\<And>name o' n'. (name, o', n') \<in> set entries \<Longrightarrow> o' + n' \<le> n" for entries
    using that
  proof (induction entries arbitrary: spans)
    case (Cons x entries)
    obtain name o' n' where x: "x = (name, o', n')" by (cases x) auto
    then have "o' + n' \<le> n" using Cons.prems[of name o' n'] by simp
    with Cons.IH[OF Cons.prems[OF list.set_intros(2)]] x bound show ?case
      by (auto simp: List.map_filter_simps sub_slice_sub_slice push_model_span_place)
  qed (simp add: List.map_filter_simps)
  moreover have "(name, o', n') \<in> set (fst (jl_scan L [bytes_of_string ''model''] (sl_bytes (sub_slice data offset n)))) \<Longrightarrow>
      o' + n' \<le> n" for name o' n'
    using scan_entry_bound[OF L, of name o' n'] by (fastforce simp: sub_slice_def)
  ultimately show ?thesis
    unfolding scan_matches inner_places_def by (simp add: sub_slice_def)
qed

text \<open>The top-level places come first and the inner ones after them; sorting puts them in the order
  of the text.\<close>

definition top_places :: "json_lib \<Rightarrow> byte list \<Rightarrow> byte list \<Rightarrow> byte list \<times> nat \<times> nat \<Rightarrow> (nat \<times> nat) list" where
  "top_places L data public_model entry =
     (if fst entry = bytes_of_string ''model''
      then string_place L data public_model (fst (snd entry)) (snd (snd entry)) else [])"

definition is_container :: "byte list \<times> nat \<times> nat \<Rightarrow> bool" where
  "is_container entry \<longleftrightarrow>
     fst entry \<noteq> bytes_of_string ''model'' \<and>
     (fst entry = bytes_of_string ''response'' \<or> fst entry = bytes_of_string ''message'')"

definition note_match ::
  "json_lib \<Rightarrow> slice \<Rightarrow> byte list \<Rightarrow> nat \<times> slice \<Rightarrow> (nat \<times> nat) list \<times> slice list \<Rightarrow> (nat \<times> nat) list \<times> slice list" where
  "note_match L data public_model = (\<lambda>(index, val) (spans, containers).
     if index = 0 then (push_model_span L data val public_model spans, containers) else (spans, containers @ [val]))"

definition entry_match :: "slice \<Rightarrow> byte list \<times> nat \<times> nat \<Rightarrow> (nat \<times> slice) option" where
  "entry_match data = (\<lambda>(name, offset, len). map_option (\<lambda>index. (index, sub_slice data offset len))
     (position_from 0 name [bytes_of_string ''model'', bytes_of_string ''response'', bytes_of_string ''message'']))"

lemma outer_fold:
  assumes "\<And>name offset n. (name, offset, n) \<in> set entries \<Longrightarrow> offset + n \<le> length (sl_bytes data)"
    and "length (sl_bytes data) \<le> usize_max"
  shows "fold (note_match L data public_model) (List.map_filter (entry_match data) entries) (spans, containers) =
    (spans @ concat (map (top_places L (sl_bytes data) public_model) entries),
     containers @ map (\<lambda>(_, offset, n). sub_slice data offset n) (filter is_container entries))"
  using assms(1)
proof (induction entries arbitrary: spans containers)
  case (Cons x entries)
  obtain name offset n where x: "x = (name, offset, n)" by (cases x) auto
  have "offset + n \<le> length (sl_bytes data)" using Cons.prems[of name offset n] x by simp
  note push = push_model_span_place[OF this assms(2), of L public_model]
  note IH = Cons.IH[OF Cons.prems[OF list.set_intros(2)]]
  have "top_places L (sl_bytes data) public_model x =
      (if name = bytes_of_string ''model'' then string_place L (sl_bytes data) public_model offset n else [])"
    "entry_match data x = map_option (\<lambda>index. (index, sub_slice data offset n))
      (if name = bytes_of_string ''model'' then Some 0 else if name = bytes_of_string ''response'' then Some 1
       else if name = bytes_of_string ''message'' then Some 2 else None)"
    "is_container x \<longleftrightarrow> name \<noteq> bytes_of_string ''model'' \<and>
      (name = bytes_of_string ''response'' \<or> name = bytes_of_string ''message'')"
    using x by (simp_all add: top_places_def entry_match_def is_container_def)
  then show ?case using x push IH
    by (auto simp: List.map_filter_simps note_match_def)
qed (simp add: List.map_filter_simps)

lemma containers_fold:
  assumes "json_lib_ok L" "\<And>name offset n. (name, offset, n) \<in> set cs \<Longrightarrow> offset + n \<le> length (sl_bytes data)"
    and "length (sl_bytes data) \<le> usize_max"
  shows "fold (\<lambda>container spans. fold (\<lambda>(_, val) spans. push_model_span L data val public_model spans)
        (fst (scan_object_fields L container [bytes_of_string ''model''])) spans)
      (map (\<lambda>(_, offset, n). sub_slice data offset n) cs) spans =
    spans @ concat (map (\<lambda>(_, offset, n). inner_places L (sl_bytes data) public_model offset n) cs)"
  using assms(2)
proof (induction cs arbitrary: spans)
  case (Cons x cs)
  obtain name offset n where x: "x = (name, offset, n)" by (cases x) auto
  have "offset + n \<le> length (sl_bytes data)" using Cons.prems[of name offset n] x by simp
  then show ?case using Cons.IH[OF Cons.prems[OF list.set_intros(2)]] x inner_fold[OF assms(1) _ assms(3)] by simp
qed simp

lemma spans_chain_sorted:
  "spans_chain lo hi spans \<Longrightarrow> sorted (map fst spans) \<and> distinct (map fst spans) \<and> (\<forall>span \<in> set spans. lo \<le> fst span)"
  by (induction lo hi spans rule: spans_chain.induct) fastforce+

lemma places_mset:
  "mset (concat (map (top_places L data public_model) entries) @
      concat (map (\<lambda>(_, offset, n). inner_places L data public_model offset n) (filter is_container entries))) =
   mset (concat (map (\<lambda>(name, offset, n).
         if name = bytes_of_string ''model'' then string_place L data public_model offset n
         else if name = bytes_of_string ''response'' \<or> name = bytes_of_string ''message''
         then inner_places L data public_model offset n else []) entries))"
  by (induction entries) (auto simp: top_places_def is_container_def)

lemma model_spans_places:
  assumes L: "json_lib_ok L" and len: "length (sl_bytes data) \<le> usize_max"
  shows "model_spans L data public_model = model_places L (sl_bytes data) public_model"
proof -
  let ?E = "fst (jl_scan L [bytes_of_string ''model'', bytes_of_string ''response'', bytes_of_string ''message''] (sl_bytes data))"
  have bound: "(name, offset, n) \<in> set ?E \<Longrightarrow> offset + n \<le> length (sl_bytes data)" for name offset n
    using scan_entry_bound[OF L] by blast
  have outer: "fold (note_match L data public_model) (List.map_filter (entry_match data) ?E) ([], []) =
      ([] @ concat (map (top_places L (sl_bytes data) public_model) ?E),
       [] @ map (\<lambda>(_, offset, n). sub_slice data offset n) (filter is_container ?E))"
    by (rule outer_fold[OF _ len]) (rule bound)
  have inner: "fold (\<lambda>container spans. fold (\<lambda>(_, val) spans. push_model_span L data val public_model spans)
        (fst (scan_object_fields L container [bytes_of_string ''model''])) spans)
      (map (\<lambda>(_, offset, n). sub_slice data offset n) (filter is_container ?E)) spans =
    spans @ concat (map (\<lambda>(_, offset, n). inner_places L (sl_bytes data) public_model offset n) (filter is_container ?E))"
    for spans by (rule containers_fold[OF L _ len]) (auto intro: bound)
  have "model_spans L data public_model = sort_key fst
      (concat (map (top_places L (sl_bytes data) public_model) ?E) @
       concat (map (\<lambda>(_, offset, n). inner_places L (sl_bytes data) public_model offset n) (filter is_container ?E)))"
    unfolding model_spans_def scan_matches[of L data] entry_match_def[symmetric] note_match_def[symmetric] Let_def outer
    by (simp add: inner del: position_from.simps)
  also have "\<dots> = model_places L (sl_bytes data) public_model"
  proof (rule sort_key_inj_key_eq)
    show "mset (concat (map (top_places L (sl_bytes data) public_model) ?E) @
        concat (map (\<lambda>(_, offset, n). inner_places L (sl_bytes data) public_model offset n) (filter is_container ?E))) =
      mset (model_places L (sl_bytes data) public_model)"
      unfolding model_places_def by (rule places_mset)
    then show "inj_on fst (set (concat (map (top_places L (sl_bytes data) public_model) ?E) @
        concat (map (\<lambda>(_, offset, n). inner_places L (sl_bytes data) public_model offset n) (filter is_container ?E))))"
      using spans_chain_sorted[OF model_places_chain[OF L]] by (metis distinct_map set_mset_mset)
    show "sorted (map fst (model_places L (sl_bytes data) public_model))"
      using spans_chain_sorted[OF model_places_chain[OF L]] by blast
  qed
  finally show ?thesis .
qed

section \<open>Replacing spans\<close>

fun replace_spans :: "nat \<Rightarrow> byte list \<Rightarrow> (nat \<times> nat) list \<Rightarrow> byte list \<Rightarrow> byte list" where
  "replace_spans from_pos bytes [] replacement = drop from_pos bytes"
| "replace_spans from_pos bytes ((a, e) # spans) replacement =
     take (a - from_pos) (drop from_pos bytes) @ replacement @ replace_spans e bytes spans replacement"

lemma spans_chain_segments:
  "spans_chain lo (length bytes) spans \<Longrightarrow>
   \<exists>segments rest. segment_spans lo segments = spans \<and> drop lo bytes = segments_text segments rest \<and>
     replace_spans lo bytes spans replacement = segments_replaced segments replacement rest"
proof (induction lo "length bytes" spans rule: spans_chain.induct)
  case (1 lo)
  show ?case by (rule exI[of _ "[]"]) (simp add: segments_text_def segments_replaced_def)
next
  case (2 lo a e spans)
  then obtain segments rest where IH: "segment_spans e segments = spans" "drop e bytes = segments_text segments rest"
    "replace_spans e bytes spans replacement = segments_replaced segments replacement rest" by auto
  have le: "lo \<le> a" "a < e" "e \<le> length bytes" using 2(2) spans_chain_le by auto
  let ?segment = "(take (a - lo) (drop lo bytes), take (e - a) (drop a bytes))"
  have "drop lo bytes = take (a - lo) (drop lo bytes) @ drop a bytes"
    using le by (metis append_take_drop_id drop_drop le_add_diff_inverse2)
  moreover have "drop a bytes = take (e - a) (drop a bytes) @ drop e bytes"
    using le by (metis append_take_drop_id drop_drop le_add_diff_inverse2 less_imp_le_nat)
  ultimately have "drop lo bytes = segments_text (?segment # segments) rest"
    using IH(2) by (simp add: segments_text_def)
  moreover have "segment_spans lo (?segment # segments) = (a, e) # spans"
    using le IH(1) by (simp add: min_absorb2)
  moreover have "replace_spans lo bytes ((a, e) # spans) replacement =
      segments_replaced (?segment # segments) replacement rest"
    using IH(3) by (simp add: segments_replaced_def)
  ultimately show ?case by blast
qed

lemma splice_ranges_chain:
  assumes A: "allocator_ok A" "allocator_total A"
    and "spans_chain 0 (length bytes) spans" "length bytes \<le> usize_max"
    and "length (replace_spans 0 bytes spans replacement) \<le> usize_max"
  shows "splice_ranges A bytes spans replacement = Returns (replace_spans 0 bytes spans replacement)"
proof -
  obtain segments rest where s: "segment_spans 0 segments = spans" "bytes = segments_text segments rest"
    "replace_spans 0 bytes spans replacement = segments_replaced segments replacement rest"
    using spans_chain_segments[OF assms(3)] by fastforce
  show ?thesis using splice_ranges_segments[OF A, of segments rest replacement] assms(4,5) s by simp
qed

lemma replace_spans_append:
  "spans_chain lo (length data) spans \<Longrightarrow>
   replace_spans (length before + lo) (before @ data @ rest) (map (\<lambda>(a, e). (length before + a, length before + e)) spans)
     replacement = replace_spans lo data spans replacement @ rest"
proof (induction lo "length data" spans rule: spans_chain.induct)
  case (2 lo a e spans)
  have le: "lo \<le> a" "a < e" "e \<le> length data" using 2(2) spans_chain_le by auto
  with 2 show ?case by simp
qed simp

lemma replace_spans_shift:
  assumes "spans_chain 0 (length data) spans" "spans \<noteq> []"
  shows "replace_spans 0 (before @ data @ rest) (map (\<lambda>(a, e). (length before + a, length before + e)) spans) replacement =
    before @ replace_spans 0 data spans replacement @ rest"
proof -
  obtain a e spans' where s: "spans = (a, e) # spans'" using assms(2) by (cases spans) auto
  have le: "a < e" "e \<le> length data" using assms(1) s spans_chain_le by auto
  have "spans_chain e (length data) spans'" using assms(1) s by simp
  from replace_spans_append[OF this, of before rest replacement] show ?thesis using s le by simp
qed

lemma replace_spans_start:
  assumes "spans_chain 0 (length data) spans" "data \<noteq> []" "take 1 replacement = [c]"
  shows "take 1 (replace_spans 0 data spans replacement) \<in> {take 1 data, [c]}"
proof (cases spans)
  case (Cons x spans')
  obtain a e where x: "x = (a, e)" by fastforce
  have "e \<le> length data" "a < e" using assms(1) Cons x spans_chain_le by auto
  then show ?thesis using Cons x assms by (cases a) (auto simp: take_Suc)
qed simp

lemma replace_spans_set:
  "set (replace_spans lo data spans replacement) \<subseteq> set data \<union> set replacement"
  by (induction lo data spans replacement rule: replace_spans.induct)
    (auto dest: in_set_takeD in_set_dropD)

section \<open>The lines of a changed text\<close>

fun lines_ok :: "(byte list \<times> byte list) list \<Rightarrow> bool" where
  "lines_ok [] \<longleftrightarrow> True"
| "lines_ok ((l, t) # ls) \<longleftrightarrow>
     no_eol l \<and> lines_ok ls \<and>
     (t = [10] \<or> t = [13, 10] \<or> t = [13] \<and> take 1 (lines_text ls) \<noteq> [10] \<or> t = [] \<and> l \<noteq> [] \<and> ls = [])"

lemma raw_lines_ok: "lines_ok (raw_lines bytes)"
proof (induction bytes rule: raw_lines_induct)
  case (other c cs)
  then show ?case by (cases "raw_lines cs") (auto simp: raw_lines_other)
qed auto

lemma raw_lines_prefix:
  "no_eol l \<Longrightarrow> raw_lines bytes = ([], t) # ls \<Longrightarrow> raw_lines (l @ bytes) = (l, t) # ls"
  by (induction l) (auto simp: raw_lines_other)

lemma raw_lines_last: "no_eol l \<Longrightarrow> l \<noteq> [] \<Longrightarrow> raw_lines l = [(l, [])]"
proof (induction l)
  case (Cons c l)
  then show ?case by (cases "l = []") (auto simp: raw_lines_other)
qed simp

lemma raw_lines_lines_text: "lines_ok ls \<Longrightarrow> raw_lines (lines_text ls) = ls"
proof (induction ls)
  case (Cons x ls)
  obtain l t where x: "x = (l, t)" by fastforce
  have l: "no_eol l" and IH: "raw_lines (lines_text ls) = ls" using Cons x by auto
  show ?case
  proof (cases "t = []")
    case True
    then show ?thesis using Cons.prems x raw_lines_last[OF l] by simp
  next
    case False
    then have "raw_lines (t @ lines_text ls) = ([], t) # ls" using Cons.prems x IH by auto
    then show ?thesis using x raw_lines_prefix[OF l] by simp
  qed
qed simp

lemma lines_ok_replace:
  assumes "lines_ok (ls1 @ (l, t) # ls2)" "l \<noteq> []" "no_eol l'" "l' \<noteq> []"
  shows "lines_ok (ls1 @ (l', t) # ls2)"
  using assms(1)
proof (induction ls1)
  case Nil
  then show ?case using assms by auto
next
  case (Cons x ls1)
  obtain k s where x: "x = (k, s)" by fastforce
  have "take 1 (lines_text (ls1 @ (l', t) # ls2)) \<noteq> [10]" if "take 1 (lines_text (ls1 @ (l, t) # ls2)) \<noteq> [10]"
  proof (cases "lines_text ls1")
    case Nil
    then show ?thesis using assms(3,4) by (cases l') auto
  qed (use that in auto)
  then show ?case using Cons x by auto
qed

section \<open>A lone data line\<close>

lemma line_field_data:
  assumes "line_field l = Some (bytes_of_string ''data'', v)" "v \<noteq> []"
  obtains u where "l = u @ v"
    "u = bytes_of_string ''data: '' \<or> u = bytes_of_string ''data:'' \<and> take 1 v \<noteq> [32]"
proof -
  define w where "w = drop 5 l"
  have data: "takeWhile (\<lambda>b. b \<noteq> 58) l = bytes_of_string ''data''" and v: "v = (if take 1 w = [32] then tl w else w)"
    using assms(1) by (auto simp: line_field_def Let_def w_def bytes_of_string_def eval_nat_numeral split: if_splits)
  have "l = takeWhile (\<lambda>b. b \<noteq> 58) l @ dropWhile (\<lambda>b. b \<noteq> 58) l" by simp
  then obtain r where r: "l = bytes_of_string ''data'' @ r" "r = dropWhile (\<lambda>b. b \<noteq> 58) l" unfolding data by blast
  have "r = [] \<Longrightarrow> w = []" unfolding w_def r(1) by (simp add: bytes_of_string_def)
  then have "r \<noteq> []" using v assms(2) by auto
  then have "hd r = 58" using r(2) hd_dropWhile[of "\<lambda>b. b \<noteq> 58" l] by simp
  then obtain r' where "r = 58 # r'" using \<open>r \<noteq> []\<close> by (metis list.collapse)
  then have l: "l = bytes_of_string ''data:'' @ w" using r(1) by (simp add: w_def bytes_of_string_def)
  show ?thesis
  proof (cases "take 1 w = [32]")
    case True
    then obtain w' where "w = 32 # w'" by (cases w) auto
    then show ?thesis using that[of "bytes_of_string ''data: ''"] l v True by (simp add: bytes_of_string_def)
  next
    case False
    then show ?thesis using that[of "bytes_of_string ''data:''"] l v by simp
  qed
qed

lemma line_field_data_prefix:
  "line_field (bytes_of_string ''data: '' @ v) = Some (bytes_of_string ''data'', v)"
  "take 1 v \<noteq> [32] \<Longrightarrow> line_field (bytes_of_string ''data:'' @ v) = Some (bytes_of_string ''data'', v)"
  by (simp_all add: line_field_def bytes_of_string_def)

lemma lone_span:
  "named_spans name (spans_from offset ls) = [d] \<Longrightarrow>
   \<exists>ls1 l t ls2. ls = ls1 @ (l, t) # ls2 \<and>
     field_span (offset + length (lines_text ls1)) l = Some (bytes_of_string name, d) \<and>
     values_of name (List.map_filter (\<lambda>(l, t). line_field l) ls1) = [] \<and>
     values_of name (List.map_filter (\<lambda>(l, t). line_field l) ls2) = []"
proof (induction ls arbitrary: offset)
  case (Cons x ls)
  obtain l t where x: "x = (l, t)" by fastforce
  show ?case
  proof (cases "\<exists>d. field_span offset l = Some (bytes_of_string name, d)")
    case True
    then have "field_span offset l = Some (bytes_of_string name, d)"
      and none: "named_spans name (spans_from (offset + length l + length t) ls) = []"
      using Cons.prems x by auto
    moreover have "values_of name (List.map_filter (\<lambda>(l, t). line_field l) ls) = []"
      using named_spans_values[of name "replicate (offset + length l + length t) 0" ls] none by simp
    ultimately show ?thesis using x
      by (intro exI[of _ "[]"] exI[of _ l] exI[of _ t] exI[of _ ls]) (simp add: values_of_def List.map_filter_simps)
  next
    case False
    then have "named_spans name (spans_from (offset + length l + length t) ls) = [d]"
      using Cons.prems x by (cases "field_span offset l") auto
    from Cons.IH[OF this] obtain ls1 l' t' ls2 where IH: "ls = ls1 @ (l', t') # ls2"
      "field_span (offset + length l + length t + length (lines_text ls1)) l' = Some (bytes_of_string name, d)"
      "values_of name (List.map_filter (\<lambda>(l, t). line_field l) ls1) = []"
      "values_of name (List.map_filter (\<lambda>(l, t). line_field l) ls2) = []" by blast
    have "values_of name (List.map_filter (\<lambda>(l, t). line_field l) (x # ls1)) = []"
      using IH(3) False x by (auto simp: values_of_def List.map_filter_simps field_span_def split: option.splits)
    then show ?thesis using IH x
      by (intro exI[of _ "x # ls1"] exI[of _ l'] exI[of _ t'] exI[of _ ls2]) (simp add: add.assoc)
  qed
qed simp

text \<open>Exchanging the value of a lone data line changes that value and no other field.\<close>

lemma lone_data_exchange:
  assumes "named_spans ''data'' (spans_from 0 (raw_lines bytes)) = [d]" "fst d < snd d"
  obtains before rest where "bytes = before @ span_text bytes d @ rest" "fst d = length before"
    "snd d = length before + length (span_text bytes d)"
    "\<And>v. no_eol v \<Longrightarrow> v \<noteq> [] \<Longrightarrow> take 1 v = take 1 (span_text bytes d) \<or> take 1 v \<noteq> [32] \<Longrightarrow>
       values_of ''data'' (event_fields (before @ v @ rest)) = [v] \<and>
       values_of ''event'' (event_fields (before @ v @ rest)) = values_of ''event'' (event_fields bytes)"
proof -
  obtain ls1 l t ls2 where ls: "raw_lines bytes = ls1 @ (l, t) # ls2"
    "field_span (length (lines_text ls1)) l = Some (bytes_of_string ''data'', d)"
    "values_of ''data'' (List.map_filter (\<lambda>(l, t). line_field l) ls1) = []"
    "values_of ''data'' (List.map_filter (\<lambda>(l, t). line_field l) ls2) = []"
    using lone_span[OF assms(1)] by auto
  obtain w where w: "line_field l = Some (bytes_of_string ''data'', w)"
    "d = (length (lines_text ls1) + (length l - length w), length (lines_text ls1) + length l)"
    using ls(2) by (auto simp: field_span_def)
  then have "w \<noteq> []" using assms(2) by auto
  from line_field_data[OF w(1) this] obtain u where u: "l = u @ w"
    "u = bytes_of_string ''data: '' \<or> u = bytes_of_string ''data:'' \<and> take 1 w \<noteq> [32]" by blast
  have bytes: "bytes = lines_text ls1 @ u @ w @ t @ lines_text ls2"
    using lines_text_raw_lines[of bytes] unfolding ls(1) u(1) by simp
  have cut: "span_text bytes d = w" unfolding span_text_def bytes w(2) u(1) by simp
  show ?thesis
  proof (rule that[of "lines_text ls1 @ u" "t @ lines_text ls2"])
    fix v :: "byte list"
    assume v: "no_eol v" "v \<noteq> []" "take 1 v = take 1 (span_text bytes d) \<or> take 1 v \<noteq> [32]"
    have "no_eol (bytes_of_string ''data: '')" "no_eol (bytes_of_string ''data:'')" by (simp_all add: bytes_of_string_def)
    then have "no_eol (u @ v)" using u(2) v(1) by (elim disjE) simp_all
    then have "lines_ok (ls1 @ (u @ v, t) # ls2)"
      using lines_ok_replace[OF raw_lines_ok[of bytes, unfolded ls(1) u(1)], of "u @ v"] v(2) \<open>w \<noteq> []\<close> by simp
    from raw_lines_lines_text[OF this] have raw: "raw_lines ((lines_text ls1 @ u) @ v @ t @ lines_text ls2) = ls1 @ (u @ v, t) # ls2"
      by simp
    have "line_field (u @ v) = Some (bytes_of_string ''data'', v)"
      using u(2) v(3) line_field_data_prefix unfolding cut by auto
    then show "values_of ''data'' (event_fields ((lines_text ls1 @ u) @ v @ t @ lines_text ls2)) = [v] \<and>
        values_of ''event'' (event_fields ((lines_text ls1 @ u) @ v @ t @ lines_text ls2)) = values_of ''event'' (event_fields bytes)"
      unfolding event_fields_def raw ls(1) using ls(3,4) w(1) data_not_event
      by (auto simp: values_of_def List.map_filter_def)
  qed (use cut bytes w(2) u(1) in simp_all)
qed

section \<open>Events with several data lines\<close>

fun rebuilt :: "byte list \<Rightarrow> bool \<Rightarrow> (byte list \<times> byte list) list \<Rightarrow> byte list list" where
  "rebuilt data written [] = []"
| "rebuilt data written ((l, t) # ls) =
     (if is_data_line l
      then (if written then [] else map (\<lambda>p. bytes_of_string ''data: '' @ p) (split_lf data)) @ rebuilt data True ls
      else if l = [] then rebuilt data written ls else l # rebuilt data written ls)"

lemma is_data_line_field:
  "is_data_line l \<longleftrightarrow> (\<exists>v. line_field l = Some (bytes_of_string ''data'', v))"
proof
  assume "is_data_line l"
  then consider "l = bytes_of_string ''data''" | w where "l = bytes_of_string ''data:'' @ w"
    unfolding is_data_line_def by (metis append_take_drop_id)
  then show "\<exists>v. line_field l = Some (bytes_of_string ''data'', v)"
    by cases (simp_all add: line_field_def bytes_of_string_def Let_def)
next
  assume "\<exists>v. line_field l = Some (bytes_of_string ''data'', v)"
  then have data: "takeWhile (\<lambda>b. b \<noteq> 58) l = bytes_of_string ''data''"
    by (auto simp: line_field_def Let_def split: if_splits)
  have l: "l = bytes_of_string ''data'' @ dropWhile (\<lambda>b. b \<noteq> 58) l"
    using takeWhile_dropWhile_id[of "\<lambda>b. b \<noteq> 58" l] unfolding data by simp
  show "is_data_line l"
  proof (cases "dropWhile (\<lambda>b. b \<noteq> 58) l")
    case Nil
    with l have "l = bytes_of_string ''data''" by (metis append_Nil2)
    then show ?thesis unfolding is_data_line_def by blast
  next
    case (Cons c w)
    then have "c = 58" using hd_dropWhile[of "\<lambda>b. b \<noteq> 58" l] by simp
    with Cons l have "l = bytes_of_string ''data'' @ 58 # w" by metis
    then show ?thesis by (simp add: is_data_line_def bytes_of_string_def)
  qed
qed

lemma write_pieces_puts:
  "write_pieces A b pieces =
     puts event_buffer_error A b (concat (map (\<lambda>p. [bytes_of_string ''data: '', p, [10]]) pieces))"
  by (induction A b pieces rule: write_pieces.induct) (simp_all add: bind_exec_assoc)

fun rebuilt_pieces :: "byte list \<Rightarrow> bool \<Rightarrow> (byte list \<times> byte list) list \<Rightarrow> byte list list" where
  "rebuilt_pieces data written [] = []"
| "rebuilt_pieces data written ((l, t) # ls) =
     (if is_data_line l
      then (if written then [] else concat (map (\<lambda>p. [bytes_of_string ''data: '', p, [10]]) (split_lf data))) @
        rebuilt_pieces data True ls
      else if l = [] then rebuilt_pieces data written ls else l # [10] # rebuilt_pieces data written ls)"

lemma rebuilt_pieces_concat:
  "concat (rebuilt_pieces data written ls) = concat (map (\<lambda>l. l @ [10]) (rebuilt data written ls))"
proof -
  have "concat (concat (map (\<lambda>p. [bytes_of_string ''data: '', p, [10]]) ps)) =
      concat (map (\<lambda>l. l @ [10]) (map (\<lambda>p. bytes_of_string ''data: '' @ p) ps))" for ps
    by (induction ps) auto
  then show ?thesis by (induction data written ls rule: rebuilt_pieces.induct) auto
qed

lemma rebuild_lines_puts:
  "raw_lines bytes = ls \<Longrightarrow>
   rebuild_lines A (before @ bytes) data b written (length before) =
     puts event_buffer_error A b (rebuilt_pieces data written ls)"
proof (induction ls arbitrary: before bytes b written)
  case Nil
  then show ?case by (subst rebuild_lines.simps) simp
next
  case (Cons x ls)
  obtain l t where x: "x = (l, t)" by fastforce
  have b: "bytes = l @ t @ lines_text ls" "raw_lines (lines_text ls) = ls"
    using raw_lines_Cons Cons.prems x by blast+
  have ne: "bytes \<noteq> []" using Cons.prems by auto
  have line: "slice_range (before @ bytes) (length before, length before + length l) = Returns l"
    by (simp add: slice_range_def b(1))
  have IH: "rebuild_lines A (before @ bytes) data b' w (length before + length l + length t) =
      puts event_buffer_error A b' (rebuilt_pieces data w ls)" for b' w
    using Cons.IH[OF b(2), of "before @ l @ t" b' w] by (simp add: b(1) add.assoc)
  have blank: "l = [] \<Longrightarrow> rebuild_lines A (before @ bytes) data b' w (length before + length t) =
      puts event_buffer_error A b' (rebuilt_pieces data w ls)" for b' w using IH[of b' w] by simp
  show ?case
    using next_line_lines[OF Cons.prems[unfolded x], of before] ne
    by (subst rebuild_lines.simps) (simp add: x line IH blank write_pieces_puts puts_append)
qed

lemma split_lf_not_Nil: "split_lf data \<noteq> []"
  by (cases data) (auto split: list.splits)

lemma join_split_lf: "join_with [10] (split_lf data) = data"
proof (induction data)
  case (Cons c data)
  obtain p ps where s: "split_lf data = p # ps" using split_lf_not_Nil by (cases "split_lf data") auto
  with Cons show ?case by (cases ps) auto
qed simp

lemma split_lf_no_eol: "13 \<notin> set data \<Longrightarrow> p \<in> set (split_lf data) \<Longrightarrow> no_eol p"
proof (induction data arbitrary: p)
  case (Cons c data)
  obtain q ps where s: "split_lf data = q # ps" using split_lf_not_Nil by (cases "split_lf data") auto
  with Cons show ?case by (cases "c = 10") auto
qed simp

lemma length_split_lf:
  "length (concat (map (\<lambda>p. (bytes_of_string ''data: '' @ p) @ [10]) (split_lf data))) \<le> 8 * length data + 7"
proof (induction data)
  case (Cons c data)
  obtain p ps where s: "split_lf data = p # ps" using split_lf_not_Nil by (cases "split_lf data") auto
  with Cons show ?case by (auto simp: bytes_of_string_def)
qed (simp add: bytes_of_string_def)

lemma length_rebuilt:
  "lines_ok ls \<Longrightarrow>
   length (concat (map (\<lambda>l. l @ [10]) (rebuilt data written ls))) \<le>
     length (lines_text ls) + 1 + (if written then 0 else 8 * length data + 7)"
proof (induction data written ls rule: rebuilt.induct)
  case (2 data written l t ls)
  then show ?case using length_split_lf[of data] by (auto simp: comp_def)
qed auto

lemma values_of_simps [simp]:
  "values_of name [] = []" "values_of name (fs @ fs') = values_of name fs @ values_of name fs'"
  "values_of name ((n, v) # fs) = (if n = bytes_of_string name then v # values_of name fs else values_of name fs)"
  by (simp_all add: values_of_def)

lemma map_filter_append: "List.map_filter f (xs @ ys) = List.map_filter f xs @ List.map_filter f ys"
  by (simp add: List.map_filter_def)

lemma map_filter_fst: "List.map_filter (\<lambda>(l, t). f l) (map (\<lambda>l. (l, t)) ls) = List.map_filter f ls"
  by (simp add: List.map_filter_def filter_map comp_def)

lemma line_field_Nil [simp]: "line_field [] = None"
  by (simp add: line_field_def)

lemma data_piece_fields:
  "List.map_filter line_field (map (\<lambda>p. bytes_of_string ''data: '' @ p) ps) =
     map (\<lambda>p. (bytes_of_string ''data'', p)) ps"
  by (induction ps) (simp_all add: List.map_filter_simps line_field_data_prefix)

lemma data_piece_values:
  "values_of ''data'' (map (\<lambda>p. (bytes_of_string ''data'', p)) ps) = ps"
  "values_of ''event'' (map (\<lambda>p. (bytes_of_string ''data'', p)) ps) = []"
  using data_not_event by (induction ps) auto

lemma rebuilt_fields:
  "values_of ''event'' (List.map_filter line_field (rebuilt data written ls)) =
     values_of ''event'' (List.map_filter (\<lambda>(l, t). line_field l) ls)"
  "values_of ''data'' (List.map_filter line_field (rebuilt data written ls)) =
     (if written \<or> values_of ''data'' (List.map_filter (\<lambda>(l, t). line_field l) ls) = [] then [] else split_lf data)"
proof (induction data written ls rule: rebuilt.induct)
  case (2 data written l t ls)
  note IH = 2
  case 1
  show ?case using IH data_not_event
    by (cases "line_field l"; cases "l = []") (auto simp: List.map_filter_simps map_filter_append data_piece_fields data_piece_values
        is_data_line_field)
  case 2
  show ?case using IH data_not_event
    by (cases "line_field l"; cases "l = []") (auto simp: List.map_filter_simps map_filter_append data_piece_fields data_piece_values
        is_data_line_field split_lf_not_Nil)
qed (simp_all add: List.map_filter_simps)

lemma rebuilt_no_eol:
  "lines_ok ls \<Longrightarrow> 13 \<notin> set data \<Longrightarrow> l \<in> set (rebuilt data written ls) \<Longrightarrow> no_eol l"
proof (induction data written ls rule: rebuilt.induct)
  case (2 data written k t ls)
  have "no_eol (bytes_of_string ''data: '')" by (simp add: bytes_of_string_def)
  with 2 show ?case by (auto simp: split_lf_no_eol split: if_splits)
qed simp

lemma raw_lines_terminated:
  assumes "\<forall>l \<in> set ls. no_eol l"
  shows "raw_lines (concat (map (\<lambda>l. l @ [10]) ls)) = map (\<lambda>l. (l, [10])) ls"
proof -
  have "lines_ok (map (\<lambda>l. (l, [10])) ls)" using assms by (induction ls) auto
  from raw_lines_lines_text[OF this] show ?thesis by (simp add: lines_text_def comp_def)
qed

lemma rebuild_frame_correct:
  assumes A: "allocator_ok A" "allocator_total A" and data: "13 \<notin> set data"
    and some: "values_of ''data'' (event_fields bytes) \<noteq> []"
    and fits: "length bytes + 8 * length data + 9 \<le> usize_max"
  shows "\<exists>out. rebuild_frame A bytes data = Returns out \<and> values_of ''data'' (event_fields out) = split_lf data \<and>
    values_of ''event'' (event_fields out) = values_of ''event'' (event_fields bytes)"
proof -
  let ?lines = "rebuilt data False (raw_lines bytes)"
  let ?pieces = "rebuilt_pieces data False (raw_lines bytes) @ [[10]]"
  define out where "out = concat (map (\<lambda>l. l @ [10]) ?lines) @ [10]"
  have concat: "concat ?pieces = out" by (simp add: rebuilt_pieces_concat out_def)
  have "length out \<le> usize_max"
    using length_rebuilt[OF raw_lines_ok[of bytes], of data False] fits by (simp add: out_def)
  then have "rebuild_frame A bytes data = Returns out"
    using fits rebuild_lines_puts[OF refl, of A "[]" bytes data _ False]
      fresh_puts[OF A(2,1) _ order_refl, of ?pieces event_buffer_error "Some (length bytes + length data)", unfolded concat]
    by (simp add: rebuild_frame_def checked_add_usize_def puts_append bind_exec_assoc)
  moreover have "raw_lines out = map (\<lambda>l. (l, [10])) (?lines @ [[]])"
  proof -
    have "\<forall>l \<in> set (?lines @ [[]]). no_eol l" using rebuilt_no_eol[OF raw_lines_ok data] by auto
    from raw_lines_terminated[OF this] show ?thesis by (simp add: out_def)
  qed
  ultimately have "rebuild_frame A bytes data = Returns out" "event_fields out = List.map_filter line_field ?lines"
    by (simp_all add: event_fields_def map_filter_fst map_filter_append List.map_filter_simps del: map_append)
  then show ?thesis using some rebuilt_fields[of data False "raw_lines bytes"] by (simp add: event_fields_def)
qed

section \<open>Properties\<close>

text \<open>What the JSON library promises about a quoted string: it begins with a quotation mark and has
  no line end.\<close>

definition quote_ok :: "json_lib \<Rightarrow> bool" where
  "quote_ok L \<longleftrightarrow> (\<forall>t. no_eol (concat (jl_quote L t)) \<and> take 1 (concat (jl_quote L t)) = [34])"

definition event_data :: "byte list \<Rightarrow> byte list" where
  "event_data bytes = join_with [10] (values_of ''data'' (event_fields bytes))"

definition event_name :: "byte list \<Rightarrow> byte list option" where
  "event_name bytes = last_of (values_of ''event'' (event_fields bytes))"

definition with_model :: "json_lib \<Rightarrow> byte list \<Rightarrow> byte list \<Rightarrow> byte list" where
  "with_model L data public_model =
     replace_spans 0 data (model_places L data public_model) (concat (jl_quote L public_model))"

lemma event_values_no_eol: "v \<in> set (values_of name (event_fields bytes)) \<Longrightarrow> no_eol v"
proof -
  assume "v \<in> set (values_of name (event_fields bytes))"
  then obtain l t n where l: "(l, t) \<in> set (raw_lines bytes)" "line_field l = Some (n, v)"
    by (auto simp: values_of_def event_fields_def List.map_filter_def)
  obtain u where "l = u @ v" using line_field_suffix[OF l(2)] by blast
  then show ?thesis using raw_lines_no_eol[OF l(1)] by simp
qed

lemma event_data_no_cr: "13 \<notin> set (event_data bytes)"
proof -
  have "set (join_with [10] vs) \<subseteq> {10} \<union> (\<Union>v \<in> set vs. set v)" for vs :: "byte list list"
    by (induction "[10] :: byte list" vs rule: join_with.induct) auto
  then show ?thesis using event_values_no_eol[of _ "''data''" bytes] by (force simp: event_data_def no_eol_def)
qed

lemma parsed_json_slices:
  assumes A: "allocator_ok A" "allocator_total A" and len: "length (sl_bytes frame) \<le> usize_max"
    and parsed: "parse_event_payload L A addr frame = Returns (SE_Json d)"
  shows "jd_data d = snd (event_slices addr frame)" "sl_bytes (jd_data d) = event_data (sl_bytes frame)"
    "values_of ''data'' (event_fields (sl_bytes frame)) \<notin> {[], [[]]}"
proof -
  show ne: "values_of ''data'' (event_fields (sl_bytes frame)) \<notin> {[], [[]]}" and d: "jd_data d = snd (event_slices addr frame)"
    using parsed unfolding parse_event_payload_closed[OF A len] by (auto simp: classify_data_def split: if_splits)
  show "sl_bytes (jd_data d) = event_data (sl_bytes frame)"
    using event_slices_bytes(2)[of frame addr] ne by (simp add: d event_data_def)
qed

lemma lone_data_span:
  assumes "length (values_of ''data'' (event_fields bytes)) = 1"
  obtains s where "named_spans ''data'' (spans_from 0 (raw_lines bytes)) = [s]" "span_in bytes s"
    "event_data bytes = span_text bytes s" "values_of ''data'' (event_fields bytes) = [event_data bytes]"
proof -
  have "length (named_spans ''data'' (spans_from 0 (raw_lines bytes))) = 1"
    using assms arg_cong[OF event_spans(2)[of bytes "''data''"], of length] by simp
  then obtain s where s: "named_spans ''data'' (spans_from 0 (raw_lines bytes)) = [s]"
    by (cases "named_spans ''data'' (spans_from 0 (raw_lines bytes))") auto
  moreover have "values_of ''data'' (event_fields bytes) = [span_text bytes s]"
    unfolding event_spans(2)[symmetric] s by simp
  moreover have "span_in bytes s" using event_spans(1)[of s "''data''" bytes] s by simp
  ultimately show ?thesis using that by (simp add: event_data_def)
qed

lemma span_text_part:
  assumes "span_in bytes s"
  shows "\<exists>before rest. bytes = before @ span_text bytes s @ rest"
proof -
  have "bytes = take (fst s) bytes @ span_text bytes s @ drop (snd s - fst s) (drop (fst s) bytes)"
    by (simp add: span_text_def del: drop_drop)
  then show ?thesis by blast
qed

lemma with_model_text:
  assumes L: "json_lib_ok L" "quote_ok L" and "data \<noteq> []"
  shows "take 1 (with_model L data public_model) \<in> {take 1 data, [34]}" "with_model L data public_model \<noteq> []"
    "set (with_model L data public_model) \<subseteq> set data \<union> set (concat (jl_quote L public_model))"
proof -
  have q: "take 1 (concat (jl_quote L public_model)) = [34]" using L(2) by (simp add: quote_ok_def)
  show start: "take 1 (with_model L data public_model) \<in> {take 1 data, [34]}"
    unfolding with_model_def by (rule replace_spans_start[OF model_places_chain[OF L(1)] assms(3) q])
  show "with_model L data public_model \<noteq> []" using start assms(3) by auto
  show "set (with_model L data public_model) \<subseteq> set data \<union> set (concat (jl_quote L public_model))"
    unfolding with_model_def by (rule replace_spans_set)
qed

lemma splice_inside:
  assumes A: "allocator_ok A" "allocator_total A" and L: "json_lib_ok L"
    and places: "model_places L data public_model \<noteq> []"
    and fits: "length (before @ data @ rest) + length (with_model L data public_model) \<le> usize_max"
  shows "splice_ranges A (before @ data @ rest)
      (map (\<lambda>(a, e). (length before + a, length before + e)) (model_places L data public_model)) (concat (jl_quote L public_model)) =
    Returns (before @ with_model L data public_model @ rest)"
proof -
  note chain = model_places_chain[OF L, of data public_model]
  have "spans_chain 0 (length (before @ data @ rest))
      (map (\<lambda>(a, e). (length before + a, length before + e)) (model_places L data public_model))"
    by (rule spans_chain_mono[OF spans_chain_shift[of "length before" 0 "length data", THEN iffD2, OF chain]]) simp_all
  from splice_ranges_chain[OF A this, of "concat (jl_quote L public_model)"] show ?thesis
    using fits unfolding replace_spans_shift[OF chain places] with_model_def[symmetric] by simp
qed

lemma rewrite_lone_line:
  assumes A: "allocator_ok A" "allocator_total A" and L: "json_lib_ok L" "quote_ok L"
    and data_def: "data = event_data (sl_bytes frame)" and new_def: "new = with_model L data public_model"
    and fits: "length (sl_bytes frame) + 8 * length new + 9 \<le> usize_max"
    and parsed: "parse_event_payload L A addr frame = Returns (SE_Json d)"
    and lone: "length (values_of ''data'' (event_fields (sl_bytes frame))) = 1"
    and places: "model_places L data public_model \<noteq> []"
  shows "\<exists>before rest. sl_bytes frame = before @ data @ rest \<and>
    rewrite_known_model L A frame (SE_Json d) public_model = Returns (before @ new @ rest) \<and>
    event_data (before @ new @ rest) = new \<and> event_name (before @ new @ rest) = event_name (sl_bytes frame)"
proof -
  let ?bytes = "sl_bytes frame"
  have len: "length ?bytes \<le> usize_max" using fits by simp
  note slices = parsed_json_slices[OF A len parsed, folded data_def]
  obtain s where s: "named_spans ''data'' (spans_from 0 (raw_lines ?bytes)) = [s]" "span_in ?bytes s"
    and data: "data = span_text ?bytes s" "values_of ''data'' (event_fields ?bytes) = [data]"
    using lone_data_span[OF lone] unfolding data_def by metis
  have ne: "data \<noteq> []" using slices(3) data(2) by auto
  then have "fst s < snd s" using length_span_text[OF s(2)] data(1) by (cases "fst s < snd s") auto
  from lone_data_exchange[OF s(1) this] obtain before rest where parts: "?bytes = before @ data @ rest"
    "fst s = length before" "snd s = length before + length data"
    and exchange: "\<And>v. no_eol v \<Longrightarrow> v \<noteq> [] \<Longrightarrow> take 1 v = take 1 data \<or> take 1 v \<noteq> [32] \<Longrightarrow>
       values_of ''data'' (event_fields (before @ v @ rest)) = [v] \<and>
       values_of ''event'' (event_fields (before @ v @ rest)) = values_of ''event'' (event_fields ?bytes)"
    unfolding data(1)[symmetric] by blast
  have "no_eol new" unfolding new_def
    using with_model_text(3)[OF L ne, of public_model] event_values_no_eol[of data "''data''" ?bytes] data(2) L(2)
    by (fastforce simp: no_eol_def quote_ok_def)
  then have "values_of ''data'' (event_fields (before @ new @ rest)) = [new]"
    "values_of ''event'' (event_fields (before @ new @ rest)) = values_of ''event'' (event_fields ?bytes)"
    using exchange[of new] with_model_text(1,2)[OF L ne, of public_model] by (auto simp: new_def)
  moreover have "rewrite_known_model L A frame (SE_Json d) public_model = Returns (before @ new @ rest)"
  proof -
    have "jd_data d = sub_slice frame (length before) (length data)"
      using slices(1) s(1) parts(2,3) by (simp add: event_slices_def Let_def)
    then have "subslice_range frame (jd_data d) = Some (length before, length before + length data)"
      using subslice_range_sub_slice[of "length before" "length data" frame] parts(1) len by simp
    moreover have "model_spans L (jd_data d) public_model = model_places L data public_model"
      using model_spans_places[OF L(1), of "jd_data d"] slices(2) parts(1) len by simp
    ultimately show ?thesis
      using splice_inside[OF A L(1) places, of before rest] parts(1) fits places
      by (simp add: rewrite_known_model_def new_def)
  qed
  ultimately show ?thesis using parts(1)
    by (intro exI[of _ before] exI[of _ rest]) (simp add: event_data_def event_name_def)
qed

lemma rewrite_several_lines:
  assumes A: "allocator_ok A" "allocator_total A" and L: "json_lib_ok L" "quote_ok L"
    and data_def: "data = event_data (sl_bytes frame)" and new_def: "new = with_model L data public_model"
    and fits: "length (sl_bytes frame) + 8 * length new + 9 \<le> usize_max"
    and apart: "sl_addr frame + length (sl_bytes frame) \<le> addr"
    and parsed: "parse_event_payload L A addr frame = Returns (SE_Json d)"
    and several: "length (values_of ''data'' (event_fields (sl_bytes frame))) \<noteq> 1"
    and places: "model_places L data public_model \<noteq> []"
  shows "\<exists>out. rewrite_known_model L A frame (SE_Json d) public_model = Returns out \<and>
    event_data out = new \<and> event_name out = event_name (sl_bytes frame)"
proof -
  let ?bytes = "sl_bytes frame" and ?vs = "values_of ''data'' (event_fields (sl_bytes frame))"
  have len: "length ?bytes \<le> usize_max" using fits by simp
  note slices = parsed_json_slices[OF A len parsed, folded data_def]
  obtain v w vs where vs: "?vs = v # w # vs"
    using slices(3) several by (cases ?vs; cases "tl ?vs") auto
  have ne: "data \<noteq> []" unfolding data_def event_data_def vs by simp
  have "tl (named_spans ''data'' (spans_from 0 (raw_lines ?bytes))) \<noteq> []"
    using vs unfolding event_spans(2)[symmetric] by auto
  then have d: "jd_data d = \<lparr> sl_addr = addr, sl_bytes = data \<rparr>"
    unfolding slices(1) by (simp add: event_slices_def Let_def data_def event_data_def)
  have dlen: "length data \<le> usize_max"
    using event_data_bound[of ?bytes] len by (simp add: data_def event_data_def)
  have "subslice_range frame (jd_data d) = None"
    using subslice_range_disjoint[of "jd_data d" frame] apart ne d by simp
  moreover have "model_spans L (jd_data d) public_model = model_places L data public_model"
    using model_spans_places[OF L(1), of "jd_data d"] dlen by (simp add: d)
  moreover have "splice_ranges A data (model_places L data public_model) (concat (jl_quote L public_model)) = Returns new"
    using splice_ranges_chain[OF A model_places_chain[OF L(1)] dlen] fits by (simp add: new_def with_model_def)
  ultimately have rewrite: "rewrite_known_model L A frame (SE_Json d) public_model = rebuild_frame A ?bytes new"
    using places by (simp add: rewrite_known_model_def d)
  have "13 \<notin> set new"
    using with_model_text(3)[OF L ne, of public_model] event_data_no_cr[of ?bytes] L(2)
    by (fastforce simp: new_def data_def quote_ok_def no_eol_def)
  from rebuild_frame_correct[OF A this _ fits] obtain out where "rebuild_frame A ?bytes new = Returns out"
    "values_of ''data'' (event_fields out) = split_lf new"
    "values_of ''event'' (event_fields out) = values_of ''event'' (event_fields ?bytes)" using vs by auto
  then show ?thesis unfolding rewrite
    by (intro exI[of _ out]) (simp add: event_data_def event_name_def join_split_lf)
qed


text \<open>A library that knows one text, the object whose member \<open>model\<close> is the string \<open>x\<close>, and an event with
  that text.\<close>

definition wire_data :: "byte list" where
  "wire_data = [123, 34, 120, 34, 125]"

definition wire_json :: json_lib where
  "wire_json =
     \<lparr> jl_object = (\<lambda>text. ([], False)),
       jl_scan = (\<lambda>names text. if text = wire_data then ([(bytes_of_string ''model'', 1, 3)], True) else ([], False)),
       jl_valid = (\<lambda>text. text = wire_data),
       jl_string = (\<lambda>text. if text = [34, 120, 34] then Some [120] else None),
       jl_array = (\<lambda>text. None),
       jl_quote = (\<lambda>text. [[34], filter (\<lambda>b. b \<noteq> 10 \<and> b \<noteq> 13) text, [34]]) \<rparr>"

definition wire_frame :: slice where
  "wire_frame = \<lparr> sl_addr = 500, sl_bytes = bytes_of_string ''data: '' @ wire_data @ [10, 10] \<rparr>"

lemma wire_json_ok: "json_lib_ok wire_json" "quote_ok wire_json"
  by (auto simp: json_lib_ok_def quote_ok_def wire_json_def wire_data_def no_eol_def)

lemma wire_frame_fields:
  "event_fields (sl_bytes wire_frame) = [(bytes_of_string ''data'', wire_data)]"
  by (simp add: event_fields_def wire_frame_def bytes_of_string_def raw_lines_other line_field_def
      List.map_filter_simps Let_def wire_data_def)

lemma wire_new:
  "model_places wire_json wire_data [121] = [(1, 4)]" "with_model wire_json wire_data [121] = [123, 34, 121, 34, 125]"
  by (simp_all add: with_model_def model_places_def string_place_def json_string_def wire_json_def wire_data_def)


text \<open>Restoring the public model name in a response body replaces exactly the value of the last top-level
  \<open>model\<close> field and keeps every other byte; a body without such a field, or whose model already is the public one,
  is passed on as it came.\<close>

lemma body_model_rewrite_exact:
  fixes L :: json_lib
  assumes "allocator_ok A" "allocator_total A" "json_lib_ok L"
    and "length (sl_bytes body) + length (concat (jl_quote L public_model)) \<le> usize_max"
  shows "rewrite_body_model L A body public_model = Returns
    (case map_of (rev (entry_spans (fst (jl_scan L [bytes_of_string ''model''] (sl_bytes body))))) (bytes_of_string ''model'') of
       None \<Rightarrow> sl_bytes body
     | Some (a, e) \<Rightarrow>
         if json_string L (sub_slice body a (e - a)) = Some public_model then sl_bytes body
         else take a (sl_bytes body) @ concat (jl_quote L public_model) @ drop e (sl_bytes body))"
proof (cases "map_of (rev (entry_spans (fst (jl_scan L [bytes_of_string ''model''] (sl_bytes body))))) (bytes_of_string ''model'')")
  case None
  then show ?thesis by (simp add: rewrite_body_model_def object_field_raw_last)
next
  case (Some span)
  obtain a e where span: "span = (a, e)" by fastforce
  obtain n where n: "(bytes_of_string ''model'', a, n) \<in> set (fst (jl_scan L [bytes_of_string ''model''] (sl_bytes body)))"
    "e = a + n" using map_of_SomeD[OF Some[unfolded span]] by (auto simp: entry_spans_def)
  have bound: "0 < n" "a + n \<le> length (sl_bytes body)" using scan_entry_bound[OF assms(3) n(1)] by auto
  have "splice_ranges A (sl_bytes body) [(a, e)] (concat (jl_quote L public_model)) =
      Returns (take a (sl_bytes body) @ concat (jl_quote L public_model) @ drop e (sl_bytes body))"
    using splice_ranges_chain[OF assms(1,2), of "sl_bytes body" "[(a, e)]" "concat (jl_quote L public_model)"] bound n(2) assms(4)
    by simp
  moreover have "subslice_range body (sub_slice body a (e - a)) = Some (a, e)"
    using subslice_range_sub_slice[of a n body] bound n(2) assms(4) by simp
  ultimately show ?thesis using Some span by (simp add: rewrite_body_model_def object_field_raw_last)
qed

end
