(* ===== verification/Process_Lifecycle.thy ===== *)
theory Process_Lifecycle
  imports Gateway_Prelude
begin

text \<open>
  Shutdown and memory reclamation of the process: \<open>crates/runtime/src/lifecycle/process.rs\<close>, the
  last steps of a shutdown (\<open>app/any2api/src/shutdown/finalization.rs\<close>) and the worker that gives
  freed memory back (\<open>app/any2api/src/bootstrap/native_memory_reclamation.rs\<close>).

  Requests, background tasks, callers of the shutdown operations and the worker run concurrently.
  Every access to a shared atomic, tracker or notification is one step; an actor's constructor says
  where in its code it stands, and \<open>lc_step\<close> interleaves the actors in any order. The trackers and
  the notification belong to the asynchronous runtime and are a parameter (\<open>sync_lib\<close>) with the
  documented behaviour as the hypothesis \<open>sync_ok\<close>. Cancellation tokens are flags. Every blocker
  owns memory, so their number does not overflow.
\<close>

section \<open>State\<close>

datatype shutdown_phase = SP_Running | SP_Draining | SP_Forced

fun phase_as_str :: "shutdown_phase \<Rightarrow> string" where
  "phase_as_str SP_Running = ''running''"
| "phase_as_str SP_Draining = ''draining''"
| "phase_as_str SP_Forced = ''forced''"

record ('t, 'n) sync_lib =
  tk_new :: 't
  tk_token :: "'t \<Rightarrow> 't"
  tk_drop :: "'t \<Rightarrow> 't"
  tk_close :: "'t \<Rightarrow> 't"
  tk_len :: "'t \<Rightarrow> nat"
  tk_closed :: "'t \<Rightarrow> bool"
  nt_new :: 'n
  nt_notify_one :: "'n \<Rightarrow> 'n"
  nt_notified :: "'n \<Rightarrow> 'n option"

text \<open>A tracker counts its tokens and can be closed for good, which refuses no token; waiting on it
  ends when it is closed and empty. Waiting on a notification ends only with a stored permit, and
  \<open>notify_one\<close> stores one.\<close>

definition sync_ok :: "('t, 'n) sync_lib \<Rightarrow> bool" where
  "sync_ok Y \<longleftrightarrow>
     tk_len Y (tk_new Y) = 0 \<and> \<not> tk_closed Y (tk_new Y) \<and>
     (\<forall>t. tk_len Y (tk_token Y t) = tk_len Y t + 1 \<and> tk_closed Y (tk_token Y t) = tk_closed Y t) \<and>
     (\<forall>t. tk_len Y (tk_drop Y t) = tk_len Y t - 1 \<and> tk_closed Y (tk_drop Y t) = tk_closed Y t) \<and>
     (\<forall>t. tk_len Y (tk_close Y t) = tk_len Y t \<and> tk_closed Y (tk_close Y t)) \<and>
     (\<forall>n. nt_notified Y (nt_notify_one Y n) \<noteq> None)"

record memory_reclamation_metrics =
  mm_blockers :: nat
  mm_completed_runs :: "64 word"
  mm_last_duration_micros :: nat

record 'n memory_reclamation_state =
  mr_blockers :: nat
  mr_requested :: 'n
  mr_completed_runs :: "64 word"
  mr_last_duration_micros :: nat

record ('t, 'n) lifecycle_inner =
  lc_phase :: shutdown_phase
  lc_activity_epoch :: "64 word"
  lc_memory_reclamation :: "'n memory_reclamation_state"
  lc_requests :: 't
  lc_background :: 't
  lc_draining :: bool
  lc_forced :: bool

definition lifecycle_new :: "('t, 'n) sync_lib \<Rightarrow> ('t, 'n) lifecycle_inner" where
  "lifecycle_new Y =
     \<lparr> lc_phase = SP_Running, lc_activity_epoch = 0,
       lc_memory_reclamation =
         \<lparr> mr_blockers = 0, mr_requested = nt_new Y, mr_completed_runs = 0, mr_last_duration_micros = 0 \<rparr>,
       lc_requests = tk_new Y, lc_background = tk_new Y, lc_draining = False, lc_forced = False \<rparr>"

abbreviation blockers_of :: "('t, 'n) lifecycle_inner \<Rightarrow> nat" where
  "blockers_of lc \<equiv> mr_blockers (lc_memory_reclamation lc)"

section \<open>Atomic actions\<close>

definition update_reclamation ::
  "('n memory_reclamation_state \<Rightarrow> 'n memory_reclamation_state) \<Rightarrow> ('t, 'n) lifecycle_inner \<Rightarrow> ('t, 'n) lifecycle_inner" where
  "update_reclamation f lc = lc\<lparr>lc_memory_reclamation := f (lc_memory_reclamation lc)\<rparr>"

definition request_notify :: "('t, 'n) sync_lib \<Rightarrow> ('t, 'n) lifecycle_inner \<Rightarrow> ('t, 'n) lifecycle_inner" where
  "request_notify Y = update_reclamation (\<lambda>m. m\<lparr>mr_requested := nt_notify_one Y (mr_requested m)\<rparr>)"

definition blocker_new :: "('t, 'n) lifecycle_inner \<Rightarrow> ('t, 'n) lifecycle_inner" where
  "blocker_new = update_reclamation (\<lambda>m. m\<lparr>mr_blockers := mr_blockers m + 1\<rparr>)"

text \<open>The subtraction of a release, with the previous number.\<close>

definition blocker_subtract :: "('t, 'n) lifecycle_inner \<Rightarrow> ('t, 'n) lifecycle_inner \<times> nat" where
  "blocker_subtract lc =
     (update_reclamation (\<lambda>m. m\<lparr>mr_blockers := mr_blockers m - 1\<rparr>) lc, blockers_of lc)"

definition activity_add :: "('t, 'n) lifecycle_inner \<Rightarrow> ('t, 'n) lifecycle_inner" where
  "activity_add lc = lc\<lparr>lc_activity_epoch := lc_activity_epoch lc + 1\<rparr>"

definition request_token :: "('t, 'n) sync_lib \<Rightarrow> ('t, 'n) lifecycle_inner \<Rightarrow> ('t, 'n) lifecycle_inner" where
  "request_token Y lc = lc\<lparr>lc_requests := tk_token Y (lc_requests lc)\<rparr>"

definition request_token_drop :: "('t, 'n) sync_lib \<Rightarrow> ('t, 'n) lifecycle_inner \<Rightarrow> ('t, 'n) lifecycle_inner" where
  "request_token_drop Y lc = lc\<lparr>lc_requests := tk_drop Y (lc_requests lc)\<rparr>"

definition requests_close :: "('t, 'n) sync_lib \<Rightarrow> ('t, 'n) lifecycle_inner \<Rightarrow> ('t, 'n) lifecycle_inner" where
  "requests_close Y lc = lc\<lparr>lc_requests := tk_close Y (lc_requests lc)\<rparr>"

section \<open>Operations without interference\<close>

definition begin_draining ::
  "('t, 'n) sync_lib \<Rightarrow> ('t, 'n) lifecycle_inner \<Rightarrow> ('t, 'n) lifecycle_inner \<times> bool" where
  "begin_draining Y lc =
     (if lc_phase lc \<noteq> SP_Running then (lc, False)
      else ((requests_close Y (lc\<lparr>lc_phase := SP_Draining\<rparr>))\<lparr>lc_draining := True\<rparr>, True))"

definition force ::
  "('t, 'n) sync_lib \<Rightarrow> ('t, 'n) lifecycle_inner \<Rightarrow> ('t, 'n) lifecycle_inner \<times> bool" where
  "force Y lc =
     (if lc_phase lc = SP_Forced then (lc, False)
      else ((requests_close Y (lc\<lparr>lc_phase := SP_Forced\<rparr>))\<lparr>lc_draining := True, lc_forced := True\<rparr>, True))"

definition record_activity :: "('t, 'n) sync_lib \<Rightarrow> ('t, 'n) lifecycle_inner \<Rightarrow> ('t, 'n) lifecycle_inner" where
  "record_activity Y lc =
     (let lc = activity_add lc in if blockers_of lc = 0 then request_notify Y lc else lc)"

text \<open>A guard is whether its blocker is still there.\<close>

definition blocker_release ::
  "('t, 'n) sync_lib \<Rightarrow> bool \<Rightarrow> ('t, 'n) lifecycle_inner \<Rightarrow> ('t, 'n) lifecycle_inner" where
  "blocker_release Y held lc =
     (if \<not> held then lc
      else (let (lc, previous) = blocker_subtract lc in if previous = 1 then request_notify Y lc else lc))"

definition track_request ::
  "('t, 'n) sync_lib \<Rightarrow> ('t, 'n) lifecycle_inner \<Rightarrow> ('t, 'n) lifecycle_inner \<times> bool option" where
  "track_request Y lc =
     (if lc_phase lc \<noteq> SP_Running then (lc, None)
      else (let lc = request_token Y (blocker_new lc)
            in if lc_phase lc \<noteq> SP_Running
               then (blocker_release Y True (request_token_drop Y lc), None)
               else (record_activity Y lc, Some True)))"

definition release_memory_reclamation_blocker ::
  "('t, 'n) sync_lib \<Rightarrow> bool \<Rightarrow> ('t, 'n) lifecycle_inner \<Rightarrow> ('t, 'n) lifecycle_inner \<times> bool" where
  "release_memory_reclamation_blocker Y held lc = (blocker_release Y held lc, False)"

definition guard_drop ::
  "('t, 'n) sync_lib \<Rightarrow> bool \<Rightarrow> ('t, 'n) lifecycle_inner \<Rightarrow> ('t, 'n) lifecycle_inner" where
  "guard_drop Y held lc = blocker_release Y held (request_token_drop Y lc)"

definition active_requests :: "('t, 'n) sync_lib \<Rightarrow> ('t, 'n) lifecycle_inner \<Rightarrow> nat" where
  "active_requests Y lc = tk_len Y (lc_requests lc)"

definition wait_for_requests :: "('t, 'n) sync_lib \<Rightarrow> ('t, 'n) lifecycle_inner \<Rightarrow> bool" where
  "wait_for_requests Y lc \<longleftrightarrow> tk_closed Y (lc_requests lc) \<and> tk_len Y (lc_requests lc) = 0"

definition close_background_tasks ::
  "('t, 'n) sync_lib \<Rightarrow> ('t, 'n) lifecycle_inner \<Rightarrow> ('t, 'n) lifecycle_inner" where
  "close_background_tasks Y lc = lc\<lparr>lc_background := tk_close Y (lc_background lc)\<rparr>"

definition background_task_count :: "('t, 'n) sync_lib \<Rightarrow> ('t, 'n) lifecycle_inner \<Rightarrow> nat" where
  "background_task_count Y lc = tk_len Y (lc_background lc)"

definition wait_for_background_tasks :: "('t, 'n) sync_lib \<Rightarrow> ('t, 'n) lifecycle_inner \<Rightarrow> bool" where
  "wait_for_background_tasks Y lc \<longleftrightarrow> tk_closed Y (lc_background lc) \<and> tk_len Y (lc_background lc) = 0"

text \<open>Spawning a background task takes a token of the tracker and its end gives it back. What the task
  returns: its own output, or nothing when the signal it watches wins.\<close>

definition background_spawn :: "('t, 'n) sync_lib \<Rightarrow> ('t, 'n) lifecycle_inner \<Rightarrow> ('t, 'n) lifecycle_inner" where
  "background_spawn Y lc = lc\<lparr>lc_background := tk_token Y (lc_background lc)\<rparr>"

definition background_finish :: "('t, 'n) sync_lib \<Rightarrow> ('t, 'n) lifecycle_inner \<Rightarrow> ('t, 'n) lifecycle_inner" where
  "background_finish Y lc = lc\<lparr>lc_background := tk_drop Y (lc_background lc)\<rparr>"

definition record_memory_reclamation ::
  "duration \<Rightarrow> ('t, 'n) lifecycle_inner \<Rightarrow> ('t, 'n) lifecycle_inner" where
  "record_memory_reclamation duration =
     update_reclamation (\<lambda>m. m\<lparr>mr_last_duration_micros := min (duration div 1000) u64_max,
       mr_completed_runs := mr_completed_runs m + 1\<rparr>)"

definition memory_reclamation_metrics_of :: "('t, 'n) lifecycle_inner \<Rightarrow> memory_reclamation_metrics" where
  "memory_reclamation_metrics_of lc =
     \<lparr> mm_blockers = blockers_of lc,
       mm_completed_runs = mr_completed_runs (lc_memory_reclamation lc),
       mm_last_duration_micros = mr_last_duration_micros (lc_memory_reclamation lc) \<rparr>"

section \<open>The reclamation worker\<close>

definition pending_activity :: "64 word \<Rightarrow> 64 word \<Rightarrow> nat \<Rightarrow> 64 word option" where
  "pending_activity last_reclaimed activity_epoch reclamation_blockers =
     (if reclamation_blockers \<noteq> 0 \<or> activity_epoch = last_reclaimed then None else Some activity_epoch)"

text \<open>Where the worker stands: waiting for a request, sleeping out the cooldown, between its two
  loads, freeing memory, or ended.\<close>

datatype reclaim_worker =
  WK_Wait | WK_Sleep | WK_Loaded "64 word" | WK_Reclaim "64 word" | WK_Ended

section \<open>Actors\<close>

text \<open>
  Where a request stands: after the first check of the phase, with its blocker, with its token too,
  after the second check, after counting its activity, before notifying, and with its guard (and
  whether the guard still has the blocker). On the way out: before dropping the token, before
  dropping the blocker, and before the notification for the last blocker (and whether the guard
  lives on). \<open>BG\<close> are recorders of background activity. \<open>SD\<close> are callers inside \<open>begin_draining\<close> and
  \<open>force\<close>; \<open>FN\<close> is the finalization, which calls both.
\<close>

datatype after_shutdown = AS_Return | AS_Inspect | AS_WaitRequests | AS_WaitBackground

datatype lc_actor =
    RQ_Checked | RQ_Blocked | RQ_Token | RQ_Admitted | RQ_Counted | RQ_Notify | RQ_Guard bool
  | RQ_TokenDrop bool | RQ_BlockerDrop | RQ_Signal bool
  | BG_Counted | BG_Notify
  | SD_DrainClose after_shutdown | SD_DrainCancel after_shutdown
  | SD_ForceClose after_shutdown | SD_ForceDraining after_shutdown | SD_ForceForced after_shutdown
  | FN_Inspect | FN_InspectPhase | FN_Force | FN_WaitRequests | FN_CloseBackground | FN_WaitBackground
  | FN_WaitBackgroundAgain | FN_CloseStorage
  | AC_Ended

fun resume :: "after_shutdown \<Rightarrow> lc_actor" where
  "resume AS_Return = AC_Ended"
| "resume AS_Inspect = FN_Inspect"
| "resume AS_WaitRequests = FN_WaitRequests"
| "resume AS_WaitBackground = FN_WaitBackgroundAgain"

definition call_begin_draining ::
  "('t, 'n) lifecycle_inner \<Rightarrow> after_shutdown \<Rightarrow> ('t, 'n) lifecycle_inner \<times> lc_actor" where
  "call_begin_draining lc k =
     (if lc_phase lc \<noteq> SP_Running then (lc, resume k) else (lc\<lparr>lc_phase := SP_Draining\<rparr>, SD_DrainClose k))"

definition call_force ::
  "('t, 'n) lifecycle_inner \<Rightarrow> after_shutdown \<Rightarrow> ('t, 'n) lifecycle_inner \<times> lc_actor" where
  "call_force lc k =
     (if lc_phase lc = SP_Forced then (lc, resume k) else (lc\<lparr>lc_phase := SP_Forced\<rparr>, SD_ForceClose k))"

text \<open>The next step of an actor that does not wait for a decision from outside.\<close>

fun actor_step ::
  "('t, 'n) sync_lib \<Rightarrow> ('t, 'n) lifecycle_inner \<Rightarrow> lc_actor \<Rightarrow> (('t, 'n) lifecycle_inner \<times> lc_actor) option" where
  "actor_step Y lc RQ_Checked = Some (blocker_new lc, RQ_Blocked)"
| "actor_step Y lc RQ_Blocked = Some (request_token Y lc, RQ_Token)"
| "actor_step Y lc RQ_Token =
     Some (lc, if lc_phase lc \<noteq> SP_Running then RQ_TokenDrop True else RQ_Admitted)"
| "actor_step Y lc RQ_Admitted = Some (activity_add lc, RQ_Counted)"
| "actor_step Y lc RQ_Counted = Some (lc, if blockers_of lc = 0 then RQ_Notify else RQ_Guard True)"
| "actor_step Y lc RQ_Notify = Some (request_notify Y lc, RQ_Guard True)"
| "actor_step Y lc (RQ_TokenDrop held) =
     Some (request_token_drop Y lc, if held then RQ_BlockerDrop else AC_Ended)"
| "actor_step Y lc RQ_BlockerDrop =
     (let (lc, previous) = blocker_subtract lc in Some (lc, if previous = 1 then RQ_Signal False else AC_Ended))"
| "actor_step Y lc (RQ_Signal alive) = Some (request_notify Y lc, if alive then RQ_Guard False else AC_Ended)"
| "actor_step Y lc BG_Counted = Some (lc, if blockers_of lc = 0 then BG_Notify else AC_Ended)"
| "actor_step Y lc BG_Notify = Some (request_notify Y lc, AC_Ended)"
| "actor_step Y lc (SD_DrainClose k) = Some (requests_close Y lc, SD_DrainCancel k)"
| "actor_step Y lc (SD_DrainCancel k) = Some (lc\<lparr>lc_draining := True\<rparr>, resume k)"
| "actor_step Y lc (SD_ForceClose k) = Some (requests_close Y lc, SD_ForceDraining k)"
| "actor_step Y lc (SD_ForceDraining k) = Some (lc\<lparr>lc_draining := True\<rparr>, SD_ForceForced k)"
| "actor_step Y lc (SD_ForceForced k) = Some (lc\<lparr>lc_forced := True\<rparr>, resume k)"
| "actor_step Y lc FN_Inspect =
     Some (lc, if 0 < active_requests Y lc then FN_InspectPhase else FN_WaitRequests)"
| "actor_step Y lc FN_InspectPhase =
     Some (lc, if lc_phase lc \<noteq> SP_Forced then FN_Force else FN_WaitRequests)"
| "actor_step Y lc FN_Force = Some (call_force lc AS_WaitRequests)"
| "actor_step Y lc FN_WaitRequests =
     (if wait_for_requests Y lc then Some (lc, FN_CloseBackground) else None)"
| "actor_step Y lc FN_CloseBackground = Some (close_background_tasks Y lc, FN_WaitBackground)"
| "actor_step Y lc FN_WaitBackground =
     (if wait_for_background_tasks Y lc then Some (lc, FN_CloseStorage) else None)"
| "actor_step Y lc FN_WaitBackgroundAgain =
     (if wait_for_background_tasks Y lc then Some (lc, FN_CloseStorage) else None)"
| "actor_step Y lc _ = None"

record ('t, 'n) lc_world =
  lw_lifecycle :: "('t, 'n) lifecycle_inner"
  lw_actors :: "lc_actor list"
  lw_worker :: reclaim_worker
  lw_last_reclaimed :: "64 word"

definition lc_world_new :: "('t, 'n) sync_lib \<Rightarrow> ('t, 'n) lc_world" where
  "lc_world_new Y =
     \<lparr> lw_lifecycle = lifecycle_new Y, lw_actors = [], lw_worker = WK_Wait, lw_last_reclaimed = 0 \<rparr>"

text \<open>
  \<open>faults\<close> says whether freeing memory may fail. A new actor enters with the first access of its
  operation; a request that finds the process not running leaves at once. The owner of a guard
  releases its blocker or drops the guard, and waiting ends early by timeout.
\<close>

inductive lc_step :: "('t, 'n) sync_lib \<Rightarrow> bool \<Rightarrow> ('t, 'n) lc_world \<Rightarrow> ('t, 'n) lc_world \<Rightarrow> bool"
  for Y :: "('t, 'n) sync_lib" and faults :: bool where
  arrive: "lc_phase (lw_lifecycle w) = SP_Running \<Longrightarrow>
    lc_step Y faults w (w\<lparr>lw_actors := lw_actors w @ [RQ_Checked]\<rparr>)"
| activity: "lc_step Y faults w
    (w\<lparr>lw_lifecycle := activity_add (lw_lifecycle w), lw_actors := lw_actors w @ [BG_Counted]\<rparr>)"
| drain: "call_begin_draining (lw_lifecycle w) AS_Return = (lc, a) \<Longrightarrow>
    lc_step Y faults w (w\<lparr>lw_lifecycle := lc, lw_actors := lw_actors w @ [a]\<rparr>)"
| force: "call_force (lw_lifecycle w) AS_Return = (lc, a) \<Longrightarrow>
    lc_step Y faults w (w\<lparr>lw_lifecycle := lc, lw_actors := lw_actors w @ [a]\<rparr>)"
| finalize: "call_begin_draining (lw_lifecycle w) AS_Inspect = (lc, a) \<Longrightarrow>
    lc_step Y faults w (w\<lparr>lw_lifecycle := lc, lw_actors := lw_actors w @ [a]\<rparr>)"
| proceed: "i < length (lw_actors w) \<Longrightarrow> actor_step Y (lw_lifecycle w) (lw_actors w ! i) = Some (lc, a) \<Longrightarrow>
    lc_step Y faults w (w\<lparr>lw_lifecycle := lc, lw_actors := (lw_actors w)[i := a]\<rparr>)"
| release: "i < length (lw_actors w) \<Longrightarrow> lw_actors w ! i = RQ_Guard True \<Longrightarrow>
    blocker_subtract (lw_lifecycle w) = (lc, previous) \<Longrightarrow>
    lc_step Y faults w (w\<lparr>lw_lifecycle := lc,
      lw_actors := (lw_actors w)[i := if previous = 1 then RQ_Signal True else RQ_Guard False]\<rparr>)"
| leave: "i < length (lw_actors w) \<Longrightarrow> lw_actors w ! i = RQ_Guard held \<Longrightarrow>
    lc_step Y faults w (w\<lparr>lw_actors := (lw_actors w)[i := RQ_TokenDrop held]\<rparr>)"
| timeout: "i < length (lw_actors w) \<Longrightarrow> lw_actors w ! i \<in> {FN_WaitRequests, FN_WaitBackgroundAgain} \<Longrightarrow>
    lc_step Y faults w (w\<lparr>lw_actors := (lw_actors w)[i := AC_Ended]\<rparr>)"
| background_timeout: "i < length (lw_actors w) \<Longrightarrow> lw_actors w ! i = FN_WaitBackground \<Longrightarrow>
    call_force (lw_lifecycle w) AS_WaitBackground = (lc, a) \<Longrightarrow>
    lc_step Y faults w (w\<lparr>lw_lifecycle := lc, lw_actors := (lw_actors w)[i := a]\<rparr>)"
| spawn: "lc_step Y faults w (w\<lparr>lw_lifecycle := background_spawn Y (lw_lifecycle w)\<rparr>)"
| finish: "0 < background_task_count Y (lw_lifecycle w) \<Longrightarrow>
    lc_step Y faults w (w\<lparr>lw_lifecycle := background_finish Y (lw_lifecycle w)\<rparr>)"
| worker_woken: "lw_worker w = WK_Wait \<Longrightarrow>
    nt_notified Y (mr_requested (lc_memory_reclamation (lw_lifecycle w))) = Some n \<Longrightarrow>
    lc_step Y faults w (w\<lparr>lw_lifecycle := update_reclamation (\<lambda>m. m\<lparr>mr_requested := n\<rparr>) (lw_lifecycle w),
      lw_worker := WK_Sleep\<rparr>)"
| worker_load: "lw_worker w = WK_Sleep \<Longrightarrow>
    lc_step Y faults w (w\<lparr>lw_worker := WK_Loaded (lc_activity_epoch (lw_lifecycle w))\<rparr>)"
| worker_decide: "lw_worker w = WK_Loaded epoch \<Longrightarrow>
    lc_step Y faults w (w\<lparr>lw_worker :=
      (case pending_activity (lw_last_reclaimed w) epoch (blockers_of (lw_lifecycle w)) of
         None \<Rightarrow> WK_Wait | Some epoch \<Rightarrow> WK_Reclaim epoch)\<rparr>)"
| worker_done: "lw_worker w = WK_Reclaim epoch \<Longrightarrow>
    lc_step Y faults w (w\<lparr>lw_lifecycle := record_memory_reclamation elapsed (lw_lifecycle w),
      lw_last_reclaimed := epoch, lw_worker := WK_Wait\<rparr>)"
| worker_failed: "faults \<Longrightarrow> lw_worker w = WK_Reclaim epoch \<Longrightarrow>
    lc_step Y faults w (w\<lparr>lw_worker := WK_Wait\<rparr>)"
| worker_stop: "lc_draining (lw_lifecycle w) \<Longrightarrow> lw_worker w \<in> {WK_Wait, WK_Sleep} \<Longrightarrow>
    lc_step Y faults w (w\<lparr>lw_worker := WK_Ended\<rparr>)"
| worker_cancelled: "lc_forced (lw_lifecycle w) \<Longrightarrow> lw_worker w \<in> {WK_Wait, WK_Sleep, WK_Reclaim epoch} \<Longrightarrow>
    lc_step Y faults w (w\<lparr>lw_worker := WK_Ended\<rparr>)"

abbreviation lc_run :: "('t, 'n) sync_lib \<Rightarrow> bool \<Rightarrow> ('t, 'n) lc_world \<Rightarrow> ('t, 'n) lc_world \<Rightarrow> bool" where
  "lc_run Y faults \<equiv> (lc_step Y faults)\<^sup>*\<^sup>*"

section \<open>Invariant\<close>

text \<open>What an actor owns, and whether it serves a request.\<close>

fun has_token :: "lc_actor \<Rightarrow> bool" where
  "has_token RQ_Token = True" | "has_token RQ_Admitted = True" | "has_token RQ_Counted = True"
| "has_token RQ_Notify = True" | "has_token (RQ_Guard _) = True" | "has_token (RQ_TokenDrop _) = True"
| "has_token (RQ_Signal alive) = alive" | "has_token _ = False"

fun has_blocker :: "lc_actor \<Rightarrow> bool" where
  "has_blocker RQ_Blocked = True" | "has_blocker RQ_Token = True" | "has_blocker RQ_Admitted = True"
| "has_blocker RQ_Counted = True" | "has_blocker RQ_Notify = True" | "has_blocker (RQ_Guard held) = held"
| "has_blocker (RQ_TokenDrop held) = held" | "has_blocker RQ_BlockerDrop = True" | "has_blocker _ = False"

fun serving :: "lc_actor \<Rightarrow> bool" where
  "serving RQ_Admitted = True" | "serving RQ_Counted = True" | "serving RQ_Notify = True"
| "serving (RQ_Guard _) = True" | "serving (RQ_Signal alive) = alive" | "serving _ = False"

text \<open>Actors that only exist once the process stops running, and those past the wait for requests.\<close>

fun past_wait :: "lc_actor \<Rightarrow> bool" where
  "past_wait FN_CloseBackground = True" | "past_wait FN_WaitBackground = True"
| "past_wait FN_WaitBackgroundAgain = True" | "past_wait FN_CloseStorage = True"
| "past_wait (SD_ForceClose k) = (k = AS_WaitBackground)" | "past_wait (SD_ForceDraining k) = (k = AS_WaitBackground)"
| "past_wait (SD_ForceForced k) = (k = AS_WaitBackground)"
| "past_wait (SD_DrainClose k) = (k = AS_WaitBackground)" | "past_wait (SD_DrainCancel k) = (k = AS_WaitBackground)"
| "past_wait _ = False"

fun stopping :: "lc_actor \<Rightarrow> bool" where
  "stopping (SD_DrainClose _) = True" | "stopping (SD_DrainCancel _) = True" | "stopping (SD_ForceClose _) = True"
| "stopping (SD_ForceDraining _) = True" | "stopping (SD_ForceForced _) = True" | "stopping _ = False"

definition counters_ok :: "('t, 'n) sync_lib \<Rightarrow> ('t, 'n) lifecycle_inner \<Rightarrow> lc_actor list \<Rightarrow> bool" where
  "counters_ok Y lc actors \<longleftrightarrow>
     active_requests Y lc = length (filter has_token actors) \<and> blockers_of lc = length (filter has_blocker actors)"

definition stops_ok :: "('t, 'n) sync_lib \<Rightarrow> ('t, 'n) lifecycle_inner \<Rightarrow> lc_actor list \<Rightarrow> bool" where
  "stops_ok Y lc actors \<longleftrightarrow>
     (lc_phase lc = SP_Running \<longrightarrow> \<not> tk_closed Y (lc_requests lc) \<and> list_all (\<lambda>a. \<not> stopping a) actors)"

definition drained :: "('t, 'n) lifecycle_inner \<Rightarrow> lc_actor list \<Rightarrow> bool" where
  "drained lc actors \<longleftrightarrow> lc_phase lc \<noteq> SP_Running \<and> list_all (\<lambda>a. \<not> serving a) actors"

definition lc_inv :: "('t, 'n) sync_lib \<Rightarrow> ('t, 'n) lifecycle_inner \<Rightarrow> lc_actor list \<Rightarrow> bool" where
  "lc_inv Y lc actors \<longleftrightarrow>
     counters_ok Y lc actors \<and> stops_ok Y lc actors \<and> (list_ex past_wait actors \<longrightarrow> drained lc actors)"

lemmas lc_action_defs =
  update_reclamation_def request_notify_def blocker_new_def blocker_subtract_def activity_add_def request_token_def
  request_token_drop_def requests_close_def close_background_tasks_def background_spawn_def background_finish_def
  record_memory_reclamation_def call_force_def call_begin_draining_def active_requests_def

lemma sync_simps:
  assumes "sync_ok Y"
  shows "tk_len Y (tk_new Y) = 0" "\<not> tk_closed Y (tk_new Y)"
    "tk_len Y (tk_token Y t) = tk_len Y t + 1" "tk_closed Y (tk_token Y t) = tk_closed Y t"
    "tk_len Y (tk_drop Y t) = tk_len Y t - 1" "tk_closed Y (tk_drop Y t) = tk_closed Y t"
    "tk_len Y (tk_close Y t) = tk_len Y t" "tk_closed Y (tk_close Y t)"
    "nt_notified Y (nt_notify_one Y n) \<noteq> None"
  using assms by (simp_all add: sync_ok_def)

lemma serving_has_token: "serving a \<Longrightarrow> has_token a"
  by (cases a) auto

lemma wait_drained:
  assumes "lc_inv Y lc actors" "wait_for_requests Y lc"
  shows "drained lc actors"
proof -
  have "filter has_token actors = []"
    using assms by (simp add: lc_inv_def counters_ok_def wait_for_requests_def active_requests_def)
  then have "list_all (\<lambda>a. \<not> serving a) actors"
    using serving_has_token by (auto simp: filter_empty_conv list_all_iff)
  then show ?thesis using assms by (auto simp: drained_def lc_inv_def stops_ok_def wait_for_requests_def)
qed

lemma resume_simps [simp]:
  "\<not> has_token (resume k)" "\<not> has_blocker (resume k)" "\<not> serving (resume k)" "\<not> stopping (resume k)"
  "past_wait (resume k) \<longleftrightarrow> k = AS_WaitBackground"
  by (cases k; simp)+

lemma counters_ok_step:
  assumes "sync_ok Y" "counters_ok Y lc (ys @ a # zs)" "actor_step Y lc a = Some (lc', a')"
  shows "counters_ok Y lc' (ys @ a' # zs)"
  using assms(2,3)
  by (cases a) (auto simp: counters_ok_def lc_action_defs sync_simps[OF assms(1)] split: if_splits)

lemma stops_ok_step:
  assumes "sync_ok Y" "stops_ok Y lc (ys @ a # zs)" "actor_step Y lc a = Some (lc', a')"
  shows "stops_ok Y lc' (ys @ a' # zs)"
  using assms(2,3)
  by (cases a) (auto simp: stops_ok_def lc_action_defs sync_simps[OF assms(1)] split: if_splits)

lemma drained_step:
  assumes "drained lc (ys @ a # zs)" "actor_step Y lc a = Some (lc', a')"
  shows "drained lc' (ys @ a' # zs)"
  using assms by (cases a) (auto simp: drained_def lc_action_defs split: if_splits)

lemma past_wait_step:
  assumes "actor_step Y lc a = Some (lc', a')" "past_wait a'"
  shows "past_wait a \<or> a = FN_WaitRequests \<and> wait_for_requests Y lc"
  using assms by (cases a) (auto simp: lc_action_defs split: if_splits)

lemma lc_inv_actor_step:
  assumes "sync_ok Y" "lc_inv Y lc (ys @ a # zs)" "actor_step Y lc a = Some (lc', a')"
  shows "lc_inv Y lc' (ys @ a' # zs)"
proof -
  have "drained lc (ys @ a # zs)" if "list_ex past_wait (ys @ a' # zs)"
    using that assms(2) past_wait_step[OF assms(3)] wait_drained[OF assms(2)] by (auto simp: lc_inv_def)
  then have "list_ex past_wait (ys @ a' # zs) \<longrightarrow> drained lc' (ys @ a' # zs)" using drained_step[OF _ assms(3)] by blast
  then show ?thesis
    using counters_ok_step[OF assms(1) _ assms(3)] stops_ok_step[OF assms(1) _ assms(3)] assms(2)
    unfolding lc_inv_def by blast
qed

text \<open>Only the phase, the tracker of requests and the number of blockers matter.\<close>

lemma lc_inv_cong:
  assumes "lc_inv Y lc actors" "lc_phase lc' = lc_phase lc" "lc_requests lc' = lc_requests lc" "blockers_of lc' = blockers_of lc"
  shows "lc_inv Y lc' actors"
  using assms by (simp add: lc_inv_def counters_ok_def stops_ok_def drained_def active_requests_def)

lemma lc_inv_enter:
  assumes "lc_inv Y lc actors" "lc_requests lc' = lc_requests lc" "blockers_of lc' = blockers_of lc"
    and "lc_phase lc = SP_Running \<or> lc_phase lc' \<noteq> SP_Running" "stopping a \<longrightarrow> lc_phase lc' \<noteq> SP_Running"
    and "\<not> has_token a" "\<not> has_blocker a" "\<not> past_wait a"
  shows "lc_inv Y lc' (actors @ [a])"
  using assms serving_has_token[of a]
  by (auto simp: lc_inv_def counters_ok_def stops_ok_def drained_def active_requests_def)

lemma lc_inv_replace:
  assumes "lc_inv Y lc (ys @ a # zs)" "lc_requests lc' = lc_requests lc" "lc_phase lc = SP_Running \<or> lc_phase lc' \<noteq> SP_Running"
    and "stopping a' \<longrightarrow> lc_phase lc' \<noteq> SP_Running" "has_token a' = has_token a"
    and "blockers_of lc' + of_bool (has_blocker a) = blockers_of lc + of_bool (has_blocker a')"
    and "past_wait a' \<longrightarrow> past_wait a" "serving a' \<longrightarrow> serving a"
  shows "lc_inv Y lc' (ys @ a' # zs)"
proof -
  have "counters_ok Y lc' (ys @ a' # zs)"
    using assms(1,2,5,6) by (auto simp: lc_inv_def counters_ok_def active_requests_def of_bool_def split: if_splits)
  moreover have "stops_ok Y lc' (ys @ a' # zs)"
    using assms(1-4) by (auto simp: lc_inv_def stops_ok_def)
  moreover have "drained lc' (ys @ a' # zs)" if "list_ex past_wait (ys @ a' # zs)"
    using that assms(1,3,7,8) by (auto simp: lc_inv_def drained_def)
  ultimately show ?thesis by (simp add: lc_inv_def)
qed

lemma nth_split:
  assumes "i < length xs" "xs ! i = x"
  obtains ys zs where "xs = ys @ x # zs" "\<And>y. xs[i := y] = ys @ y # zs"
  using id_take_nth_drop[OF assms(1)] upd_conv_take_nth_drop[OF assms(1)] assms(2) by metis

lemma lc_inv_blocker_pos: "lc_inv Y lc (ys @ a # zs) \<Longrightarrow> has_blocker a \<Longrightarrow> 0 < blockers_of lc"
  by (simp add: lc_inv_def counters_ok_def)

lemma lc_inv_release:
  assumes "lc_inv Y lc (ys @ RQ_Guard True # zs)" "blocker_subtract lc = (lc', previous)"
  shows "lc_inv Y lc' (ys @ (if previous = 1 then RQ_Signal True else RQ_Guard False) # zs)"
  by (rule lc_inv_replace[OF assms(1)])
    (use assms lc_inv_blocker_pos[OF assms(1)] in \<open>auto simp: lc_action_defs\<close>)

lemma lc_inv_step_actors:
  assumes "sync_ok Y" "lc_inv Y (lw_lifecycle w) (lw_actors w)" "i < length (lw_actors w)" "lw_actors w ! i = x"
    and "actor_step Y (lw_lifecycle w) x = Some (lc, a) \<or>
      x = RQ_Guard True \<and> (\<exists>previous. blocker_subtract (lw_lifecycle w) = (lc, previous) \<and>
        a = (if previous = 1 then RQ_Signal True else RQ_Guard False)) \<or>
      (\<exists>held. x = RQ_Guard held \<and> a = RQ_TokenDrop held) \<and> lc = lw_lifecycle w \<or>
      x \<in> {FN_WaitRequests, FN_WaitBackgroundAgain} \<and> a = AC_Ended \<and> lc = lw_lifecycle w \<or>
      x = FN_WaitBackground \<and> call_force (lw_lifecycle w) AS_WaitBackground = (lc, a)"
  shows "lc_inv Y lc ((lw_actors w)[i := a])"
proof -
  obtain ys zs where l: "lw_actors w = ys @ x # zs" "(lw_actors w)[i := a] = ys @ a # zs"
    using nth_split[OF assms(3,4)] by metis
  have inv: "lc_inv Y (lw_lifecycle w) (ys @ x # zs)" using assms(2) l(1) by simp
  from assms(5) have "lc_inv Y lc (ys @ a # zs)"
  proof (elim disjE, goal_cases)
    case 1
    then show ?case by (rule lc_inv_actor_step[OF assms(1) inv])
  next
    case 2
    then show ?case using lc_inv_release inv by blast
  next
    case 3
    then show ?case by (intro lc_inv_replace[OF inv]) auto
  next
    case 4
    then show ?case by (intro lc_inv_replace[OF inv]) auto
  next
    case 5
    then show ?case by (intro lc_inv_replace[OF inv]) (auto simp: call_force_def split: if_splits)
  qed
  then show ?thesis by (simp add: l(2))
qed

lemma lc_inv_step:
  assumes "sync_ok Y" "lc_inv Y (lw_lifecycle w) (lw_actors w)" "lc_step Y faults w w'"
  shows "lc_inv Y (lw_lifecycle w') (lw_actors w')"
  using assms(3)
proof cases
  case (proceed i lc a)
  then show ?thesis using lc_inv_step_actors[OF assms(1,2) proceed(2) refl] by simp
next
  case (release i lc previous)
  then show ?thesis using lc_inv_step_actors[OF assms(1,2) release(2,3)] by simp
next
  case (leave i held)
  then show ?thesis using lc_inv_step_actors[OF assms(1,2) leave(2,3)] by simp
next
  case (timeout i)
  then show ?thesis using lc_inv_step_actors[OF assms(1,2) timeout(2) refl] by simp
next
  case (background_timeout i lc a)
  then show ?thesis using lc_inv_step_actors[OF assms(1,2) background_timeout(2,3)] by simp
next
  case (drain lc a)
  then show ?thesis using lc_inv_enter[OF assms(2)] by (auto simp: call_begin_draining_def split: if_splits)
next
  case (finalize lc a)
  then show ?thesis using lc_inv_enter[OF assms(2)] by (auto simp: call_begin_draining_def split: if_splits)
next
  case (force lc a)
  then show ?thesis using lc_inv_enter[OF assms(2)] by (auto simp: call_force_def split: if_splits)
next
  case arrive
  then show ?thesis using lc_inv_enter[OF assms(2)] by simp
next
  case activity
  then show ?thesis using lc_inv_enter[OF assms(2)] by (simp add: activity_add_def)
qed (use assms(2) in \<open>auto simp: lc_action_defs elim!: lc_inv_cong\<close>)

lemma lc_inv_run:
  assumes "sync_ok Y" "lc_run Y faults (lc_world_new Y) w"
  shows "lc_inv Y (lw_lifecycle w) (lw_actors w)"
  using assms(2)
proof induction
  case base
  show ?case using sync_simps[OF assms(1)]
    by (simp add: lc_world_new_def lifecycle_new_def lc_inv_def counters_ok_def stops_ok_def active_requests_def)
next
  case (step w w')
  then show ?case using lc_inv_step[OF assms(1)] by blast
qed

text \<open>Once drained, always drained.\<close>

lemma drained_replace:
  assumes "drained lc (ys @ a # zs)" "lc_phase lc' \<noteq> SP_Running" "serving a' \<longrightarrow> serving a"
  shows "drained lc' (ys @ a' # zs)"
  using assms by (auto simp: drained_def)

lemma drained_lc_step:
  assumes "drained (lw_lifecycle w) (lw_actors w)" "lc_step Y faults w w'"
  shows "drained (lw_lifecycle w') (lw_actors w')"
  using assms(2)
proof cases
  case (proceed i lc a)
  obtain ys zs where "lw_actors w = ys @ lw_actors w ! i # zs" "(lw_actors w)[i := a] = ys @ a # zs"
    using nth_split[OF proceed(2) refl] by metis
  then show ?thesis using drained_step[OF _ proceed(3)] assms(1) proceed(1) by (metis lc_world.select_convs(1,2) lc_world.surjective lc_world.update_convs(1,2))
next
  case (release i lc previous)
  then show ?thesis using assms(1) by (auto simp: drained_def list_all_length lc_action_defs)
next
  case (leave i held)
  then show ?thesis using assms(1) by (auto simp: drained_def list_all_length)
next
  case (timeout i)
  then show ?thesis using assms(1) by (auto simp: drained_def list_all_length nth_list_update)
next
  case (background_timeout i lc a)
  then show ?thesis using assms(1)
    by (auto simp: drained_def list_all_length nth_list_update call_force_def split: if_splits)
qed (use assms(1) in \<open>auto simp: drained_def lc_action_defs split: if_splits\<close>)

lemma drained_run:
  assumes "lc_run Y faults w w'" "drained (lw_lifecycle w) (lw_actors w)"
  shows "drained (lw_lifecycle w') (lw_actors w')"
  using assms
proof induction
  case (step w' w'')
  then show ?case using drained_lc_step by blast
qed

section \<open>Memory reclamation\<close>

text \<open>Actors that have recorded activity, or removed the last blocker, and have not yet come to
  notify or to find a blocker that will.\<close>

fun notifying :: "lc_actor \<Rightarrow> bool" where
  "notifying RQ_Counted = True" | "notifying RQ_Notify = True" | "notifying BG_Counted = True"
| "notifying BG_Notify = True" | "notifying (RQ_Signal _) = True" | "notifying _ = False"

definition permit :: "('t, 'n) sync_lib \<Rightarrow> ('t, 'n) lifecycle_inner \<Rightarrow> bool" where
  "permit Y lc \<longleftrightarrow> nt_notified Y (mr_requested (lc_memory_reclamation lc)) \<noteq> None"

definition covered :: "('t, 'n) sync_lib \<Rightarrow> 64 word \<Rightarrow> ('t, 'n) lifecycle_inner \<Rightarrow> lc_actor list \<Rightarrow> bool" where
  "covered Y epoch lc actors \<longleftrightarrow>
     lc_activity_epoch lc = epoch \<or> blockers_of lc \<noteq> 0 \<or> permit Y lc \<or> list_ex notifying actors"

lemma covered_replace:
  assumes "covered Y epoch lc (ys @ a # zs)"
    and "permit Y lc \<longrightarrow> permit Y lc'"
    and "blockers_of lc \<noteq> 0 \<longrightarrow> blockers_of lc' \<noteq> 0 \<or> permit Y lc' \<or> notifying a'"
    and "lc_activity_epoch lc' = lc_activity_epoch lc \<or> notifying a'"
    and "notifying a \<longrightarrow> notifying a' \<or> blockers_of lc' \<noteq> 0 \<or> permit Y lc'"
  shows "covered Y epoch lc' (ys @ a' # zs)"
  using assms by (auto simp: covered_def)

lemma covered_actor_step:
  assumes "sync_ok Y" "covered Y epoch lc (ys @ a # zs)" "actor_step Y lc a = Some (lc', a')"
  shows "covered Y epoch lc' (ys @ a' # zs)"
  by (rule covered_replace[OF assms(2)])
    (use assms(3) sync_simps(9)[OF assms(1)] in \<open>cases a; auto simp: lc_action_defs permit_def split: if_splits\<close>)+

definition worker_ok :: "('t, 'n) sync_lib \<Rightarrow> ('t, 'n) lc_world \<Rightarrow> bool" where
  "worker_ok Y w \<longleftrightarrow>
     (case lw_worker w of
        WK_Wait \<Rightarrow> covered Y (lw_last_reclaimed w) (lw_lifecycle w) (lw_actors w)
      | WK_Loaded epoch \<Rightarrow> covered Y epoch (lw_lifecycle w) (lw_actors w)
      | WK_Reclaim epoch \<Rightarrow> covered Y epoch (lw_lifecycle w) (lw_actors w)
      | _ \<Rightarrow> True)"

lemma covered_append: "covered Y epoch lc actors \<Longrightarrow> covered Y epoch lc (actors @ [a])"
  by (auto simp: covered_def)

lemma covered_cong:
  assumes "covered Y epoch lc actors" "lc_activity_epoch lc' = lc_activity_epoch lc" "blockers_of lc' = blockers_of lc"
    and "mr_requested (lc_memory_reclamation lc') = mr_requested (lc_memory_reclamation lc)"
  shows "covered Y epoch lc' actors"
  using assms by (simp add: covered_def permit_def)

lemma covered_release:
  assumes "covered Y epoch lc (ys @ RQ_Guard True # zs)" "blocker_subtract lc = (lc', previous)"
  shows "covered Y epoch lc' (ys @ (if previous = 1 then RQ_Signal True else RQ_Guard False) # zs)"
  by (rule covered_replace[OF assms(1)]) (use assms(2) in \<open>auto simp: lc_action_defs permit_def\<close>)

lemma covered_lc_step:
  assumes "sync_ok Y" "covered Y epoch (lw_lifecycle w) (lw_actors w)" "lc_step Y faults w w'"
    and "lw_worker w = WK_Wait \<longrightarrow> lw_worker w' \<noteq> WK_Sleep"
  shows "covered Y epoch (lw_lifecycle w') (lw_actors w')"
  using assms(3)
proof cases
  case (proceed i lc a)
  obtain ys zs where l: "lw_actors w = ys @ lw_actors w ! i # zs" "(lw_actors w)[i := a] = ys @ a # zs"
    using nth_split[OF proceed(2) refl] by metis
  have "covered Y epoch (lw_lifecycle w) (ys @ lw_actors w ! i # zs)" using assms(2) l(1) by metis
  from covered_actor_step[OF assms(1) this proceed(3)] show ?thesis using proceed(1) l(2) by simp
next
  case (release i lc previous)
  obtain ys zs where l: "lw_actors w = ys @ RQ_Guard True # zs" "\<And>a. (lw_actors w)[i := a] = ys @ a # zs"
    using nth_split[OF release(2,3)] by metis
  then show ?thesis using covered_release[OF _ release(4)] assms(2) release(1) by simp
next
  case (leave i held)
  obtain ys zs where l: "lw_actors w = ys @ RQ_Guard held # zs" "\<And>a. (lw_actors w)[i := a] = ys @ a # zs"
    using nth_split[OF leave(2,3)] by metis
  then show ?thesis using assms(2) leave(1) by (auto simp: covered_def)
next
  case (timeout i)
  define x where "x = lw_actors w ! i"
  obtain ys zs where l: "lw_actors w = ys @ x # zs" "\<And>a. (lw_actors w)[i := a] = ys @ a # zs"
    using nth_split[OF timeout(2) x_def[symmetric]] by metis
  have "\<not> notifying x" using timeout(3) by (auto simp: x_def)
  then show ?thesis using assms(2) timeout(1) l by (auto simp: covered_def)
next
  case (background_timeout i lc a)
  obtain ys zs where l: "lw_actors w = ys @ FN_WaitBackground # zs" "\<And>a. (lw_actors w)[i := a] = ys @ a # zs"
    using nth_split[OF background_timeout(2,3)] by metis
  then show ?thesis using assms(2) background_timeout(1,4)
    by (auto simp: covered_def call_force_def permit_def split: if_splits)
next
  case (drain lc a)
  then show ?thesis using covered_append[OF covered_cong[OF assms(2)]]
    by (auto simp: call_begin_draining_def split: if_splits)
next
  case (finalize lc a)
  then show ?thesis using covered_append[OF covered_cong[OF assms(2)]]
    by (auto simp: call_begin_draining_def split: if_splits)
next
  case (force lc a)
  then show ?thesis using covered_append[OF covered_cong[OF assms(2)]] by (auto simp: call_force_def split: if_splits)
next
  case arrive
  then show ?thesis using covered_append[OF assms(2)] by simp
next
  case activity
  then show ?thesis by (simp add: covered_def)
next
  case (worker_woken n)
  then show ?thesis using assms(4) by simp
qed (use covered_cong[OF assms(2)] in \<open>auto simp: lc_action_defs\<close>)

lemma worker_ok_same:
  assumes "sync_ok Y" "worker_ok Y w" "lc_step Y faults w w'"
    and "lw_worker w' = lw_worker w" "lw_last_reclaimed w' = lw_last_reclaimed w"
  shows "worker_ok Y w'"
  using assms(2,4,5) covered_lc_step[OF assms(1) _ assms(3)]
  unfolding worker_ok_def by (cases "lw_worker w") simp_all

lemma worker_ok_step:
  assumes "sync_ok Y" "worker_ok Y w" "lc_step Y False w w'"
  shows "worker_ok Y w'"
  using assms(3)
proof cases
  case (worker_done epoch elapsed)
  have "covered Y epoch (record_memory_reclamation elapsed (lw_lifecycle w)) (lw_actors w)"
    by (rule covered_cong[of Y epoch "lw_lifecycle w"]) (use assms(2) worker_done in \<open>simp_all add: worker_ok_def lc_action_defs\<close>)
  then show ?thesis using worker_done by (simp add: worker_ok_def)
next
  case (worker_decide epoch)
  then show ?thesis using assms(2) by (auto simp: worker_ok_def pending_activity_def covered_def)
next
  case worker_load
  then show ?thesis by (simp add: worker_ok_def covered_def)
next
  case (worker_woken n)
  then show ?thesis by (simp add: worker_ok_def)
next
  case worker_stop
  then show ?thesis by (simp add: worker_ok_def)
next
  case (worker_cancelled epoch)
  then show ?thesis by (simp add: worker_ok_def)
qed (use worker_ok_same[OF assms] in simp_all)

lemma worker_ok_run:
  assumes "sync_ok Y" "lc_run Y False (lc_world_new Y) w"
  shows "worker_ok Y w"
  using assms(2)
proof induction
  case base
  show ?case by (simp add: worker_ok_def covered_def lc_world_new_def lifecycle_new_def)
next
  case (step w w')
  then show ?case using worker_ok_step[OF assms(1)] by blast
qed

section \<open>Operations as runs\<close>

text \<open>An actor that is not interrupted does what its operation does in one piece.\<close>

definition with_actor :: "('t, 'n) lc_world \<Rightarrow> ('t, 'n) lifecycle_inner \<times> lc_actor \<Rightarrow> ('t, 'n) lc_world" where
  "with_actor w x = w\<lparr>lw_lifecycle := fst x, lw_actors := lw_actors w @ [snd x]\<rparr>"

fun actor_run :: "('t, 'n) sync_lib \<Rightarrow> nat \<Rightarrow> ('t, 'n) lifecycle_inner \<times> lc_actor \<Rightarrow> ('t, 'n) lifecycle_inner \<times> lc_actor" where
  "actor_run Y 0 x = x"
| "actor_run Y (Suc n) x = (case actor_step Y (fst x) (snd x) of None \<Rightarrow> x | Some x' \<Rightarrow> actor_run Y n x')"

lemma actor_run_steps: "lc_run Y faults (with_actor w x) (with_actor w (actor_run Y n x))"
proof (induction n arbitrary: x)
  case (Suc n)
  show ?case
  proof (cases "actor_step Y (fst x) (snd x)")
    case (Some y)
    have "lc_step Y faults (with_actor w x) (with_actor w y)"
      using lc_step.proceed[of "length (lw_actors w)" "with_actor w x" Y "fst y" "snd y" faults] Some
      by (simp add: with_actor_def)
    then show ?thesis using Suc[of y] Some by (simp add: converse_rtranclp_into_rtranclp)
  qed simp
qed simp

lemma track_request_run:
  assumes "lc_phase lc = SP_Running"
  shows "actor_run Y 6 (lc, RQ_Checked) = (fst (track_request Y lc), RQ_Guard True)"
    "track_request Y lc = (fst (track_request Y lc), Some True)"
  using assms by (simp_all add: numeral_eq_Suc track_request_def record_activity_def lc_action_defs Let_def)

lemma guard_drop_run:
  "actor_run Y 3 (lc, RQ_TokenDrop held) = (guard_drop Y held lc, AC_Ended)"
  by (simp add: numeral_eq_Suc guard_drop_def blocker_release_def blocker_subtract_def Let_def)

lemma shutdown_run:
  "actor_run Y 2 (call_begin_draining lc AS_Return) = (fst (begin_draining Y lc), AC_Ended)"
  "actor_run Y 3 (call_force lc AS_Return) = (fst (Process_Lifecycle.force Y lc), AC_Ended)"
  by (simp_all add: numeral_eq_Suc begin_draining_def force_def call_begin_draining_def call_force_def)

section \<open>Properties\<close>

definition counting_sync :: "(nat \<times> bool, bool) sync_lib" where
  "counting_sync =
     \<lparr> tk_new = (0, False), tk_token = (\<lambda>(n, c). (n + 1, c)), tk_drop = (\<lambda>(n, c). (n - 1, c)),
       tk_close = (\<lambda>(n, c). (n, True)), tk_len = fst, tk_closed = snd,
       nt_new = False, nt_notify_one = (\<lambda>_. True), nt_notified = (\<lambda>p. if p then Some False else None) \<rparr>"

lemma counting_sync_ok: "sync_ok counting_sync"
  by (simp add: sync_ok_def counting_sync_def split_def)

text \<open>C7. Shutdown does not overtake requests. When waiting for the requests returns, or the finalization has come
  past it, the process has stopped running and no request is being served; and however the other participants
  run on, none ever is again, also none that had passed its first check before the shutdown began.\<close>

theorem shutdown_waits_for_requests:
  fixes Y :: "('t, 'n) sync_lib"
  assumes "sync_ok Y" "lc_run Y faults (lc_world_new Y) w" "lc_run Y faults w w'"
    and "wait_for_requests Y (lw_lifecycle w) \<or> list_ex past_wait (lw_actors w)"
  shows "lc_phase (lw_lifecycle w') \<noteq> SP_Running \<and> list_all (\<lambda>a. \<not> serving a) (lw_actors w')"
proof -
  note inv = lc_inv_run[OF assms(1,2)]
  have "drained (lw_lifecycle w) (lw_actors w)"
    using assms(4) inv wait_drained[OF inv] by (auto simp: lc_inv_def)
  from drained_run[OF assms(3) this] show ?thesis by (simp add: drained_def)
qed

theorem shutdown_waits_for_requests_witness:
  "\<exists>w. lc_run counting_sync False (lc_world_new counting_sync) w \<and> wait_for_requests counting_sync (lw_lifecycle w) \<and>
     RQ_Checked \<in> set (lw_actors w) \<and> list_all (\<lambda>a. \<not> serving a) (lw_actors w)"
proof -
  let ?Y = counting_sync and ?w0 = "lc_world_new counting_sync"
  let ?w1 = "?w0\<lparr>lw_actors := lw_actors ?w0 @ [RQ_Checked]\<rparr>"
  let ?w2 = "with_actor ?w1 (call_begin_draining (lw_lifecycle ?w1) AS_Return)"
  let ?w3 = "with_actor ?w1 (actor_run ?Y 1 (call_begin_draining (lw_lifecycle ?w1) AS_Return))"
  have "lc_step ?Y False ?w0 ?w1"
    by (rule lc_step.arrive) (simp add: lc_world_new_def lifecycle_new_def)
  moreover have "lc_step ?Y False ?w1 ?w2"
    using lc_step.drain[of ?w1 "fst (call_begin_draining (lw_lifecycle ?w1) AS_Return)" "snd (call_begin_draining (lw_lifecycle ?w1) AS_Return)" ?Y False]
    by (simp add: with_actor_def)
  moreover have "lc_run ?Y False ?w2 ?w3" by (rule actor_run_steps)
  ultimately have run: "lc_run ?Y False ?w0 ?w3" by (meson converse_rtranclp_into_rtranclp)
  have waits: "wait_for_requests ?Y (lw_lifecycle ?w3)" "RQ_Checked \<in> set (lw_actors ?w3)"
    by (simp_all add: with_actor_def call_begin_draining_def lc_world_new_def lifecycle_new_def requests_close_def
        wait_for_requests_def counting_sync_def)
  show ?thesis
    using shutdown_waits_for_requests[OF counting_sync_ok run rtranclp.rtrancl_refl] waits run by blast
qed

text \<open>C32. The counters of the lifecycle are exact however the participants interleave: the number of active requests
  is the number of participants holding a token and the number of memory blockers is the number of those holding a
  blocker, so releasing a blocker never finds the counter at zero.\<close>

theorem lifecycle_counters_exact:
  fixes Y :: "('t, 'n) sync_lib"
  assumes "sync_ok Y" "lc_run Y faults (lc_world_new Y) w"
  shows "active_requests Y (lw_lifecycle w) = length (filter has_token (lw_actors w)) \<and>
    blockers_of (lw_lifecycle w) = length (filter has_blocker (lw_actors w)) \<and>
    (list_ex has_blocker (lw_actors w) \<longrightarrow> 0 < snd (blocker_subtract (lw_lifecycle w)))"
  using lc_inv_run[OF assms]
  by (auto simp: lc_inv_def counters_ok_def blocker_subtract_def list_ex_iff filter_empty_conv)

theorem lifecycle_counters_exact_witness:
  "\<exists>w. lc_run counting_sync False (lc_world_new counting_sync) w \<and> lw_actors w = [RQ_Guard True] \<and>
     active_requests counting_sync (lw_lifecycle w) = 1 \<and> blockers_of (lw_lifecycle w) = 1"
proof -
  let ?Y = counting_sync and ?w0 = "lc_world_new counting_sync"
  let ?w1 = "with_actor ?w0 (lw_lifecycle ?w0, RQ_Checked)"
  let ?w2 = "with_actor ?w0 (actor_run ?Y 6 (lw_lifecycle ?w0, RQ_Checked))"
  have "lc_step ?Y False ?w0 ?w1"
    using lc_step.arrive[of ?w0 ?Y False] by (simp add: lc_world_new_def lifecycle_new_def with_actor_def)
  then have run: "lc_run ?Y False ?w0 ?w2" using actor_run_steps by (meson converse_rtranclp_into_rtranclp)
  have "lw_actors ?w2 = [RQ_Guard True]"
    using track_request_run(1)[of "lw_lifecycle ?w0" ?Y] by (simp add: with_actor_def lc_world_new_def lifecycle_new_def)
  then show ?thesis using lifecycle_counters_exact[OF counting_sync_ok run] run by auto
qed



end
