(* ===== verification/Candidate_Pool.thy ===== *)
theory Candidate_Pool
  imports Candidate_Health
begin

text \<open>
  The shared objects behind the candidates of one configuration, and what a request does with one
  candidate: the methods of \<open>RouteCandidate\<close> in
  \<open>crates/runtime/src/routing/candidates/route.rs\<close> that lead from a candidate to its credential
  runtime, health and admission.

  The objects that the code shares by \<open>Arc\<close> are stores here. A handle is found by the credential
  of the candidate, because in one configuration a credential has one handle; the health of a
  credential by the two addresses its generation holds. All readings of the clock within one
  round of selection are the same instant.
\<close>

section \<open>Stores\<close>

record routing_pool =
  po_epoch :: scheduler_epoch
  po_handles :: "routing_credential_id \<Rightarrow> credential_handle"
  po_credentials :: "nat \<times> nat \<Rightarrow> credential_health"
  po_endpoints :: "nat \<Rightarrow> endpoint_health"
  po_proxies :: "nat \<Rightarrow> circuit"
  po_egress_paths :: "nat \<Rightarrow> endpoint_health"
  po_candidate_paths :: "nat \<Rightarrow> endpoint_health"
  po_admissions :: admission_registry
  po_cursors :: "route_id \<times> nat \<rightharpoonup> u64"

definition credential_key :: "route_candidate \<Rightarrow> nat \<times> nat" where
  "credential_key c =
     (let g = cb_generation (rc_binding c) in (cg_authentication_health g, cg_routing_health g))"

text \<open>The health objects of a candidate. A candidate without endpoint or proxy health reads
  some object of the store, which nothing looks at, and writes none.\<close>

definition health_at :: "routing_pool \<Rightarrow> route_candidate \<Rightarrow> health_state" where
  "health_at p c =
     \<lparr> hs_epoch = po_epoch p,
       hs_credential = po_credentials p (credential_key c),
       hs_endpoint = po_endpoints p (or_default 0 (rc_endpoint_health c)),
       hs_proxy = po_proxies p (or_default 0 (rc_proxy_health c)),
       hs_egress_path = po_egress_paths p (rc_egress_path_health c),
       hs_candidate_path = po_candidate_paths p (rc_candidate_path_health c) \<rparr>"

definition put_health :: "route_candidate \<Rightarrow> health_state \<Rightarrow> routing_pool \<Rightarrow> routing_pool" where
  "put_health c s p =
     p\<lparr>po_epoch := hs_epoch s,
       po_credentials := (po_credentials p)(credential_key c := hs_credential s),
       po_endpoints := (case rc_endpoint_health c of
                          None \<Rightarrow> po_endpoints p
                        | Some a \<Rightarrow> (po_endpoints p)(a := hs_endpoint s)),
       po_proxies := (case rc_proxy_health c of
                        None \<Rightarrow> po_proxies p
                      | Some a \<Rightarrow> (po_proxies p)(a := hs_proxy s)),
       po_egress_paths := (po_egress_paths p)(rc_egress_path_health c := hs_egress_path s),
       po_candidate_paths := (po_candidate_paths p)(rc_candidate_path_health c := hs_candidate_path s)\<rparr>"

definition handle_at :: "routing_pool \<Rightarrow> route_candidate \<Rightarrow> credential_handle" where
  "handle_at p c = po_handles p (rc_credential_id c)"

definition put_handle :: "route_candidate \<Rightarrow> credential_handle \<Rightarrow> routing_pool \<Rightarrow> routing_pool" where
  "put_handle c h p = p\<lparr>po_handles := (po_handles p)(rc_credential_id c := h)\<rparr>"

lemma health_at_handles [simp]: "health_at (p\<lparr>po_handles := hs\<rparr>) c = health_at p c"
  by (simp add: health_at_def)

section \<open>Operations\<close>

definition admission_active :: "routing_pool \<Rightarrow> route_candidate \<Rightarrow> bool" where
  "admission_active p c = is_active (po_admissions p) (rc_route_admission c)"

definition pool_availability ::
  "routing_pool \<Rightarrow> route_candidate \<Rightarrow> reliability_policy \<Rightarrow> instant \<Rightarrow>
   (routing_pool \<times> (candidate_health_error + unit)) option" where
  "pool_availability p c policy now =
     do { (s, result) \<leftarrow> health_availability (health_at p c) c policy now;
          Some (put_health c s p, result) }"

definition pool_try_reserve ::
  "routing_pool \<Rightarrow> route_candidate \<Rightarrow> bool \<Rightarrow> instant \<Rightarrow>
   (routing_pool \<times> (rate_limited + routing_permit)) option" where
  "pool_try_reserve p c fixed now =
     do { (h, result) \<leftarrow> binding_try_reserve (handle_at p c) (rc_binding c) fixed now;
          Some (put_handle c h p, result) }"

definition acquire_health_with_rpm_reservation ::
  "routing_pool \<Rightarrow> route_candidate \<Rightarrow> reliability_policy \<Rightarrow> routing_permit \<Rightarrow> instant \<Rightarrow>
   (routing_pool \<times> (candidate_health_error + routing_permit \<times> attempt_health)) option" where
  "acquire_health_with_rpm_reservation p c policy permit now =
     do { (s, result) \<leftarrow> acquire_health (health_at p c) c policy now;
          let p = put_health c s p;
          case result of
            Inr health \<Rightarrow> Some (p, Inr (permit, health))
          | Inl err \<Rightarrow>
              do { (e, h) \<leftarrow> permit_rollback (po_epoch p) (handle_at p c) permit;
                   Some (put_handle c h (p\<lparr>po_epoch := e\<rparr>), Inl err) } }"

definition record_filter :: "credential_filter_kind \<Rightarrow> route_candidate \<Rightarrow> routing_pool \<Rightarrow> routing_pool" where
  "record_filter kind c p =
     (let h = handle_at p c
      in put_handle c (h\<lparr>hd_balancing := metrics_record_filter kind (hd_balancing h)\<rparr>) p)"

definition record_selection :: "route_candidate \<Rightarrow> routing_pool \<Rightarrow> routing_pool" where
  "record_selection c p =
     (let h = handle_at p c
      in put_handle c (h\<lparr>hd_balancing := metrics_record_selection (hd_balancing h)\<rparr>) p)"

section \<open>What a pool offers\<close>

text \<open>
  Reading the health of a credential drops expired model cooldowns, and asking a window for a slot
  drops expired reservations. Two pools offer the same at an instant if they agree up to that,
  to the counters of the statistics, to the epoch and to the cursors.
\<close>

definition pruned_health :: "instant \<Rightarrow> credential_health \<Rightarrow> credential_health" where
  "pruned_health now h =
     h\<lparr>ch_model_cooldowns := filter (\<lambda>(model, m). \<not> mc_until m \<le> now) (ch_model_cooldowns h)\<rparr>"

definition settled_handle :: "instant \<Rightarrow> credential_handle \<Rightarrow> credential_handle" where
  "settled_handle now h =
     h\<lparr>hd_rate_window := rate_prune now (hd_rate_window h), hd_balancing := balancing_default\<rparr>"

definition same_offer :: "instant \<Rightarrow> routing_pool \<Rightarrow> routing_pool \<Rightarrow> bool" where
  "same_offer now p q \<longleftrightarrow>
     (\<forall>i. settled_handle now (po_handles q i) = settled_handle now (po_handles p i)) \<and>
     (\<forall>k. pruned_health now (po_credentials q k) = pruned_health now (po_credentials p k)) \<and>
     po_endpoints q = po_endpoints p \<and> po_proxies q = po_proxies p \<and>
     po_egress_paths q = po_egress_paths p \<and> po_candidate_paths q = po_candidate_paths p \<and>
     po_admissions q = po_admissions p"

lemma same_offer_refl [simp]: "same_offer now p p"
  by (simp add: same_offer_def)

lemma same_offer_trans [trans]: "same_offer now p q \<Longrightarrow> same_offer now q r \<Longrightarrow> same_offer now p r"
  by (simp add: same_offer_def)

text \<open>The answers of a pool, as functions of what it offers.\<close>

definition credential_verdict ::
  "credential_health \<Rightarrow> string \<Rightarrow> instant \<Rightarrow> health_acquire_error + unit" where
  "credential_verdict h model now =
     and_then (auth_availability h) (\<lambda>_.
       case max_by_until (blocks (pruned_health now h) model) of
         Some u \<Rightarrow> (if now < tu_until u then Inl (Temporary u) else Inr ())
       | None \<Rightarrow> Inr ())"

definition health_verdict ::
  "routing_pool \<Rightarrow> route_candidate \<Rightarrow> reliability_policy \<Rightarrow> instant \<Rightarrow> candidate_health_error + unit" where
  "health_verdict p c policy now =
     and_then (filtered_as FK_CredentialHealth
         (credential_verdict (po_credentials p (credential_key c)) (rc_upstream_model c) now))
       (\<lambda>_. paths_availability (health_at p c) c policy now)"

text \<open>\<open>None\<close> is a free slot, \<open>Some\<close> the refusal with the time it names.\<close>

definition rate_verdict ::
  "credential_handle \<Rightarrow> credential_binding \<Rightarrow> bool \<Rightarrow> instant \<Rightarrow> instant option option" where
  "rate_verdict h b fixed now =
     (case cb_requests_per_minute b of
        None \<Rightarrow> None
      | Some n \<Rightarrow>
          (let attempts = rw_attempts (rate_prune now (hd_rate_window h))
           in if n \<le> length attempts
              then Some (Some (res_started_at (attempts ! (length attempts - n)) + RATE_WINDOW))
              else if \<not> fixed \<and> n - length attempts \<le> hd_fixed_waiters h then Some None
              else None))"

lemma pruned_health_idem [simp]: "pruned_health now (pruned_health now h) = pruned_health now h"
  by (simp add: pruned_health_def)

lemma rate_prune_idem [simp]: "rate_prune now (rate_prune now w) = rate_prune now w"
  by (simp add: rate_prune_def dropWhile_idem)

lemma auth_availability_pruned [simp]:
  "auth_availability (pruned_health now h) = auth_availability h"
  by (simp add: auth_availability_def pruned_health_def)

lemma same_offer_credential:
  assumes "same_offer now p q"
  shows "pruned_health now (po_credentials q k) = pruned_health now (po_credentials p k)"
    "auth_availability (po_credentials q k) = auth_availability (po_credentials p k)"
proof -
  show eq: "pruned_health now (po_credentials q k) = pruned_health now (po_credentials p k)"
    using assms unfolding same_offer_def by blast
  show "auth_availability (po_credentials q k) = auth_availability (po_credentials p k)"
    using arg_cong [OF eq, of auth_availability] by simp
qed

lemma same_offer_handle:
  assumes "same_offer now p q"
  shows "rate_prune now (hd_rate_window (po_handles q i)) = rate_prune now (hd_rate_window (po_handles p i))"
    "hd_fixed_waiters (po_handles q i) = hd_fixed_waiters (po_handles p i)"
    "hd_in_flight (po_handles q i) = hd_in_flight (po_handles p i)"
proof -
  have "settled_handle now (po_handles q i) = settled_handle now (po_handles p i)"
    using assms by (simp add: same_offer_def)
  then show "rate_prune now (hd_rate_window (po_handles q i)) = rate_prune now (hd_rate_window (po_handles p i))"
    "hd_fixed_waiters (po_handles q i) = hd_fixed_waiters (po_handles p i)"
    "hd_in_flight (po_handles q i) = hd_in_flight (po_handles p i)"
    by (cases "po_handles q i", cases "po_handles p i", simp add: settled_handle_def)+
qed

lemma paths_availability_cong:
  "same_offer now p q \<Longrightarrow> paths_availability (health_at q c) c policy now = paths_availability (health_at p c) c policy now"
  by (simp add: same_offer_def paths_availability_def health_at_def)

lemma verdict_cong:
  assumes "same_offer now p q"
  shows "health_verdict q c policy now = health_verdict p c policy now"
    "rate_verdict (handle_at q c) b fixed now = rate_verdict (handle_at p c) b fixed now"
    "admission_active q c = admission_active p c"
proof -
  show "health_verdict q c policy now = health_verdict p c policy now"
    using same_offer_credential [OF assms] paths_availability_cong [OF assms]
    by (simp add: health_verdict_def credential_verdict_def)
  show "rate_verdict (handle_at q c) b fixed now = rate_verdict (handle_at p c) b fixed now"
    by (simp add: rate_verdict_def handle_at_def same_offer_handle [OF assms] Let_def split: option.split)
  show "admission_active q c = admission_active p c"
    using assms by (simp add: admission_active_def same_offer_def)
qed

section \<open>What the operations do\<close>

text \<open>The expired model cooldowns that reading a credential has to cancel.\<close>

definition overdue :: "instant \<Rightarrow> routing_pool \<Rightarrow> route_candidate \<Rightarrow> nat" where
  "overdue now p c = length (expired_models (po_credentials p (credential_key c)) now)"

lemma expired_models_pruned [simp]: "expired_models (pruned_health now h) now = []"
  by (auto simp: expired_models_def pruned_health_def filter_empty_conv)

lemma slot_cancel_generation:
  "slot_cancel e slot = Some e' \<Longrightarrow> ep_wake_generation e' \<le> Suc (ep_wake_generation e)"
  by (auto simp: slot_cancel_def prepare_cancellation_def publish_wake_def notify_wake_worker_def
      checked_add_u64_def case_prod_unfold Let_def bind_eq_Some_conv split: if_splits)

lemma drop_cooldowns_total:
  "ep_wake_generation e + length ms \<le> u64_max \<Longrightarrow>
   \<exists>e'. drop_cooldowns e ms = Some e' \<and> ep_wake_generation e' \<le> ep_wake_generation e + length ms"
proof (induction e ms rule: drop_cooldowns.induct)
  case (2 e model m ms)
  obtain e1 where e1: "slot_cancel e (mc_wake m) = Some e1"
    using slot_cancel_total [of e "mc_wake m"] 2(2) by auto
  have le: "ep_wake_generation e1 \<le> Suc (ep_wake_generation e)"
    using e1 by (rule slot_cancel_generation)
  obtain e2 where "drop_cooldowns e1 ms = Some e2"
    "ep_wake_generation e2 \<le> ep_wake_generation e1 + length ms"
    using 2(1) [OF e1] 2(2) le by auto
  then show ?case using e1 le by auto
qed simp

lemma credential_availability_spec:
  assumes "ep_wake_generation e + length (expired_models h now) \<le> u64_max"
  obtains e' h' where
    "credential_availability e h model now = Some (e', h', credential_verdict h model now)"
    "ep_wake_generation e' \<le> ep_wake_generation e + length (expired_models h now)"
    "pruned_health now h' = pruned_health now h"
    "h' = h \<or> h' = pruned_health now h"
    "credential_verdict h model now = Inr () \<longrightarrow> h' = pruned_health now h"
proof (cases "auth_availability h")
  case (Inl err)
  then show thesis
    by (intro that [of e h])
      (simp_all add: credential_availability_def credential_verdict_def and_then_def)
next
  case (Inr u)
  obtain e' where e': "drop_cooldowns e (expired_models h now) = Some e'"
    "ep_wake_generation e' \<le> ep_wake_generation e + length (expired_models h now)"
    using drop_cooldowns_total [OF assms] by auto
  show thesis
  proof (rule that [of e' "pruned_health now h"])
    show "credential_availability e h model now = Some (e', pruned_health now h, credential_verdict h model now)"
      using e'(1) Inr
      by (simp add: credential_availability_def routing_availability_def prune_expired_def
          credential_verdict_def and_then_def pruned_health_def)
  qed (use e' in simp_all)
qed

lemma paths_availability_credential [simp]:
  "paths_availability (s\<lparr>hs_epoch := e, hs_credential := h\<rparr>) c policy now = paths_availability s c policy now"
  by (simp add: paths_availability_def)

lemma put_health_credential:
  "put_health c ((health_at p c)\<lparr>hs_epoch := e, hs_credential := h\<rparr>) p =
     p\<lparr>po_epoch := e, po_credentials := (po_credentials p)(credential_key c := h)\<rparr>"
  by (cases p; cases "rc_endpoint_health c"; cases "rc_proxy_health c")
    (simp_all add: put_health_def health_at_def)

lemma pool_availability_spec:
  assumes "ep_wake_generation (po_epoch p) + overdue now p c \<le> u64_max"
  obtains q where
    "pool_availability p c policy now = Some (q, health_verdict p c policy now)"
    "same_offer now p q" "po_handles q = po_handles p" "po_cursors q = po_cursors p"
    "ep_wake_generation (po_epoch q) \<le> ep_wake_generation (po_epoch p) + overdue now p c"
    "\<forall>d. overdue now q d \<le> overdue now p d"
    "health_verdict p c policy now = Inr () \<longrightarrow> overdue now q c = 0"
proof -
  let ?h = "po_credentials p (credential_key c)"
  obtain e h where eh:
    "credential_availability (po_epoch p) ?h (rc_upstream_model c) now =
       Some (e, h, credential_verdict ?h (rc_upstream_model c) now)"
    "ep_wake_generation e \<le> ep_wake_generation (po_epoch p) + length (expired_models ?h now)"
    "pruned_health now h = pruned_health now ?h"
    "h = ?h \<or> h = pruned_health now ?h"
    "credential_verdict ?h (rc_upstream_model c) now = Inr () \<longrightarrow> h = pruned_health now ?h"
    by (rule credential_availability_spec [OF assms [unfolded overdue_def], where model = "rc_upstream_model c"])
  let ?q = "p\<lparr>po_epoch := e, po_credentials := (po_credentials p)(credential_key c := h)\<rparr>"
  have at: "hs_epoch (health_at p c) = po_epoch p" "hs_credential (health_at p c) = ?h"
    by (simp_all add: health_at_def)
  show thesis
  proof (rule that [of ?q])
    show "pool_availability p c policy now = Some (?q, health_verdict p c policy now)"
      by (simp add: pool_availability_def health_availability_def at eh(1) Let_def
          put_health_credential health_verdict_def)
    show "same_offer now p ?q"
      using eh(3) by (simp add: same_offer_def)
    show "\<forall>d. overdue now ?q d \<le> overdue now p d"
      using eh(4) by (auto simp: overdue_def)
    show "health_verdict p c policy now = Inr () \<longrightarrow> overdue now ?q c = 0"
      using eh(5)
      by (auto simp: overdue_def health_verdict_def and_then_def filtered_as_def split: sum.splits)
  qed (use eh in \<open>simp_all add: overdue_def\<close>)
qed

text \<open>Room in the counters of a handle, and a limit that the configuration accepts.\<close>

definition rate_room :: "routing_pool \<Rightarrow> route_candidate \<Rightarrow> bool" where
  "rate_room p c \<longleftrightarrow>
     hd_in_flight (handle_at p c) < u32_max \<and>
     rw_next_reservation_id (hd_rate_window (handle_at p c)) < u64_max \<and>
     cb_requests_per_minute (rc_binding c) \<noteq> Some 0"

lemma try_reserve_verdict:
  assumes "rw_next_reservation_id (hd_rate_window h) < u64_max" "cb_requests_per_minute b \<noteq> Some 0"
  shows "case rate_verdict h b fixed now of
      Some t \<Rightarrow> try_reserve (hd_rate_window h) now (cb_requests_per_minute b) (hd_fixed_waiters h) fixed =
        Some (rate_prune now (hd_rate_window h), Inl (RateLimited t))
    | None \<Rightarrow> \<exists>w r. try_reserve (hd_rate_window h) now (cb_requests_per_minute b) (hd_fixed_waiters h) fixed =
        Some (w, Inr r) \<and>
        rw_attempts w = rw_attempts (rate_prune now (hd_rate_window h)) @ (case r of None \<Rightarrow> [] | Some x \<Rightarrow> [x])"
  using assms
  by (auto simp: rate_verdict_def try_reserve_def next_available_at_def checked_add_u64_def
      rate_prune_next Let_def split: option.split)

lemma pool_try_reserve_limited:
  assumes "rate_room p c" "rate_verdict (handle_at p c) (rc_binding c) fixed now = Some t"
  obtains q where
    "pool_try_reserve p c fixed now = Some (q, Inl (RateLimited t))" "same_offer now p q"
    "po_epoch q = po_epoch p" "po_credentials q = po_credentials p" "po_cursors q = po_cursors p"
    "\<forall>d. rate_room q d = rate_room p d"
proof -
  let ?h = "handle_at p c"
  let ?q = "put_handle c (?h\<lparr>hd_rate_window := rate_prune now (hd_rate_window ?h)\<rparr>) p"
  have "try_reserve (hd_rate_window ?h) now (cb_requests_per_minute (rc_binding c)) (hd_fixed_waiters ?h) fixed =
      Some (rate_prune now (hd_rate_window ?h), Inl (RateLimited t))"
    using try_reserve_verdict [of ?h "rc_binding c" now fixed] assms by (simp add: rate_room_def)
  then have "pool_try_reserve p c fixed now = Some (?q, Inl (RateLimited t))"
    by (simp add: pool_try_reserve_def binding_try_reserve_eq)
  then show thesis
    by (rule that) (simp_all add: same_offer_def put_handle_def handle_at_def settled_handle_def
        rate_room_def rate_prune_next)
qed

lemma pool_try_reserve_granted:
  assumes "rate_room p c" "rate_verdict (handle_at p c) (rc_binding c) fixed now = None"
  obtains q permit w where
    "pool_try_reserve p c fixed now = Some (q, Inr permit)"
    "q = put_handle c ((handle_at p c)\<lparr>hd_rate_window := w, hd_in_flight := Suc (hd_in_flight (handle_at p c))\<rparr>) p"
    "permit = \<lparr> rp_generation = cb_generation (rc_binding c), rp_rate_reservation = rp_rate_reservation permit,
                rp_route_admission = cb_route_admission (rc_binding c), rp_attempt_start = None \<rparr>"
    "rw_attempts w = rw_attempts (rate_prune now (hd_rate_window (handle_at p c))) @
       (case rp_rate_reservation permit of None \<Rightarrow> [] | Some x \<Rightarrow> [x])"
proof -
  let ?h = "handle_at p c"
  obtain w r where w: "try_reserve (hd_rate_window ?h) now (cb_requests_per_minute (rc_binding c))
      (hd_fixed_waiters ?h) fixed = Some (w, Inr r)"
    "rw_attempts w = rw_attempts (rate_prune now (hd_rate_window ?h)) @ (case r of None \<Rightarrow> [] | Some x \<Rightarrow> [x])"
    using try_reserve_verdict [of ?h "rc_binding c" now fixed] assms by (auto simp: rate_room_def)
  let ?permit = "\<lparr> rp_generation = cb_generation (rc_binding c), rp_rate_reservation = r,
      rp_route_admission = cb_route_admission (rc_binding c), rp_attempt_start = None \<rparr>"
  have "pool_try_reserve p c fixed now =
      Some (put_handle c (?h\<lparr>hd_rate_window := w, hd_in_flight := Suc (hd_in_flight ?h)\<rparr>) p, Inr ?permit)"
    using w(1) assms(1) by (simp add: pool_try_reserve_def binding_try_reserve_eq rate_room_def)
  then show thesis
    by (rule that [of _ ?permit w]) (simp_all add: w(2))
qed

text \<open>An attempt whose checks all agree is acquired.\<close>

lemma acquire_paths_available:
  assumes "paths_availability s c policy now = Inr ()"
  obtains s' a where "acquire_paths s c policy now = Some (s', Inr a)"
    "rc_endpoint_health c = None \<longrightarrow> hs_endpoint s' = hs_endpoint s"
    "rc_proxy_health c = None \<longrightarrow> hs_proxy s' = hs_proxy s"
proof -
  obtain s1 r1 where a1: "acquire_endpoint s c policy now = (s1, r1)" by fastforce
  obtain s2 r2 where a2: "acquire_proxy s1 c policy now = (s2, r2)" by fastforce
  obtain h3 r3 where a3: "endpoint_try_acquire (hs_egress_path s2) policy now = (h3, r3)" by fastforce
  obtain h4 r4 where a4: "endpoint_try_acquire (hs_candidate_path s2) policy now = (h4, r4)" by fastforce
  obtain h where s1: "s1 = s\<lparr>hs_endpoint := h\<rparr>" using acquire_endpoint_probes [OF a1] by blast
  obtain h' where s2: "s2 = s1\<lparr>hs_proxy := h'\<rparr>" using acquire_proxy_probes [OF a2] by blast
  have none: "rc_endpoint_health c = None \<Longrightarrow> h = hs_endpoint s"
    "rc_proxy_health c = None \<Longrightarrow> h' = hs_proxy s"
    using a1 a2 s1 s2 by (cases s; auto simp: acquire_endpoint_def acquire_proxy_def)+
  have ok: "and_then (if rc_endpoint_health c = None then Inr ()
       else filtered_as FK_EndpointHealth (endpoint_availability (hs_endpoint s) policy now)) (\<lambda>_. Inr ()) = Inr ()"
    "and_then (if rc_proxy_health c = None then Inr ()
       else filtered_as FK_ProxyHealth (proxy_availability (hs_proxy s1) policy now)) (\<lambda>_. Inr ()) = Inr ()"
    "endpoint_availability (hs_egress_path s2) policy now = Inr ()"
    "endpoint_availability (hs_candidate_path s2) policy now = Inr ()"
    using assms by (auto simp: paths_availability_def and_then_def filtered_as_def s1 s2 split: sum.splits if_splits)
  have "\<exists>x. r1 = Inr x"
    using ok(1) a1
    by (cases "snd (endpoint_try_acquire (hs_endpoint s) policy now)")
      (auto simp: acquire_endpoint_def availability_eq and_then_def filtered_as_def case_prod_unfold Let_def
        split: option.split_asm)
  moreover have "\<exists>x. r2 = Inr x"
    using ok(2) a2
    by (cases "snd (proxy_try_acquire (hs_proxy s1) policy now)")
      (auto simp: acquire_proxy_def availability_eq and_then_def filtered_as_def case_prod_unfold Let_def
        split: option.split_asm)
  moreover have "\<exists>x. r3 = Inr x" "\<exists>x. r4 = Inr x"
    using ok(3,4) a3 a4 by (cases r3; cases r4; simp add: availability_eq)+
  ultimately obtain a where "acquire_paths s c policy now =
      Some (s2\<lparr>hs_egress_path := h3, hs_candidate_path := h4\<rparr>, Inr a)"
    by (auto simp: acquire_paths_def a1 a2 a3 a4 Let_def)
  then show thesis
    by (rule that) (use none in \<open>simp_all add: s1 s2\<close>)
qed

lemma pool_acquire_granted:
  assumes "health_verdict p c policy now = Inr ()"
    and "ep_wake_generation (po_epoch p) + overdue now p c \<le> u64_max"
  obtains q health where
    "acquire_health_with_rpm_reservation p c policy permit now = Some (q, Inr (permit, health))"
    "po_handles q = po_handles p" "po_cursors q = po_cursors p" "po_admissions q = po_admissions p"
    "probes (health_at q c) = map2 (+) (probes (health_at p c)) (attempt_probes health)"
proof -
  let ?h = "po_credentials p (credential_key c)"
  obtain e h where eh:
    "credential_availability (po_epoch p) ?h (rc_upstream_model c) now =
       Some (e, h, credential_verdict ?h (rc_upstream_model c) now)"
    by (rule credential_availability_spec [OF assms(2) [unfolded overdue_def], where model = "rc_upstream_model c"])
  have verdict: "credential_verdict ?h (rc_upstream_model c) now = Inr ()"
    "paths_availability (health_at p c) c policy now = Inr ()"
    using assms(1) by (auto simp: health_verdict_def and_then_def filtered_as_def split: sum.splits)
  let ?s = "(health_at p c)\<lparr>hs_epoch := e, hs_credential := h\<rparr>"
  have "paths_availability ?s c policy now = Inr ()"
    using verdict(2) by simp
  then obtain s' a where a: "acquire_paths ?s c policy now = Some (s', Inr a)"
    and none: "rc_endpoint_health c = None \<longrightarrow> hs_endpoint s' = hs_endpoint ?s"
      "rc_proxy_health c = None \<longrightarrow> hs_proxy s' = hs_proxy ?s"
    by (rule acquire_paths_available)
  have at: "hs_epoch (health_at p c) = po_epoch p" "hs_credential (health_at p c) = ?h"
    by (simp_all add: health_at_def)
  have acquired: "acquire_health (health_at p c) c policy now = Some (s', Inr a)"
    using a verdict(1) by (simp add: acquire_health_def at eh Let_def filtered_as_def)
  show thesis
  proof (rule that [of "put_health c s' p" a])
    show "acquire_health_with_rpm_reservation p c policy permit now = Some (put_health c s' p, Inr (permit, a))"
      by (simp add: acquire_health_with_rpm_reservation_def acquired Let_def)
    have "probes s' = map2 (+) (probes ?s) (attempt_probes a)"
      using acquire_paths_probes [OF a] by simp
    moreover have "probes (health_at (put_health c s' p) c) = probes s'"
      using none
      by (cases "rc_endpoint_health c"; cases "rc_proxy_health c")
        (simp_all add: probes_def health_at_def put_health_def)
    ultimately show "probes (health_at (put_health c s' p) c) = map2 (+) (probes (health_at p c)) (attempt_probes a)"
      by simp
  qed (simp_all add: put_health_def)
qed

end
