(* ===== verification/Candidate_Selection.thy ===== *)
theory Candidate_Selection
  imports Candidate_Pool Retry_Decision "HOL-Library.Multiset"
begin

text \<open>
  One round of candidate selection: \<open>crates/runtime/src/public_request/selection/\<close>
  (\<open>tier.rs\<close>, \<open>filter_recorder.rs\<close>, and \<open>try_select\<close> of \<open>generation.rs\<close>).

  The candidates of a tier are visited by preference and, within a preference, in a rotated order;
  the first one that is admitted, allowed, healthy and has a free request slot is taken. The tiers
  are visited in order. What blocks the others is kept as the earliest time at which it may end.
  \<open>None\<close> is a panic.
\<close>

section \<open>Filters and notes\<close>

record selected_candidate =
  sc_candidate :: route_candidate
  sc_permit :: routing_permit
  sc_health :: attempt_health

type_synonym filter_recorder = "(routing_credential_id \<times> credential_filter_kind) set"

text \<open>A credential is counted once per reason and request.\<close>

definition recorder_record ::
  "route_candidate \<Rightarrow> credential_filter_kind \<Rightarrow> routing_pool \<times> filter_recorder \<Rightarrow>
   routing_pool \<times> filter_recorder" where
  "recorder_record c kind st =
     (case st of (p, seen) \<Rightarrow>
        if (rc_credential_id c, kind) \<in> seen then (p, seen)
        else (record_filter kind c p, insert (rc_credential_id c, kind) seen))"

record scan_notes =
  sn_outage_retry_at :: "instant option"
  sn_cooldown_retry_at :: "instant option"
  sn_rate_retry_at :: "instant option"
  sn_deferred_retry_at :: "instant option"
  sn_saw_rate_limit :: bool

definition no_notes :: scan_notes where
  "no_notes =
     \<lparr> sn_outage_retry_at = None, sn_cooldown_retry_at = None, sn_rate_retry_at = None,
       sn_deferred_retry_at = None, sn_saw_rate_limit = False \<rparr>"

definition earliest :: "instant option \<Rightarrow> instant \<Rightarrow> instant option" where
  "earliest current candidate =
     Some (case current of None \<Rightarrow> candidate | Some current \<Rightarrow> min current candidate)"

definition earliest_optional :: "instant option \<Rightarrow> instant option \<Rightarrow> instant option" where
  "earliest_optional current candidate =
     (case candidate of
        Some candidate \<Rightarrow> Some (case current of None \<Rightarrow> candidate | Some current \<Rightarrow> min current candidate)
      | None \<Rightarrow> current)"

definition note_temporary :: "temporary_unavailability \<Rightarrow> scan_notes \<Rightarrow> scan_notes" where
  "note_temporary u n =
     (case tu_cause u of
        Outage \<Rightarrow> n\<lparr>sn_outage_retry_at := earliest (sn_outage_retry_at n) (tu_until u)\<rparr>
      | RateLimitCooldown \<Rightarrow> n\<lparr>sn_cooldown_retry_at := earliest (sn_cooldown_retry_at n) (tu_until u)\<rparr>)"

text \<open>The pool, what the request's recorder has seen, and the notes of the scan.\<close>

record scan_state =
  sk_pool :: routing_pool
  sk_filters :: filter_recorder
  sk_notes :: scan_notes

definition scan_record ::
  "route_candidate \<Rightarrow> credential_filter_kind \<Rightarrow> scan_state \<Rightarrow> scan_state" where
  "scan_record c kind st =
     (let (p, seen) = recorder_record c kind (sk_pool st, sk_filters st)
      in st\<lparr>sk_pool := p, sk_filters := seen\<rparr>)"

definition note_health_error :: "route_candidate \<Rightarrow> candidate_health_error \<Rightarrow> scan_state \<Rightarrow> scan_state" where
  "note_health_error c err st =
     (let st = scan_record c (che_kind err) st
      in case che_source err of
           Temporary u \<Rightarrow> st\<lparr>sk_notes := note_temporary u (sk_notes st)\<rparr>
         | Permanent \<Rightarrow> st)"

section \<open>Scanning a tier\<close>

text \<open>What a round of selection is given: the reliability policy, what the request remembers, and
  which credentials are eligible.\<close>

record selection_input =
  si_policy :: reliability_policy
  si_selection_state :: selection_state
  si_credential_eligible :: "routing_credential_id \<Rightarrow> bool"

text \<open>The body of the inner loop after the candidate was found to be considered.\<close>

definition try_candidate ::
  "selection_input \<Rightarrow> instant \<Rightarrow> route_candidate \<Rightarrow> scan_state \<Rightarrow>
   (scan_state \<times> selected_candidate option) option" where
  "try_candidate i now c st =
     do { (p, available) \<leftarrow> pool_availability (sk_pool st) c (si_policy i) now;
          let st = st\<lparr>sk_pool := p\<rparr>;
          case available of
            Inl err \<Rightarrow> Some (note_health_error c err st, None)
          | Inr _ \<Rightarrow>
              do { (p, reserved) \<leftarrow> pool_try_reserve (sk_pool st) c False now;
                   let st = st\<lparr>sk_pool := p\<rparr>;
                   case reserved of
                     Inl (RateLimited retry_at) \<Rightarrow>
                       (let st = scan_record c FK_RateLimit st
                        in Some (st\<lparr>sk_notes := (sk_notes st)
                                     \<lparr>sn_saw_rate_limit := True,
                                      sn_rate_retry_at := earliest_optional (sn_rate_retry_at (sk_notes st)) retry_at\<rparr>\<rparr>,
                                 None))
                   | Inr permit \<Rightarrow>
                       do { (p, acquired) \<leftarrow>
                              acquire_health_with_rpm_reservation (sk_pool st) c (si_policy i) permit now;
                            let st = st\<lparr>sk_pool := p\<rparr>;
                            case acquired of
                              Inl err \<Rightarrow> Some (note_health_error c err st, None)
                            | Inr (permit, health) \<Rightarrow>
                                Some (st\<lparr>sk_pool := record_selection c (sk_pool st)\<rparr>,
                                      Some \<lparr> sc_candidate = c, sc_permit = permit, sc_health = health \<rparr>) } } }"

definition scan_candidate ::
  "selection_input \<Rightarrow> instant \<Rightarrow> nat \<Rightarrow> route_candidate \<Rightarrow> scan_state \<Rightarrow>
   (scan_state \<times> selected_candidate option) option" where
  "scan_candidate i now preference c st =
     (if \<not> admission_active (sk_pool st) c \<or>
         retry_preference (si_selection_state i) c \<noteq> preference \<or>
         \<not> allows (si_selection_state i) c \<or>
         \<not> si_credential_eligible i (rc_credential_id c)
      then Some (st, None)
      else case deferred_until (si_selection_state i) c of
             Some not_before \<Rightarrow>
               (if now < not_before
                then Some (st\<lparr>sk_notes := (sk_notes st)
                               \<lparr>sn_deferred_retry_at :=
                                  earliest_optional (sn_deferred_retry_at (sk_notes st)) (Some not_before)\<rparr>\<rparr>,
                           None)
                else try_candidate i now c st)
           | None \<Rightarrow> try_candidate i now c st)"

fun scan_offsets ::
  "selection_input \<Rightarrow> instant \<Rightarrow> route_candidate list \<Rightarrow> nat \<Rightarrow> nat \<Rightarrow> nat list \<Rightarrow> scan_state \<Rightarrow>
   (scan_state \<times> (selected_candidate \<times> nat) option) option" where
  "scan_offsets i now candidates start preference [] st = Some (st, None)"
| "scan_offsets i now candidates start preference (offset # offsets) st =
     do { (st, found) \<leftarrow> scan_candidate i now preference
            (candidates ! ((start + offset) mod length candidates)) st;
          case found of
            Some selected \<Rightarrow> Some (st, Some (selected, offset))
          | None \<Rightarrow> scan_offsets i now candidates start preference offsets st }"

fun scan_preferences ::
  "selection_input \<Rightarrow> instant \<Rightarrow> route_candidate list \<Rightarrow> nat \<Rightarrow> nat list \<Rightarrow> scan_state \<Rightarrow>
   (scan_state \<times> (selected_candidate \<times> nat) option) option" where
  "scan_preferences i now candidates start [] st = Some (st, None)"
| "scan_preferences i now candidates start (preference # preferences) st =
     do { (st, found) \<leftarrow> scan_offsets i now candidates start preference [0..<length candidates] st;
          case found of
            Some selected \<Rightarrow> Some (st, Some selected)
          | None \<Rightarrow> scan_preferences i now candidates start preferences st }"

datatype tier_scan =
    TS_Acquired selected_candidate nat
  | TS_RateLimited "instant option" "instant option" "instant option" "instant option"
  | TS_Exhausted "instant option" "instant option" "instant option"

definition tier_scan_result :: "scan_notes \<Rightarrow> (selected_candidate \<times> nat) option \<Rightarrow> tier_scan" where
  "tier_scan_result n found =
     (case found of
        Some (selected, offset) \<Rightarrow> TS_Acquired selected offset
      | None \<Rightarrow>
          (if sn_saw_rate_limit n
           then TS_RateLimited (sn_rate_retry_at n) (sn_outage_retry_at n) (sn_cooldown_retry_at n)
                  (sn_deferred_retry_at n)
           else TS_Exhausted (sn_outage_retry_at n) (sn_cooldown_retry_at n) (sn_deferred_retry_at n)))"

definition scan_tier ::
  "selection_input \<Rightarrow> instant \<Rightarrow> route_candidate list \<Rightarrow> u64 \<Rightarrow> routing_pool \<Rightarrow> filter_recorder \<Rightarrow>
   (routing_pool \<times> filter_recorder \<times> tier_scan) option" where
  "scan_tier i now candidates tie_breaker p filters =
     (if candidates = [] then Some (p, filters, TS_Exhausted None None None)
      else do { (st, found) \<leftarrow>
                  scan_preferences i now candidates (unat tie_breaker mod length candidates)
                    [0..<RETRY_PREFERENCE_LEVELS]
                    \<lparr> sk_pool = p, sk_filters = filters, sk_notes = no_notes \<rparr>;
                Some (sk_pool st, sk_filters st, tier_scan_result (sk_notes st) found) })"

section \<open>Selecting over the tiers\<close>

datatype generation_selection =
    GS_Acquired selected_candidate
  | GS_RateLimited "instant option"
  | GS_TemporarilyUnavailable instant
  | GS_RetryDeferred instant
  | GS_NoCandidates

text \<open>The cursor of a tier of a route: reserving returns the old value; both wrap.\<close>

definition cursor_reserve :: "route_id \<times> nat \<Rightarrow> routing_pool \<Rightarrow> routing_pool \<times> u64 option" where
  "cursor_reserve k p =
     (case po_cursors p k of
        None \<Rightarrow> (p, None)
      | Some n \<Rightarrow> (p\<lparr>po_cursors := (po_cursors p)(k \<mapsto> n + 1)\<rparr>, Some n))"

definition cursor_advance_by :: "route_id \<times> nat \<Rightarrow> nat \<Rightarrow> routing_pool \<Rightarrow> routing_pool \<times> bool" where
  "cursor_advance_by k skipped p =
     (case po_cursors p k of
        None \<Rightarrow> (p, False)
      | Some n \<Rightarrow>
          (if 0 < skipped then (p\<lparr>po_cursors := (po_cursors p)(k \<mapsto> n + of_nat skipped)\<rparr>, True)
           else (p, True)))"

definition internal_error :: public_error where
  "internal_error = public_error_new PE_InternalError ''internal request planning failed''"

definition has_active_deferral ::
  "selection_input \<Rightarrow> instant \<Rightarrow> (nat \<times> route_candidate list) list \<Rightarrow> routing_pool \<Rightarrow> bool" where
  "has_active_deferral i now tiers p \<longleftrightarrow>
     list_ex (\<lambda>c. admission_active p c \<and> allows (si_selection_state i) c \<and>
                  si_credential_eligible i (rc_credential_id c) \<and>
                  (case deferred_until (si_selection_state i) c of
                     None \<Rightarrow> False
                   | Some not_before \<Rightarrow> now < not_before))
       (concat (map snd tiers))"

record generation_notes =
  gn_saw_rate_limit :: bool
  gn_rate_retry_at :: "instant option"
  gn_skipped_retry_at :: "instant option"
  gn_deferred_retry_at :: "instant option"

definition note_skipped :: "instant option \<Rightarrow> instant option \<Rightarrow> generation_notes \<Rightarrow> generation_notes" where
  "note_skipped outage_at cooldown_at g =
     g\<lparr>gn_skipped_retry_at := earliest_optional (earliest_optional (gn_skipped_retry_at g) outage_at) cooldown_at\<rparr>"

fun min_instant :: "instant option list \<Rightarrow> instant option" where
  "min_instant [] = None"
| "min_instant (None # ts) = min_instant ts"
| "min_instant (Some t # ts) =
     (case min_instant ts of None \<Rightarrow> Some t | Some u \<Rightarrow> Some (min t u))"

text \<open>After the last tier. The \<open>None\<close> outside is the panic of the \<open>expect\<close>.\<close>

definition selection_end :: "generation_notes \<Rightarrow> generation_selection option" where
  "selection_end g =
     (let wake = min_instant [gn_deferred_retry_at g, gn_rate_retry_at g, gn_skipped_retry_at g]
      in if gn_deferred_retry_at g \<noteq> None then map_option GS_RetryDeferred wake
         else if gn_saw_rate_limit g then Some (GS_RateLimited wake)
         else case gn_skipped_retry_at g of
                Some retry_at \<Rightarrow> Some (GS_TemporarilyUnavailable retry_at)
              | None \<Rightarrow> Some GS_NoCandidates)"

fun select_tiers ::
  "selection_input \<Rightarrow> instant \<Rightarrow> route_id \<Rightarrow> bool \<Rightarrow> bool \<Rightarrow> (nat \<times> route_candidate list) list \<Rightarrow>
   generation_notes \<Rightarrow> routing_pool \<Rightarrow> filter_recorder \<Rightarrow>
   (routing_pool \<times> filter_recorder \<times> (public_error + generation_selection)) option" where
  "select_tiers i now route fallback deferral [] g p filters =
     do { selection \<leftarrow> selection_end g; Some (p, filters, Inr selection) }"
| "select_tiers i now route fallback deferral ((tier, candidates) # tiers) g p filters =
     (case cursor_reserve (route, tier) p of
        (p, None) \<Rightarrow> Some (p, filters, Inl internal_error)
      | (p, Some tie_breaker) \<Rightarrow>
          do { (p, filters, scan) \<leftarrow> scan_tier i now candidates tie_breaker p filters;
               case scan of
                 TS_Acquired selected skipped \<Rightarrow>
                   (case cursor_advance_by (route, tier) skipped p of
                      (p, False) \<Rightarrow> Some (p, filters, Inl internal_error)
                    | (p, True) \<Rightarrow> Some (p, filters, Inr (GS_Acquired selected)))
               | TS_RateLimited retry_at outage_at cooldown_at deferred_at \<Rightarrow>
                   (let g = note_skipped outage_at cooldown_at
                              (g\<lparr>gn_saw_rate_limit := True,
                                 gn_rate_retry_at := earliest_optional (gn_rate_retry_at g) retry_at,
                                 gn_deferred_retry_at := earliest_optional (gn_deferred_retry_at g) deferred_at\<rparr>)
                    in if \<not> fallback \<and> \<not> deferral
                       then Some (p, filters, Inr (GS_RateLimited
                              (earliest_optional (gn_rate_retry_at g) (gn_skipped_retry_at g))))
                       else select_tiers i now route fallback deferral tiers g p filters)
               | TS_Exhausted outage_at cooldown_at deferred_at \<Rightarrow>
                   (let g = g\<lparr>gn_deferred_retry_at := earliest_optional (gn_deferred_retry_at g) deferred_at\<rparr>
                    in case cooldown_at of
                         Some retry_at \<Rightarrow>
                           (if \<not> fallback \<and> \<not> deferral
                            then Some (p, filters, Inr (GS_TemporarilyUnavailable
                                   (case outage_at of None \<Rightarrow> retry_at | Some t \<Rightarrow> min t retry_at)))
                            else select_tiers i now route fallback deferral tiers
                                   (note_skipped outage_at cooldown_at g) p filters)
                       | None \<Rightarrow>
                           select_tiers i now route fallback deferral tiers
                             (note_skipped outage_at cooldown_at g) p filters) })"

definition try_select ::
  "selection_input \<Rightarrow> instant \<Rightarrow> route_id \<Rightarrow> bool \<Rightarrow> (nat \<times> route_candidate list) list \<Rightarrow>
   routing_pool \<Rightarrow> filter_recorder \<Rightarrow>
   (routing_pool \<times> filter_recorder \<times> (public_error + generation_selection)) option" where
  "try_select i now route fallback tiers p filters =
     select_tiers i now route fallback (has_active_deferral i now tiers p) tiers
       \<lparr> gn_saw_rate_limit = False, gn_rate_retry_at = None, gn_skipped_retry_at = None,
         gn_deferred_retry_at = None \<rparr> p filters"

section \<open>Verdicts\<close>

text \<open>What a pool has to say about a candidate at an instant.\<close>

datatype candidate_verdict =
    CV_Ignored
  | CV_Deferred instant
  | CV_Unhealthy candidate_health_error
  | CV_RateLimited "instant option"
  | CV_Available

definition usable_verdict ::
  "selection_input \<Rightarrow> instant \<Rightarrow> routing_pool \<Rightarrow> route_candidate \<Rightarrow> candidate_verdict" where
  "usable_verdict i now p c =
     (case health_verdict p c (si_policy i) now of
        Inl err \<Rightarrow> CV_Unhealthy err
      | Inr _ \<Rightarrow>
          (case rate_verdict (handle_at p c) (rc_binding c) False now of
             Some t \<Rightarrow> CV_RateLimited t
           | None \<Rightarrow> CV_Available))"

definition verdict ::
  "selection_input \<Rightarrow> instant \<Rightarrow> routing_pool \<Rightarrow> route_candidate \<Rightarrow> candidate_verdict" where
  "verdict i now p c =
     (if \<not> (admission_active p c \<and> allows (si_selection_state i) c \<and>
            si_credential_eligible i (rc_credential_id c))
      then CV_Ignored
      else case deferred_until (si_selection_state i) c of
             Some t \<Rightarrow> (if now < t then CV_Deferred t else usable_verdict i now p c)
           | None \<Rightarrow> usable_verdict i now p c)"

lemma verdict_same_offer:
  "same_offer now p q \<Longrightarrow> verdict i now q c = verdict i now p c"
  by (simp add: verdict_def usable_verdict_def verdict_cong split: option.split)

fun note_verdict :: "candidate_verdict \<Rightarrow> scan_notes \<Rightarrow> scan_notes" where
  "note_verdict (CV_Deferred t) n =
     n\<lparr>sn_deferred_retry_at := earliest_optional (sn_deferred_retry_at n) (Some t)\<rparr>"
| "note_verdict (CV_Unhealthy err) n =
     (case che_source err of Temporary u \<Rightarrow> note_temporary u n | Permanent \<Rightarrow> n)"
| "note_verdict (CV_RateLimited t) n =
     n\<lparr>sn_saw_rate_limit := True, sn_rate_retry_at := earliest_optional (sn_rate_retry_at n) t\<rparr>"
| "note_verdict _ n = n"

text \<open>What taking a candidate changes: one more request of its credential in flight, the probe
  slots the attempt holds, and nothing at any other credential.\<close>

definition taken :: "instant \<Rightarrow> routing_pool \<Rightarrow> selected_candidate \<Rightarrow> routing_pool \<Rightarrow> bool" where
  "taken now p sel q \<longleftrightarrow>
     (let c = sc_candidate sel in
      hd_in_flight (handle_at q c) = Suc (hd_in_flight (handle_at p c)) \<and>
      rw_attempts (hd_rate_window (handle_at q c)) =
        rw_attempts (rate_prune now (hd_rate_window (handle_at p c))) @
          (case rp_rate_reservation (sc_permit sel) of None \<Rightarrow> [] | Some r \<Rightarrow> [r]) \<and>
      rp_generation (sc_permit sel) = cb_generation (rc_binding c) \<and>
      rp_route_admission (sc_permit sel) = cb_route_admission (rc_binding c) \<and>
      probes (health_at q c) = map2 (+) (probes (health_at p c)) (attempt_probes (sc_health sel)) \<and>
      (\<forall>k. k \<noteq> rc_credential_id c \<longrightarrow>
         settled_handle now (po_handles q k) = settled_handle now (po_handles p k)) \<and>
      po_admissions q = po_admissions p)"

lemma probes_same_offer: "same_offer now p q \<Longrightarrow> probes (health_at q c) = probes (health_at p c)"
  by (simp add: same_offer_def probes_def health_at_def)

lemma taken_same_offer:
  assumes "same_offer now p q" "taken now q sel r"
  shows "taken now p sel r"
proof -
  note h = same_offer_handle [OF assms(1)]
  show ?thesis
    using assms probes_same_offer [OF assms(1), of "sc_candidate sel"]
    by (simp add: taken_def Let_def handle_at_def h same_offer_def)
qed

section \<open>Visiting one candidate\<close>

lemma record_filter_offer:
  "same_offer now p (record_filter kind c p)" "po_epoch (record_filter kind c p) = po_epoch p"
  "po_credentials (record_filter kind c p) = po_credentials p"
  "po_cursors (record_filter kind c p) = po_cursors p"
  "rate_room (record_filter kind c p) d = rate_room p d"
  by (simp_all add: record_filter_def same_offer_def settled_handle_def put_handle_def handle_at_def
      rate_room_def Let_def)

text \<open>Room in every counter that visiting a candidate may increment.\<close>

definition visit_room :: "instant \<Rightarrow> routing_pool \<Rightarrow> route_candidate list \<Rightarrow> bool" where
  "visit_room now p cs \<longleftrightarrow>
     ep_wake_generation (po_epoch p) + sum_list (map (overdue now p) cs) \<le> u64_max \<and>
     (\<forall>c\<in>set cs. rate_room p c)"

text \<open>A step that changed nothing but notes, statistics and expired entries, and left room.\<close>

definition quiet_step :: "instant \<Rightarrow> scan_state \<Rightarrow> route_candidate \<Rightarrow> scan_state \<Rightarrow> bool" where
  "quiet_step now st c st' \<longleftrightarrow>
     same_offer now (sk_pool st) (sk_pool st') \<and> po_cursors (sk_pool st') = po_cursors (sk_pool st) \<and>
     ep_wake_generation (po_epoch (sk_pool st')) \<le>
       ep_wake_generation (po_epoch (sk_pool st)) + overdue now (sk_pool st) c \<and>
     (\<forall>d. overdue now (sk_pool st') d \<le> overdue now (sk_pool st) d) \<and>
     (\<forall>d. rate_room (sk_pool st') d = rate_room (sk_pool st) d)"

lemma scan_record_simps [simp]:
  "sk_notes (scan_record c kind st) = sk_notes st"
  "same_offer now (sk_pool st) (sk_pool (scan_record c kind st))"
  "po_epoch (sk_pool (scan_record c kind st)) = po_epoch (sk_pool st)"
  "po_credentials (sk_pool (scan_record c kind st)) = po_credentials (sk_pool st)"
  "po_cursors (sk_pool (scan_record c kind st)) = po_cursors (sk_pool st)"
  "rate_room (sk_pool (scan_record c kind st)) d = rate_room (sk_pool st) d"
  by (simp_all add: scan_record_def recorder_record_def record_filter_offer)

lemma note_health_error_quiet:
  assumes "quiet_step now st c st'"
  shows "quiet_step now st c (note_health_error c err st')"
    "sk_notes (note_health_error c err st') = note_verdict (CV_Unhealthy err) (sk_notes st')"
  using assms same_offer_trans [of now "sk_pool st" "sk_pool st'"]
  by (auto simp: quiet_step_def note_health_error_def Let_def overdue_def split: health_acquire_error.split)

lemma try_candidate_spec:
  assumes "ep_wake_generation (po_epoch (sk_pool st)) + overdue now (sk_pool st) c \<le> u64_max"
    and "rate_room (sk_pool st) c"
  shows "\<exists>st' found. try_candidate i now c st = Some (st', found) \<and>
    (if usable_verdict i now (sk_pool st) c = CV_Available
     then (\<exists>sel. found = Some sel \<and> sc_candidate sel = c \<and> taken now (sk_pool st) sel (sk_pool st') \<and>
             po_cursors (sk_pool st') = po_cursors (sk_pool st))
     else found = None \<and> quiet_step now st c st' \<and>
       sk_notes st' = note_verdict (usable_verdict i now (sk_pool st) c) (sk_notes st))"
proof -
  let ?p = "sk_pool st"
  obtain q where q: "pool_availability ?p c (si_policy i) now = Some (q, health_verdict ?p c (si_policy i) now)"
    "same_offer now ?p q" "po_handles q = po_handles ?p" "po_cursors q = po_cursors ?p"
    "ep_wake_generation (po_epoch q) \<le> ep_wake_generation (po_epoch ?p) + overdue now ?p c"
    "\<forall>d. overdue now q d \<le> overdue now ?p d"
    "health_verdict ?p c (si_policy i) now = Inr () \<longrightarrow> overdue now q c = 0"
    by (rule pool_availability_spec [OF assms(1)])
  have room: "rate_room q d = rate_room ?p d" for d
    by (simp add: rate_room_def handle_at_def q(3))
  have room_q: "rate_room q c" using assms(2) room by simp
  have quiet: "quiet_step now st c (st\<lparr>sk_pool := q\<rparr>)"
    using q(2,4-6) room by (simp add: quiet_step_def)
  show ?thesis
  proof (cases "health_verdict ?p c (si_policy i) now")
    case (Inl err)
    then show ?thesis
      using note_health_error_quiet [OF quiet, of err]
      by (simp add: try_candidate_def q(1) Let_def usable_verdict_def)
  next
    case healthy: (Inr u)
    show ?thesis
    proof (cases "rate_verdict (handle_at ?p c) (rc_binding c) False now")
      case (Some t)
      then have "rate_verdict (handle_at q c) (rc_binding c) False now = Some t"
        using verdict_cong(2) [OF q(2)] by simp
      then obtain r where r: "pool_try_reserve q c False now = Some (r, Inl (RateLimited t))"
        "same_offer now q r" "po_epoch r = po_epoch q" "po_credentials r = po_credentials q"
        "po_cursors r = po_cursors q"
        "\<forall>d. rate_room r d = rate_room q d"
        by (rule pool_try_reserve_limited [OF room_q])
      let ?st = "scan_record c FK_RateLimit (st\<lparr>sk_pool := r\<rparr>)"
      have "same_offer now ?p (sk_pool ?st)"
        using same_offer_trans [OF q(2) r(2)] scan_record_simps(2) [of now "st\<lparr>sk_pool := r\<rparr>" c FK_RateLimit]
        by (auto intro: same_offer_trans)
      then show ?thesis
        using q(4-6) room r(3-6) healthy Some
        by (simp add: try_candidate_def q(1) r(1) Let_def usable_verdict_def quiet_step_def overdue_def)
    next
      case None
      then have "rate_verdict (handle_at q c) (rc_binding c) False now = None"
        using verdict_cong(2) [OF q(2)] by simp
      then obtain r permit w where r: "pool_try_reserve q c False now = Some (r, Inr permit)"
        "r = put_handle c ((handle_at q c)\<lparr>hd_rate_window := w, hd_in_flight := Suc (hd_in_flight (handle_at q c))\<rparr>) q"
        "permit = \<lparr> rp_generation = cb_generation (rc_binding c), rp_rate_reservation = rp_rate_reservation permit,
           rp_route_admission = cb_route_admission (rc_binding c), rp_attempt_start = None \<rparr>"
        "rw_attempts w = rw_attempts (rate_prune now (hd_rate_window (handle_at q c))) @
           (case rp_rate_reservation permit of None \<Rightarrow> [] | Some x \<Rightarrow> [x])"
        by (rule pool_try_reserve_granted [OF room_q])
      have "health_verdict r c (si_policy i) now = health_verdict q c (si_policy i) now"
        by (simp add: r(2) health_verdict_def put_handle_def health_at_def)
      then have ok: "health_verdict r c (si_policy i) now = Inr ()"
        using verdict_cong(1) [OF q(2)] healthy by simp
      have room_r: "ep_wake_generation (po_epoch r) + overdue now r c \<le> u64_max"
        using q(5,7) healthy assms(1) by (simp add: r(2) put_handle_def overdue_def)
      obtain s health where s:
        "acquire_health_with_rpm_reservation r c (si_policy i) permit now = Some (s, Inr (permit, health))"
        "po_handles s = po_handles r" "po_cursors s = po_cursors r" "po_admissions s = po_admissions r"
        "probes (health_at s c) = map2 (+) (probes (health_at r c)) (attempt_probes health)"
        by (rule pool_acquire_granted [OF ok room_r, where permit = permit])
      let ?sel = "\<lparr> sc_candidate = c, sc_permit = permit, sc_health = health \<rparr>"
      have "taken now q ?sel (record_selection c s)"
        using s(2-5) r(4) arg_cong [OF r(3), of rp_generation] arg_cong [OF r(3), of rp_route_admission]
        by (simp add: taken_def Let_def record_selection_def handle_at_def put_handle_def r(2))
      then have "taken now ?p ?sel (record_selection c s)"
        by (rule taken_same_offer [OF q(2)])
      moreover have "po_cursors (record_selection c s) = po_cursors ?p"
        using q(4) s(3) by (simp add: r(2) record_selection_def put_handle_def Let_def)
      ultimately show ?thesis
        using healthy None
        by (simp add: try_candidate_def q(1) r(1) s(1) Let_def usable_verdict_def)
    qed
  qed
qed

text \<open>The same for a candidate in its own preference, with the checks before it.\<close>

lemma quiet_step_refl: "quiet_step now st c (st\<lparr>sk_notes := n\<rparr>)"
  by (simp add: quiet_step_def)

lemma scan_candidate_spec:
  assumes "ep_wake_generation (po_epoch (sk_pool st)) + overdue now (sk_pool st) c \<le> u64_max"
    and "rate_room (sk_pool st) c"
  shows "\<exists>st' found. scan_candidate i now (retry_preference (si_selection_state i) c) c st = Some (st', found) \<and>
    (if verdict i now (sk_pool st) c = CV_Available
     then (\<exists>sel. found = Some sel \<and> sc_candidate sel = c \<and> taken now (sk_pool st) sel (sk_pool st') \<and>
             po_cursors (sk_pool st') = po_cursors (sk_pool st))
     else found = None \<and> quiet_step now st c st' \<and>
       sk_notes st' = note_verdict (verdict i now (sk_pool st) c) (sk_notes st))"
proof -
  let ?s = "si_selection_state i" and ?v = "verdict i now (sk_pool st) c"
  let ?scan = "scan_candidate i now (retry_preference ?s c) c st"
  have cases: "(?v = CV_Ignored \<and> ?scan = Some (st, None)) \<or>
      (\<exists>t. ?v = CV_Deferred t \<and> ?scan = Some (st\<lparr>sk_notes := note_verdict (CV_Deferred t) (sk_notes st)\<rparr>, None)) \<or>
      (?v = usable_verdict i now (sk_pool st) c \<and> ?scan = try_candidate i now c st)"
    by (cases "deferred_until ?s c") (simp_all add: verdict_def scan_candidate_def)
  from cases show ?thesis
  proof (elim disjE exE conjE)
    assume "?v = CV_Ignored" "?scan = Some (st, None)"
    then show ?thesis
      using quiet_step_refl [of now st c "sk_notes st"] by simp
  next
    fix t
    assume "?v = CV_Deferred t" "?scan = Some (st\<lparr>sk_notes := note_verdict (CV_Deferred t) (sk_notes st)\<rparr>, None)"
    then show ?thesis
      using quiet_step_refl [of now st c "note_verdict (CV_Deferred t) (sk_notes st)"] by simp
  next
    assume "?v = usable_verdict i now (sk_pool st) c" "?scan = try_candidate i now c st"
    then show ?thesis using try_candidate_spec [OF assms, of i] by (simp only:)
  qed
qed

section \<open>Scanning in order\<close>

text \<open>The rotated candidates with their offsets, and the order in which a scan visits them.\<close>

definition rotated :: "route_candidate list \<Rightarrow> nat \<Rightarrow> (nat \<times> route_candidate) list" where
  "rotated candidates start =
     map (\<lambda>offset. (offset, candidates ! ((start + offset) mod length candidates))) [0..<length candidates]"

definition scan_order ::
  "selection_state \<Rightarrow> route_candidate list \<Rightarrow> nat \<Rightarrow> (nat \<times> route_candidate) list" where
  "scan_order s candidates start =
     concat (map (\<lambda>k. filter (\<lambda>x. retry_preference s (snd x) = k) (rotated candidates start))
       [0..<RETRY_PREFERENCE_LEVELS])"

lemma scan_order_Nil [simp]: "scan_order s [] start = []"
  by (auto simp: scan_order_def rotated_def concat_eq_Nil_conv)

fun visit_all ::
  "selection_input \<Rightarrow> instant \<Rightarrow> (nat \<times> route_candidate) list \<Rightarrow> scan_state \<Rightarrow>
   (scan_state \<times> (selected_candidate \<times> nat) option) option" where
  "visit_all i now [] st = Some (st, None)"
| "visit_all i now (x # xs) st =
     do { (st, found) \<leftarrow> scan_candidate i now (retry_preference (si_selection_state i) (snd x)) (snd x) st;
          case found of
            Some selected \<Rightarrow> Some (st, Some (selected, fst x))
          | None \<Rightarrow> visit_all i now xs st }"

lemma visit_all_append:
  "visit_all i now (xs @ ys) st =
     do { (st, found) \<leftarrow> visit_all i now xs st;
          case found of Some selected \<Rightarrow> Some (st, Some selected) | None \<Rightarrow> visit_all i now ys st }"
  by (induction xs arbitrary: st) (auto simp: case_prod_unfold split: option.split Option.bind_split)

lemma scan_candidate_other:
  "retry_preference (si_selection_state i) c \<noteq> k \<Longrightarrow> scan_candidate i now k c st = Some (st, None)"
  by (simp add: scan_candidate_def)

lemma scan_offsets_visit:
  "scan_offsets i now candidates start k offsets st =
     visit_all i now
       (filter (\<lambda>x. retry_preference (si_selection_state i) (snd x) = k)
         (map (\<lambda>offset. (offset, candidates ! ((start + offset) mod length candidates))) offsets)) st"
  by (induction offsets arbitrary: st) (simp_all add: scan_candidate_other cong: option.case_cong)

lemma scan_preferences_visit:
  "scan_preferences i now candidates start ks st =
     visit_all i now
       (concat (map (\<lambda>k. filter (\<lambda>x. retry_preference (si_selection_state i) (snd x) = k)
          (rotated candidates start)) ks)) st"
  by (induction ks arbitrary: st)
    (simp_all add: scan_offsets_visit visit_all_append rotated_def cong: option.case_cong)

lemma visit_room_Cons:
  assumes "visit_room now (sk_pool st) (c # cs)" "quiet_step now st c st'"
  shows "visit_room now (sk_pool st') cs"
proof -
  have "sum_list (map (overdue now (sk_pool st')) cs) \<le> sum_list (map (overdue now (sk_pool st)) cs)"
    using assms(2) by (intro sum_list_mono) (simp add: quiet_step_def)
  then show ?thesis
    using assms by (auto simp: visit_room_def quiet_step_def)
qed

definition quiet_visits :: "instant \<Rightarrow> scan_state \<Rightarrow> route_candidate list \<Rightarrow> scan_state \<Rightarrow> bool" where
  "quiet_visits now st cs st' \<longleftrightarrow>
     same_offer now (sk_pool st) (sk_pool st') \<and> po_cursors (sk_pool st') = po_cursors (sk_pool st) \<and>
     ep_wake_generation (po_epoch (sk_pool st')) \<le>
       ep_wake_generation (po_epoch (sk_pool st)) + sum_list (map (overdue now (sk_pool st)) cs) \<and>
     (\<forall>d. overdue now (sk_pool st') d \<le> overdue now (sk_pool st) d) \<and>
     (\<forall>d. rate_room (sk_pool st') d = rate_room (sk_pool st) d)"

lemma quiet_visits_Cons:
  assumes "quiet_step now st c st1" "quiet_visits now st1 cs st2"
  shows "quiet_visits now st (c # cs) st2"
proof -
  have "sum_list (map (overdue now (sk_pool st1)) cs) \<le> sum_list (map (overdue now (sk_pool st)) cs)"
    using assms(1) by (intro sum_list_mono) (simp add: quiet_step_def)
  moreover have "same_offer now (sk_pool st) (sk_pool st2)"
    using assms same_offer_trans unfolding quiet_step_def quiet_visits_def by blast
  moreover have "overdue now (sk_pool st2) d \<le> overdue now (sk_pool st) d" for d
    using assms le_trans unfolding quiet_step_def quiet_visits_def by blast
  ultimately show ?thesis
    using assms by (simp add: quiet_step_def quiet_visits_def)
qed

text \<open>The whole scan: the first available candidate in the order is taken, and if there is none
  the notes are those of all verdicts.\<close>

lemma visit_all_spec:
  assumes "visit_room now (sk_pool st) (map snd xs)"
  shows "\<exists>st' found. visit_all i now xs st = Some (st', found) \<and>
    (case List.find (\<lambda>x. verdict i now (sk_pool st) (snd x) = CV_Available) xs of
       Some x \<Rightarrow> (\<exists>sel. found = Some (sel, fst x) \<and> sc_candidate sel = snd x \<and>
                   taken now (sk_pool st) sel (sk_pool st') \<and> po_cursors (sk_pool st') = po_cursors (sk_pool st))
     | None \<Rightarrow> found = None \<and> quiet_visits now st (map snd xs) st' \<and>
         sk_notes st' = fold note_verdict (map (verdict i now (sk_pool st) \<circ> snd) xs) (sk_notes st))"
  using assms
proof (induction xs arbitrary: st)
  case Nil
  then show ?case by (simp add: quiet_visits_def)
next
  case (Cons x xs)
  let ?p = "sk_pool st" and ?c = "snd x"
  have "ep_wake_generation (po_epoch ?p) + overdue now ?p ?c \<le> u64_max" "rate_room ?p ?c"
    using Cons.prems by (auto simp: visit_room_def)
  then obtain st1 found where step:
    "scan_candidate i now (retry_preference (si_selection_state i) ?c) ?c st = Some (st1, found)"
    "if verdict i now ?p ?c = CV_Available
     then (\<exists>sel. found = Some sel \<and> sc_candidate sel = ?c \<and> taken now ?p sel (sk_pool st1) \<and>
             po_cursors (sk_pool st1) = po_cursors ?p)
     else found = None \<and> quiet_step now st ?c st1 \<and>
       sk_notes st1 = note_verdict (verdict i now ?p ?c) (sk_notes st)"
    using scan_candidate_spec [of st now ?c i] by blast
  show ?case
  proof (cases "verdict i now ?p ?c = CV_Available")
    case True
    then show ?thesis using step by auto
  next
    case False
    then have quiet: "quiet_step now st ?c st1" and found: "found = None"
      and noted: "sk_notes st1 = note_verdict (verdict i now ?p ?c) (sk_notes st)"
      using step by auto
    have offer: "same_offer now ?p (sk_pool st1)" using quiet by (simp add: quiet_step_def)
    have same: "verdict i now (sk_pool st1) = verdict i now ?p"
      using verdict_same_offer [OF offer] by blast
    have "visit_room now (sk_pool st1) (map snd xs)"
      using visit_room_Cons [OF _ quiet] Cons.prems by simp
    from Cons.IH [OF this] obtain st2 f where rest: "visit_all i now xs st1 = Some (st2, f)"
      and spec: "case List.find (\<lambda>x. verdict i now ?p (snd x) = CV_Available) xs of
         Some x \<Rightarrow> (\<exists>sel. f = Some (sel, fst x) \<and> sc_candidate sel = snd x \<and>
                     taken now (sk_pool st1) sel (sk_pool st2) \<and> po_cursors (sk_pool st2) = po_cursors (sk_pool st1))
       | None \<Rightarrow> f = None \<and> quiet_visits now st1 (map snd xs) st2 \<and>
           sk_notes st2 = fold note_verdict (map (verdict i now ?p \<circ> snd) xs) (sk_notes st1)"
      unfolding same by blast
    have all: "visit_all i now (x # xs) st = Some (st2, f)"
      using step(1) found rest by simp
    show ?thesis
    proof (cases "List.find (\<lambda>x. verdict i now ?p (snd x) = CV_Available) xs")
      case None
      then show ?thesis
        using spec all False noted quiet_visits_Cons [OF quiet, of "map snd xs" st2] by simp
    next
      case (Some y)
      then show ?thesis
        using spec all False taken_same_offer [OF offer] quiet by (auto simp: quiet_step_def)
    qed
  qed
qed

section \<open>The order of a scan\<close>

lemma map_snd_rotated: "map snd (rotated cs start) = rotate start cs"
  by (rule nth_equalityI) (simp_all add: rotated_def nth_rotate)

lemma mset_buckets:
  "distinct ks \<Longrightarrow>
   mset (concat (map (\<lambda>k. filter (\<lambda>x. f x = k) xs) ks)) = filter_mset (\<lambda>x. f x \<in> set ks) (mset xs)"
proof (induction ks)
  case (Cons k ks)
  have "filter_mset (\<lambda>x. f x \<in> set (k # ks)) (mset xs) =
      filter_mset (\<lambda>x. f x = k) (mset xs) + filter_mset (\<lambda>x. f x \<in> set ks) (mset xs)"
    using Cons.prems by (induction xs) auto
  then show ?case using Cons by (simp flip: mset_filter)
qed simp

lemma retry_preference_levels: "retry_preference s c < RETRY_PREFERENCE_LEVELS"
  by (auto simp: retry_preference_def RETRY_PREFERENCE_LEVELS_def split: bool.split)

lemma mset_scan_order: "mset (scan_order s cs start) = mset (rotated cs start)"
proof -
  have "filter_mset (\<lambda>x. retry_preference s (snd x) < RETRY_PREFERENCE_LEVELS) (mset (rotated cs start)) =
      mset (rotated cs start)"
    by (rule filter_mset_eq_conv [THEN iffD2]) (simp add: retry_preference_levels)
  then show ?thesis
    unfolding scan_order_def by (subst mset_buckets) simp_all
qed

lemma mset_rotate: "mset (rotate n xs) = mset xs"
  by (metis append_take_drop_id mset_append rotate_drop_take union_commute)

lemma mset_snd_scan_order: "mset (map snd (scan_order s cs start)) = mset cs"
  by (metis map_snd_rotated mset_map mset_rotate mset_scan_order)

lemma set_scan_order: "snd ` set (scan_order s cs start) = set cs"
  using arg_cong [OF mset_snd_scan_order [of s cs start], of set_mset] by simp

lemma visit_room_order: "visit_room now p cs \<Longrightarrow> visit_room now p (map snd (scan_order s cs start))"
proof -
  assume room: "visit_room now p cs"
  have "sum_list (map (overdue now p) (map snd (scan_order s cs start))) = sum_list (map (overdue now p) cs)"
    by (metis mset_map mset_snd_scan_order sum_mset_sum_list)
  then show ?thesis
    using room set_scan_order [of s cs start] unfolding visit_room_def by (metis set_map)
qed

text \<open>The least time among optional ones depends on the set of them only.\<close>

lemma finite_times: "finite {t. Some t \<in> set ts}"
  by (rule finite_subset [of _ "the ` set ts"]) (force simp: image_iff, simp)

lemma min_instant_eq:
  "min_instant ts = (if \<exists>t. Some t \<in> set ts then Some (Min {t. Some t \<in> set ts}) else None)"
proof (induction ts rule: min_instant.induct)
  case (3 t ts)
  have "{u. Some u \<in> set (Some t # ts)} = insert t {u. Some u \<in> set ts}" by auto
  then show ?case using 3 finite_times [of ts] by auto
qed simp_all

lemma min_instant_Some:
  "min_instant ts = Some t \<longleftrightarrow> Some t \<in> set ts \<and> (\<forall>u. Some u \<in> set ts \<longrightarrow> t \<le> u)"
proof (cases "\<exists>u. Some u \<in> set ts")
  case True
  then have "Min {u. Some u \<in> set ts} = t \<longleftrightarrow> Some t \<in> set ts \<and> (\<forall>u. Some u \<in> set ts \<longrightarrow> t \<le> u)"
    by (subst Min_eq_iff [OF finite_times]) auto
  then show ?thesis using True by (auto simp: min_instant_eq)
qed (auto simp: min_instant_eq)

lemma min_instant_set: "set ts = set us \<Longrightarrow> min_instant ts = min_instant us"
  by (simp add: min_instant_eq)

lemma earliest_optional_simps [simp]: "earliest_optional None t = t" "earliest_optional t None = t"
  by (simp_all add: earliest_optional_def split: option.split)

lemma earliest_optional_ac:
  "earliest_optional (earliest_optional a b) c = earliest_optional a (earliest_optional b c)"
  "earliest_optional a b = earliest_optional b a"
  "earliest_optional a (earliest_optional b c) = earliest_optional b (earliest_optional a c)"
  by (auto simp: earliest_optional_def min.assoc min.commute min.left_commute split: option.split)

lemma min_instant_Cons: "min_instant (t # ts) = earliest_optional t (min_instant ts)"
  by (cases t) (auto simp: earliest_optional_def min.commute split: option.split)

section \<open>A whole tier\<close>

text \<open>The times a verdict names, by what it names them for.\<close>

fun outage_time :: "candidate_verdict \<Rightarrow> instant option" where
  "outage_time (CV_Unhealthy err) =
     (case che_source err of
        Temporary u \<Rightarrow> (if tu_cause u = Outage then Some (tu_until u) else None)
      | Permanent \<Rightarrow> None)"
| "outage_time _ = None"

fun cooldown_time :: "candidate_verdict \<Rightarrow> instant option" where
  "cooldown_time (CV_Unhealthy err) =
     (case che_source err of
        Temporary u \<Rightarrow> (if tu_cause u = RateLimitCooldown then Some (tu_until u) else None)
      | Permanent \<Rightarrow> None)"
| "cooldown_time _ = None"

fun rate_time :: "candidate_verdict \<Rightarrow> instant option" where
  "rate_time (CV_RateLimited t) = t"
| "rate_time _ = None"

fun deferral_time :: "candidate_verdict \<Rightarrow> instant option" where
  "deferral_time (CV_Deferred t) = Some t"
| "deferral_time _ = None"

fun rate_limits :: "candidate_verdict \<Rightarrow> bool" where
  "rate_limits (CV_RateLimited t) = True"
| "rate_limits _ = False"

definition notes_of :: "candidate_verdict list \<Rightarrow> scan_notes" where
  "notes_of vs =
     \<lparr> sn_outage_retry_at = min_instant (map outage_time vs),
       sn_cooldown_retry_at = min_instant (map cooldown_time vs),
       sn_rate_retry_at = min_instant (map rate_time vs),
       sn_deferred_retry_at = min_instant (map deferral_time vs),
       sn_saw_rate_limit = list_ex rate_limits vs \<rparr>"

lemma fold_note_verdict:
  "fold note_verdict vs n =
     \<lparr> sn_outage_retry_at = earliest_optional (sn_outage_retry_at n) (min_instant (map outage_time vs)),
       sn_cooldown_retry_at = earliest_optional (sn_cooldown_retry_at n) (min_instant (map cooldown_time vs)),
       sn_rate_retry_at = earliest_optional (sn_rate_retry_at n) (min_instant (map rate_time vs)),
       sn_deferred_retry_at = earliest_optional (sn_deferred_retry_at n) (min_instant (map deferral_time vs)),
       sn_saw_rate_limit = (sn_saw_rate_limit n \<or> list_ex rate_limits vs) \<rparr>"
proof (induction vs arbitrary: n)
  case (Cons v vs)
  have earliest: "earliest t u = earliest_optional t (Some u)" for t u
    by (simp add: earliest_def earliest_optional_def)
  show ?case
    by (cases v)
      (auto simp: Cons.IH min_instant_Cons earliest_optional_ac(1) note_temporary_def earliest
        split: health_acquire_error.split unavailability_cause.split)
qed simp

lemma notes_of_set: "set vs = set us \<Longrightarrow> notes_of vs = notes_of us"
proof -
  assume eq: "set vs = set us"
  have "min_instant (map f vs) = min_instant (map f us)" for f
    by (rule min_instant_set) (simp add: eq)
  then show ?thesis by (simp add: notes_of_def list_ex_iff eq)
qed

lemma fold_notes_order:
  "fold note_verdict (map (v \<circ> snd) (scan_order s cs start)) no_notes = notes_of (map v cs)"
proof -
  have "fold note_verdict (map (v \<circ> snd) (scan_order s cs start)) no_notes =
      notes_of (map (v \<circ> snd) (scan_order s cs start))"
    by (simp add: fold_note_verdict notes_of_def no_notes_def)
  also have "\<dots> = notes_of (map v cs)"
    by (rule notes_of_set) (simp add: set_scan_order flip: image_image image_comp)
  finally show ?thesis .
qed

lemma scan_tier_spec:
  assumes "visit_room now p cs"
  shows "\<exists>p' f' r. scan_tier i now cs tie p f = Some (p', f', r) \<and> po_cursors p' = po_cursors p \<and>
    (case List.find (\<lambda>x. verdict i now p (snd x) = CV_Available)
            (scan_order (si_selection_state i) cs (unat tie mod length cs)) of
       Some x \<Rightarrow> (\<exists>sel. r = TS_Acquired sel (fst x) \<and> sc_candidate sel = snd x \<and> taken now p sel p')
     | None \<Rightarrow> r = tier_scan_result (notes_of (map (verdict i now p) cs)) None \<and>
         same_offer now p p' \<and>
         ep_wake_generation (po_epoch p') \<le> ep_wake_generation (po_epoch p) + sum_list (map (overdue now p) cs) \<and>
         (\<forall>d. overdue now p' d \<le> overdue now p d) \<and> (\<forall>d. rate_room p' d = rate_room p d))"
proof (cases "cs = []")
  case True
  then show ?thesis
    by (simp add: scan_tier_def notes_of_def tier_scan_result_def)
next
  case False
  let ?order = "scan_order (si_selection_state i) cs (unat tie mod length cs)"
  let ?st = "\<lparr> sk_pool = p, sk_filters = f, sk_notes = no_notes \<rparr>"
  have sums: "sum_list (map (overdue now p) (map snd ?order)) = sum_list (map (overdue now p) cs)"
    by (metis mset_map mset_snd_scan_order sum_mset_sum_list)
  have scan: "scan_tier i now cs tie p f =
      do { (st, found) \<leftarrow> visit_all i now ?order ?st;
           Some (sk_pool st, sk_filters st, tier_scan_result (sk_notes st) found) }"
    using False by (simp add: scan_tier_def scan_preferences_visit scan_order_def)
  have "visit_room now (sk_pool ?st) (map snd ?order)"
    unfolding scan_state.select_convs by (rule visit_room_order [OF assms])
  from visit_all_spec [OF this, of i] obtain st' found where
    all: "visit_all i now ?order ?st = Some (st', found)"
    and spec: "case List.find (\<lambda>x. verdict i now p (snd x) = CV_Available) ?order of
       Some x \<Rightarrow> (\<exists>sel. found = Some (sel, fst x) \<and> sc_candidate sel = snd x \<and>
                   taken now p sel (sk_pool st') \<and> po_cursors (sk_pool st') = po_cursors p)
     | None \<Rightarrow> found = None \<and> quiet_visits now ?st (map snd ?order) st' \<and>
         sk_notes st' = fold note_verdict (map (verdict i now p \<circ> snd) ?order) no_notes"
    unfolding scan_state.select_convs by blast
  show ?thesis
  proof (cases "List.find (\<lambda>x. verdict i now p (snd x) = CV_Available) ?order")
    case None
    then show ?thesis
      using spec by (simp add: scan all fold_notes_order quiet_visits_def sums del: map_map)
  next
    case (Some x)
    then show ?thesis
      using spec by (auto simp: scan all tier_scan_result_def)
  qed
qed

section \<open>The best candidate\<close>

lemma sorted_wrt_buckets:
  assumes "sorted_wrt S xs" "sorted_wrt (<) ks"
  shows "sorted_wrt (\<lambda>x y. (f x :: nat) < f y \<or> f x = f y \<and> S x y)
    (concat (map (\<lambda>k. filter (\<lambda>x. f x = k) xs) ks))"
  using assms(2)
proof (induction ks)
  case (Cons k ks)
  have "sorted_wrt (\<lambda>x y. f x < f y \<or> f x = f y \<and> S x y) (filter (\<lambda>x. f x = k) xs)"
    by (rule sorted_wrt_mono_rel [OF _ sorted_wrt_filter [OF assms(1)]]) auto
  then show ?case using Cons by (auto simp: sorted_wrt_append)
qed simp

lemma find_sorted_wrt:
  "sorted_wrt R xs \<Longrightarrow> List.find P xs = Some x \<Longrightarrow> y \<in> set xs \<Longrightarrow> P y \<Longrightarrow> y = x \<or> R x y"
  by (induction xs) (auto split: if_splits)

text \<open>A candidate at offset \<open>k\<close> from \<open>start\<close> that is available, of the least preference among the
  available ones, and the first of those.\<close>

definition best_in ::
  "(route_candidate \<Rightarrow> candidate_verdict) \<Rightarrow> selection_state \<Rightarrow> nat \<Rightarrow> route_candidate list \<Rightarrow>
   route_candidate \<Rightarrow> nat \<Rightarrow> bool" where
  "best_in v s start cs c k \<longleftrightarrow>
     k < length cs \<and> c = cs ! ((start + k) mod length cs) \<and> v c = CV_Available \<and>
     (\<forall>j<length cs. let d = cs ! ((start + j) mod length cs) in
        v d = CV_Available \<longrightarrow>
        retry_preference s c < retry_preference s d \<or>
        retry_preference s c = retry_preference s d \<and> k \<le> j)"

lemma find_scan_order:
  assumes "List.find (\<lambda>x. v (snd x) = CV_Available) (scan_order s cs (start mod length cs)) = Some x"
  shows "best_in v s start cs (snd x) (fst x)"
proof -
  let ?order = "scan_order s cs (start mod length cs)"
  let ?at = "\<lambda>j. cs ! ((start + j) mod length cs)"
  have members: "set ?order = (\<lambda>j. (j, ?at j)) ` {0..<length cs}"
    using arg_cong [OF mset_scan_order, of set_mset s cs "start mod length cs"]
    by (simp add: rotated_def mod_add_left_eq)
  have "sorted_wrt (\<lambda>x y. fst x \<le> fst y) (rotated cs (start mod length cs))"
    by (auto simp: rotated_def sorted_wrt_map intro: sorted_wrt_mono_rel [OF _ sorted_wrt_upt])
  moreover have "sorted_wrt (<) [0..<RETRY_PREFERENCE_LEVELS]" by simp
  ultimately have sorted: "sorted_wrt (\<lambda>x y. retry_preference s (snd x) < retry_preference s (snd y) \<or>
      retry_preference s (snd x) = retry_preference s (snd y) \<and> fst x \<le> fst y) ?order"
    unfolding scan_order_def by (rule sorted_wrt_buckets)
  have x: "x \<in> set ?order" "v (snd x) = CV_Available"
    using assms by (auto simp: find_Some_iff)
  have "retry_preference s (snd x) < retry_preference s (?at j) \<or>
      retry_preference s (snd x) = retry_preference s (?at j) \<and> fst x \<le> j"
    if "j < length cs" "v (?at j) = CV_Available" for j
    using find_sorted_wrt [OF sorted assms, of "(j, ?at j)"] that by (auto simp: members)
  then show ?thesis
    using x by (auto simp: best_in_def members Let_def)
qed

lemma find_scan_order_None:
  "List.find (\<lambda>x. v (snd x) = CV_Available) (scan_order s cs start) = None \<longleftrightarrow>
   (\<forall>c\<in>set cs. v c \<noteq> CV_Available)"
  by (force simp: find_None_iff simp flip: set_scan_order [of s cs start])

section \<open>All tiers\<close>

lemma pool_cursors [simp]:
  "po_epoch (p\<lparr>po_cursors := x\<rparr>) = po_epoch p" "po_cursors (p\<lparr>po_cursors := x\<rparr>) = x"
  "health_at (p\<lparr>po_cursors := x\<rparr>) c = health_at p c" "handle_at (p\<lparr>po_cursors := x\<rparr>) c = handle_at p c"
  "same_offer now (p\<lparr>po_cursors := x\<rparr>) q = same_offer now p q"
  "same_offer now p (q\<lparr>po_cursors := x\<rparr>) = same_offer now p q"
  "overdue now (p\<lparr>po_cursors := x\<rparr>) = overdue now p" "rate_room (p\<lparr>po_cursors := x\<rparr>) = rate_room p"
  by (simp_all add: health_at_def handle_at_def same_offer_def overdue_def [abs_def] rate_room_def [abs_def])

lemma selection_cursors [simp]:
  "verdict i now (p\<lparr>po_cursors := x\<rparr>) = verdict i now p"
  "visit_room now (p\<lparr>po_cursors := x\<rparr>) cs = visit_room now p cs"
  "taken now (p\<lparr>po_cursors := x\<rparr>) sel q = taken now p sel q"
  "taken now p sel (q\<lparr>po_cursors := x\<rparr>) = taken now p sel q"
  using verdict_same_offer [of now p "p\<lparr>po_cursors := x\<rparr>" i] by (auto simp: visit_room_def taken_def)

text \<open>A tier in which somebody waits for a rate limit, and the tier that serves a request: the first
  with an available candidate, unless an earlier one waits and may not be passed over.\<close>

definition waits :: "candidate_verdict \<Rightarrow> bool" where
  "waits v \<longleftrightarrow> rate_limits v \<or> cooldown_time v \<noteq> None"

fun serving_tier ::
  "(route_candidate \<Rightarrow> candidate_verdict) \<Rightarrow> bool \<Rightarrow> (nat \<times> route_candidate list) list \<Rightarrow>
   (nat \<times> route_candidate list) option" where
  "serving_tier v pass [] = None"
| "serving_tier v pass (tier # tiers) =
     (if list_ex (\<lambda>c. v c = CV_Available) (snd tier) then Some tier
      else if pass \<or> \<not> list_ex (\<lambda>c. waits (v c)) (snd tier) then serving_tier v pass tiers
      else None)"

definition merge_notes :: "generation_notes \<Rightarrow> candidate_verdict list \<Rightarrow> generation_notes" where
  "merge_notes g vs =
     \<lparr> gn_saw_rate_limit = (gn_saw_rate_limit g \<or> list_ex rate_limits vs),
       gn_rate_retry_at = earliest_optional (gn_rate_retry_at g) (min_instant (map rate_time vs)),
       gn_skipped_retry_at =
         earliest_optional (earliest_optional (gn_skipped_retry_at g) (min_instant (map outage_time vs)))
           (min_instant (map cooldown_time vs)),
       gn_deferred_retry_at = earliest_optional (gn_deferred_retry_at g) (min_instant (map deferral_time vs)) \<rparr>"

lemma min_instant_append: "min_instant (ts @ us) = earliest_optional (min_instant ts) (min_instant us)"
  by (induction ts) (simp_all add: min_instant_Cons earliest_optional_ac(1))

lemma merge_notes_append: "merge_notes (merge_notes g vs) us = merge_notes g (vs @ us)"
  by (simp add: merge_notes_def min_instant_append earliest_optional_ac)

lemma merge_notes_Nil [simp]: "merge_notes g [] = g"
  by (simp add: merge_notes_def)

lemma min_instant_None: "min_instant ts = None \<longleftrightarrow> (\<forall>t\<in>set ts. t = None)"
  by (auto simp: min_instant_eq) (metis not_None_eq)

lemma no_rate_times:
  assumes "\<not> list_ex rate_limits vs"
  shows "min_instant (map rate_time vs) = None"
proof -
  have "\<not> rate_limits v \<Longrightarrow> rate_time v = None" for v by (cases v) simp_all
  then show ?thesis
    using assms by (auto simp: min_instant_None list_ex_iff)
qed

lemma waits_list:
  "list_ex waits vs \<longleftrightarrow> list_ex rate_limits vs \<or> min_instant (map cooldown_time vs) \<noteq> None"
  by (auto simp: min_instant_None list_ex_iff waits_def)

text \<open>How selection goes on after a tier without an available candidate.\<close>

definition early_exit :: "generation_selection \<Rightarrow> bool" where
  "early_exit r \<longleftrightarrow> (\<exists>t. r = GS_RateLimited t) \<or> (\<exists>t. r = GS_TemporarilyUnavailable t)"

lemma select_tiers_blocked:
  assumes "po_cursors p (route, tier) = Some n"
    and "scan_tier i now cs n (p\<lparr>po_cursors := (po_cursors p)((route, tier) \<mapsto> n + 1)\<rparr>) f =
      Some (q, f', tier_scan_result (notes_of vs) None)"
  shows "select_tiers i now route fb df ((tier, cs) # tiers) g p f =
      select_tiers i now route fb df tiers (merge_notes g vs) q f' \<and> ((fb \<or> df) \<or> \<not> list_ex waits vs) \<or>
    (\<exists>r. select_tiers i now route fb df ((tier, cs) # tiers) g p f = Some (q, f', Inr r) \<and> early_exit r) \<and>
      \<not> (fb \<or> df) \<and> list_ex waits vs"
proof (cases "list_ex rate_limits vs")
  case True
  then show ?thesis
    using assms
    by (cases g) (simp add: cursor_reserve_def tier_scan_result_def notes_of_def note_skipped_def merge_notes_def
        waits_list early_exit_def Let_def)
next
  case False
  then show ?thesis
    using assms no_rate_times [OF False]
    by (cases g; cases "min_instant (map cooldown_time vs)")
      (simp_all add: cursor_reserve_def tier_scan_result_def notes_of_def note_skipped_def merge_notes_def
        waits_list early_exit_def Let_def)
qed

text \<open>The outcome of a selection that starts from the notes \<open>g\<close>.\<close>

definition selection_outcome ::
  "selection_input \<Rightarrow> instant \<Rightarrow> route_id \<Rightarrow> bool \<Rightarrow> (nat \<times> route_candidate list) list \<Rightarrow> generation_notes \<Rightarrow>
   routing_pool \<Rightarrow> routing_pool \<Rightarrow> generation_selection \<Rightarrow> bool" where
  "selection_outcome i now route pass tiers g p q r \<longleftrightarrow>
     (let v = verdict i now p; all = map v (concat (map snd tiers))
      in case serving_tier v pass tiers of
           Some (t, cs) \<Rightarrow>
             (\<exists>sel k n. r = GS_Acquired sel \<and> po_cursors p (route, t) = Some n \<and>
                best_in v (si_selection_state i) (unat n) cs (sc_candidate sel) k \<and>
                taken now p sel q \<and> po_cursors q (route, t) = Some (n + 1 + of_nat k))
         | None \<Rightarrow>
             same_offer now p q \<and>
             (if pass \<or> \<not> list_ex waits all then selection_end (merge_notes g all) = Some r
              else early_exit r))"

lemma visit_room_rest:
  assumes "visit_room now p (cs @ ds)"
    and "ep_wake_generation (po_epoch q) \<le> ep_wake_generation (po_epoch p) + sum_list (map (overdue now p) cs)"
    and "\<forall>d. overdue now q d \<le> overdue now p d" "\<forall>d. rate_room q d = rate_room p d"
  shows "visit_room now q ds"
proof -
  have "sum_list (map (overdue now q) ds) \<le> sum_list (map (overdue now p) ds)"
    using assms(3) by (intro sum_list_mono) simp
  then show ?thesis using assms by (simp add: visit_room_def)
qed

lemma advance_served:
  assumes "po_cursors p k = Some n"
  shows "\<exists>q. cursor_advance_by k skipped p = (q, True) \<and> po_cursors q k = Some (n + of_nat skipped) \<and>
    (\<exists>x. q = p\<lparr>po_cursors := x\<rparr>)"
  using assms by (cases p) (auto simp: cursor_advance_by_def intro: exI [of _ "po_cursors p"])

lemma selection_outcome_shift:
  assumes "same_offer now p q" "\<forall>t\<in>set tiers. po_cursors q (route, fst t) = po_cursors p (route, fst t)"
    and "\<forall>c\<in>set cs. verdict i now p c \<noteq> CV_Available"
    and "pass \<or> \<not> list_ex waits (map (verdict i now p) cs)"
    and "selection_outcome i now route pass tiers (merge_notes g (map (verdict i now p) cs)) q r x"
  shows "selection_outcome i now route pass ((t, cs) # tiers) g p r x"
proof -
  have v: "verdict i now q = verdict i now p"
    using verdict_same_offer [OF assms(1)] by blast
  have rest: "serving_tier (verdict i now p) pass ((t, cs) # tiers) = serving_tier (verdict i now p) pass tiers"
    using assms(3,4) by (auto simp: list_ex_iff)
  have mem: "serving_tier w pass tiers = Some tier \<Longrightarrow> tier \<in> set tiers" for w tier
    by (induction tiers) (auto split: if_splits)
  show ?thesis
  proof (cases "serving_tier (verdict i now p) pass tiers")
    case None
    then show ?thesis
      using assms(1,4,5) rest
      by (auto simp: selection_outcome_def Let_def v merge_notes_append intro: same_offer_trans)
  next
    case (Some tier)
    then show ?thesis
      using assms(5) rest bspec [OF assms(2) mem [OF Some]] taken_same_offer [OF assms(1)]
      by (cases tier) (auto simp: selection_outcome_def Let_def v simp del: serving_tier.simps)
  qed
qed

lemma select_tiers_spec:
  assumes "visit_room now p (concat (map snd tiers))" "distinct (map fst tiers)"
    and "\<forall>t\<in>set tiers. po_cursors p (route, fst t) \<noteq> None"
  shows "\<exists>q f' r. select_tiers i now route fb df tiers g p f = Some (q, f', Inr r) \<and>
    selection_outcome i now route (fb \<or> df) tiers g p q r"
  using assms
proof (induction tiers arbitrary: g p f)
  case Nil
  have "\<exists>r. selection_end g = Some r"
    by (cases "gn_deferred_retry_at g"; cases "gn_skipped_retry_at g"; cases "gn_rate_retry_at g")
      (auto simp: selection_end_def Let_def)
  then show ?case by (auto simp: selection_outcome_def)
next
  case (Cons tier tiers)
  obtain t cs where tier: "tier = (t, cs)" by fastforce
  obtain n where n: "po_cursors p (route, t) = Some n"
    using Cons.prems(3) tier by auto
  let ?p = "p\<lparr>po_cursors := (po_cursors p)((route, t) \<mapsto> n + 1)\<rparr>" and ?v = "verdict i now p"
  have room: "visit_room now ?p cs"
    using Cons.prems(1) by (auto simp: tier visit_room_def)
  obtain q f1 r where scan: "scan_tier i now cs n ?p f = Some (q, f1, r)"
      "po_cursors q = (po_cursors p)((route, t) \<mapsto> n + 1)"
    and spec: "case List.find (\<lambda>x. ?v (snd x) = CV_Available) (scan_order (si_selection_state i) cs (unat n mod length cs)) of
       Some x \<Rightarrow> (\<exists>sel. r = TS_Acquired sel (fst x) \<and> sc_candidate sel = snd x \<and> taken now p sel q)
     | None \<Rightarrow> r = tier_scan_result (notes_of (map ?v cs)) None \<and> same_offer now p q \<and>
         ep_wake_generation (po_epoch q) \<le> ep_wake_generation (po_epoch p) + sum_list (map (overdue now p) cs) \<and>
         (\<forall>d. overdue now q d \<le> overdue now p d) \<and> (\<forall>d. rate_room q d = rate_room p d)"
    using scan_tier_spec [OF room, of i n f]
    unfolding selection_cursors pool_cursors by blast
  show ?case
  proof (cases "List.find (\<lambda>x. ?v (snd x) = CV_Available) (scan_order (si_selection_state i) cs (unat n mod length cs))")
    case (Some x)
    then obtain sel where sel: "r = TS_Acquired sel (fst x)" "sc_candidate sel = snd x" "taken now p sel q"
      using spec by auto
    have best: "best_in ?v (si_selection_state i) (unat n) cs (snd x) (fst x)"
      using Some by (rule find_scan_order)
    have "list_ex (\<lambda>c. ?v c = CV_Available) cs"
      using Some find_scan_order_None [of ?v "si_selection_state i" cs "unat n mod length cs"]
      by (auto simp: list_ex_iff)
    moreover obtain y where "cursor_advance_by (route, t) (fst x) q = (q\<lparr>po_cursors := y\<rparr>, True)"
      "po_cursors (q\<lparr>po_cursors := y\<rparr>) (route, t) = Some (n + 1 + of_nat (fst x))"
      using advance_served [of q "(route, t)" "n + 1" "fst x"] scan(2) by auto
    ultimately show ?thesis
      using sel best scan(1) n by (auto simp: tier cursor_reserve_def selection_outcome_def Let_def)
  next
    case None
    then have r: "r = tier_scan_result (notes_of (map ?v cs)) None" and offer: "same_offer now p q"
      and left: "ep_wake_generation (po_epoch q) \<le> ep_wake_generation (po_epoch p) + sum_list (map (overdue now p) cs)"
        "\<forall>d. overdue now q d \<le> overdue now p d" "\<forall>d. rate_room q d = rate_room p d"
      using spec by auto
    have no: "\<forall>c\<in>set cs. ?v c \<noteq> CV_Available"
      using None by (simp add: find_scan_order_None)
    have same: "\<forall>t'\<in>set tiers. po_cursors q (route, fst t') = po_cursors p (route, fst t')"
      using scan(2) Cons.prems(2) by (force simp: tier)
    have IH: "\<exists>q' f' r'. select_tiers i now route fb df tiers g' q f1 = Some (q', f', Inr r') \<and>
        selection_outcome i now route (fb \<or> df) tiers g' q q' r'" for g'
      using Cons.prems visit_room_rest [OF _ left] same by (intro Cons.IH) (auto simp: tier)
    consider (go) "select_tiers i now route fb df ((t, cs) # tiers) g p f =
          select_tiers i now route fb df tiers (merge_notes g (map ?v cs)) q f1"
        "(fb \<or> df) \<or> \<not> list_ex waits (map ?v cs)"
      | (stop) r' where "select_tiers i now route fb df ((t, cs) # tiers) g p f = Some (q, f1, Inr r')"
        "early_exit r'" "\<not> (fb \<or> df)" "list_ex waits (map ?v cs)"
      using select_tiers_blocked [OF n scan(1) [unfolded r], of fb df tiers g] by blast
    then show ?thesis
    proof cases
      case go
      obtain q' f' r' where "select_tiers i now route fb df tiers (merge_notes g (map ?v cs)) q f1 = Some (q', f', Inr r')"
        "selection_outcome i now route (fb \<or> df) tiers (merge_notes g (map ?v cs)) q q' r'"
        using IH by blast
      then show ?thesis
        using go(1) selection_outcome_shift [OF offer same no go(2)] unfolding tier by metis
    next
      case stop
      have "serving_tier ?v (fb \<or> df) (tier # tiers) = None"
        using stop(3,4) no by (auto simp: tier list_ex_iff)
      then have "selection_outcome i now route (fb \<or> df) (tier # tiers) g p q r'"
        using stop(2-4) offer by (simp add: tier selection_outcome_def Let_def del: serving_tier.simps)
      then show ?thesis
        using stop(1) unfolding tier by blast
    qed
  qed
qed

section \<open>What is reported when nothing is available\<close>

text \<open>The time a verdict names, and the verdicts that no waiting changes.\<close>

fun known_time :: "candidate_verdict \<Rightarrow> instant option" where
  "known_time (CV_Deferred t) = Some t"
| "known_time (CV_RateLimited t) = t"
| "known_time (CV_Unhealthy err) =
     (case che_source err of Temporary u \<Rightarrow> Some (tu_until u) | Permanent \<Rightarrow> None)"
| "known_time _ = None"

fun hopeless :: "candidate_verdict \<Rightarrow> bool" where
  "hopeless CV_Ignored = True"
| "hopeless (CV_Unhealthy err) = (che_source err = Permanent)"
| "hopeless _ = False"

fun wake_time :: "generation_selection \<Rightarrow> instant option" where
  "wake_time (GS_RateLimited t) = t"
| "wake_time (GS_TemporarilyUnavailable t) = Some t"
| "wake_time (GS_RetryDeferred t) = Some t"
| "wake_time _ = None"

abbreviation empty_notes :: generation_notes where
  "empty_notes \<equiv> \<lparr> gn_saw_rate_limit = False, gn_rate_retry_at = None, gn_skipped_retry_at = None,
                    gn_deferred_retry_at = None \<rparr>"

lemma cause_neq: "cause \<noteq> Outage \<longleftrightarrow> cause = RateLimitCooldown"
  by (cases cause) simp_all

lemma known_time_parts:
  "known_time v = earliest_optional (deferral_time v)
     (earliest_optional (rate_time v) (earliest_optional (outage_time v) (cooldown_time v)))"
  by (cases v) (auto simp: cause_neq split: health_acquire_error.split)

lemma min_known_time:
  "min_instant (map known_time vs) =
     earliest_optional (min_instant (map deferral_time vs))
       (earliest_optional (min_instant (map rate_time vs))
         (earliest_optional (min_instant (map outage_time vs)) (min_instant (map cooldown_time vs))))"
  by (induction vs) (simp_all add: min_instant_Cons known_time_parts earliest_optional_ac)

lemma earliest_optional_None: "earliest_optional a b = None \<longleftrightarrow> a = None \<and> b = None"
  by (simp add: earliest_optional_def split: option.split)

lemma selection_end_wake:
  assumes "selection_end (merge_notes empty_notes vs) = Some r"
  shows "wake_time r = min_instant (map known_time vs)"
  using assms no_rate_times [of vs]
  by (cases "min_instant (map deferral_time vs)")
    (auto simp: selection_end_def merge_notes_def min_known_time min_instant_Cons Let_def
      earliest_optional_None split: if_splits option.splits)

lemma hopeless_iff:
  "v \<noteq> CV_Available \<Longrightarrow>
   hopeless v \<longleftrightarrow> deferral_time v = None \<and> \<not> rate_limits v \<and> outage_time v = None \<and> cooldown_time v = None"
  by (cases v) (auto simp: cause_neq split: health_acquire_error.split)

lemma selection_end_hopeless:
  assumes "selection_end (merge_notes empty_notes vs) = Some r" "\<forall>v\<in>set vs. v \<noteq> CV_Available"
  shows "(r = GS_NoCandidates \<longleftrightarrow> (\<forall>v\<in>set vs. hopeless v)) \<and> (\<forall>sel. r \<noteq> GS_Acquired sel)"
proof -
  have "(\<forall>v\<in>set vs. hopeless v) \<longleftrightarrow>
      min_instant (map deferral_time vs) = None \<and> \<not> list_ex rate_limits vs \<and>
      min_instant (map outage_time vs) = None \<and> min_instant (map cooldown_time vs) = None"
    using assms(2) by (auto simp: min_instant_None list_ex_iff hopeless_iff)
  then show ?thesis
    using assms(1)
    by (auto simp: selection_end_def merge_notes_def Let_def earliest_optional_None
        split: if_splits option.splits)
qed

lemma serving_tier_Some:
  "serving_tier v pass tiers = Some (t, cs) \<Longrightarrow> (t, cs) \<in> set tiers \<and> (\<exists>c\<in>set cs. v c = CV_Available)"
  by (induction tiers) (auto simp: list_ex_iff split: if_splits)

lemma serving_tier_None:
  "serving_tier v pass tiers = None \<Longrightarrow> pass \<or> \<not> list_ex waits (map v (concat (map snd tiers))) \<Longrightarrow>
   \<forall>c\<in>set (concat (map snd tiers)). v c \<noteq> CV_Available"
proof (induction tiers)
  case (Cons tier tiers)
  have "pass \<or> \<not> list_ex waits (map v (concat (map snd tiers)))" "pass \<or> \<not> list_ex (\<lambda>c. waits (v c)) (snd tier)"
    using Cons.prems(2) by (auto simp: list_ex_iff)
  moreover from this(2) Cons.prems(1)
  have "\<not> list_ex (\<lambda>c. v c = CV_Available) (snd tier)" "serving_tier v pass tiers = None"
    by (auto split: if_splits)
  ultimately show ?case using Cons.IH by (auto simp: list_ex_iff)
qed simp

lemma waits_not_hopeless: "waits v \<Longrightarrow> \<not> hopeless v"
  by (cases v) (auto simp: waits_def)

lemma try_select_outcome:
  assumes "visit_room now p (concat (map snd tiers))" "distinct (map fst tiers)"
    and "\<forall>t\<in>set tiers. po_cursors p (route, fst t) \<noteq> None"
  obtains q f' r where "try_select i now route fallback tiers p f = Some (q, f', Inr r)"
    "selection_outcome i now route (fallback \<or> has_active_deferral i now tiers p) tiers empty_notes p q r"
  using select_tiers_spec [OF assms, of i fallback "has_active_deferral i now tiers p" empty_notes f]
  unfolding try_select_def by blast

lemma selection_outcome_hopeless:
  assumes "selection_outcome i now route pass tiers empty_notes p q r"
  shows "r = GS_NoCandidates \<longleftrightarrow> (\<forall>c\<in>set (concat (map snd tiers)). hopeless (verdict i now p c))"
    "serving_tier (verdict i now p) pass tiers = None \<Longrightarrow> r \<noteq> GS_Acquired sel"
proof -
  let ?v = "verdict i now p" and ?all = "concat (map snd tiers)"
  have "(r = GS_NoCandidates \<longleftrightarrow> (\<forall>c\<in>set ?all. hopeless (?v c))) \<and>
      (serving_tier ?v pass tiers = None \<longrightarrow> r \<noteq> GS_Acquired sel)"
  proof (cases "serving_tier ?v pass tiers")
    case (Some tier)
    then obtain t cs c where "tier = (t, cs)" "(t, cs) \<in> set tiers" "c \<in> set cs" "?v c = CV_Available"
      using serving_tier_Some [of ?v pass tiers] by (cases tier) blast
    then have "c \<in> set ?all" "\<not> hopeless (?v c)" by force+
    then have "\<not> (\<forall>c\<in>set ?all. hopeless (?v c))" by blast
    moreover have "\<exists>sel. r = GS_Acquired sel"
      using assms Some by (cases tier) (auto simp: selection_outcome_def Let_def)
    ultimately show ?thesis using Some by (metis generation_selection.distinct(7) option.distinct(1))
  next
    case None
    show ?thesis
    proof (cases "pass \<or> \<not> list_ex waits (map ?v ?all)")
      case True
      then have "selection_end (merge_notes empty_notes (map ?v ?all)) = Some r"
        using assms None by (simp add: selection_outcome_def Let_def)
      from selection_end_hopeless [OF this] show ?thesis
        using serving_tier_None [OF None True] by simp
    next
      case False
      then have "early_exit r" "\<exists>c\<in>set ?all. waits (?v c)"
        using assms None by (simp_all add: selection_outcome_def Let_def list_ex_iff)
      then show ?thesis
        using waits_not_hopeless by (auto simp: early_exit_def)
    qed
  qed
  then show "r = GS_NoCandidates \<longleftrightarrow> (\<forall>c\<in>set ?all. hopeless (?v c))"
    "serving_tier ?v pass tiers = None \<Longrightarrow> r \<noteq> GS_Acquired sel"
    by blast+
qed

section \<open>Properties\<close>


text \<open>
  For the examples: the window of the first credential is full until a minute after 5, the second
  credential has a free slot, everything is healthy, and the cursors stand at zero.
\<close>

definition sample_pool :: routing_pool where
  "sample_pool =
     \<lparr> po_epoch = epoch_new,
       po_handles = (\<lambda>k. if k = ProviderCredential 1 then sample_reserved else sample_handle),
       po_credentials = (\<lambda>_. cooling_credential\<lparr>ch_cooldown_until := None\<rparr>),
       po_endpoints = (\<lambda>_. quiet_endpoint 3), po_proxies = (\<lambda>_. quiet_circuit 5),
       po_egress_paths = (\<lambda>_. quiet_endpoint 6), po_candidate_paths = (\<lambda>_. quiet_endpoint 8),
       po_admissions = admission_registry_default\<lparr>ar_heap := [route_admission_new sample_identity 1]\<rparr>,
       po_cursors = (\<lambda>_. Some 0) \<rparr>"

definition sample_second :: route_candidate where
  "sample_second = (sample_candidate 2)\<lparr>rc_credential_id := ProviderCredential 2\<rparr>"

definition sample_input :: selection_input where
  "sample_input =
     \<lparr> si_policy = policy_from_settings 30, si_selection_state = selection_state_default,
       si_credential_eligible = (\<lambda>_. True) \<rparr>"

lemmas selection_eval =
  sample_pool_def sample_second_def sample_input_def sample_candidate_def sample_credential_defs
  verdict_def usable_verdict_def health_verdict_def credential_verdict_def paths_availability_def
  admission_active_def is_active_def route_admission_new_def health_at_def handle_at_def
  pruned_health_def cooling_credential_def auth_availability_def blocks_def and_then_def filtered_as_def
  endpoint_availability_def circuit_availability_def check_transient_def quiet_endpoint_def quiet_circuit_def
  rate_verdict_def rate_prune_def RATE_WINDOW_def instant_checked_sub_def nanos_per_sec_def

lemma sample_verdicts:
  "verdict sample_input 7 sample_pool (sample_candidate 1) = CV_RateLimited (Some 60000000005)"
  "verdict sample_input 7 sample_pool sample_second = CV_Available"
  by (simp_all add: selection_eval)

lemma sample_room: "visit_room 7 sample_pool [sample_candidate 1, sample_second]"
  by (simp add: visit_room_def overdue_def expired_models_def credential_key_def rate_room_def handle_at_def
      sample_pool_def sample_second_def sample_candidate_def sample_credential_defs cooling_credential_def
      epoch_new_def u32_max_def u64_max_def)


text \<open>C17. A request that has to wait is told the right moment: if nothing is available and no tier may hold the request
  back, the reported time is the earliest one at which a deferral, a health block or a full window of some candidate
  ends, and none is reported exactly if no such time is known.\<close>

theorem selection_wake_exact:
  assumes "visit_room now p (concat (map snd tiers))" "distinct (map fst tiers)"
    and "\<forall>t\<in>set tiers. po_cursors p (route, fst t) \<noteq> None"
    and "fallback \<or> has_active_deferral i now tiers p"
    and "\<forall>c\<in>set (concat (map snd tiers)). verdict i now p c \<noteq> CV_Available"
    and "try_select i now route fallback tiers p f = Some (q, f', Inr r)"
  shows "wake_time r = Some t \<longleftrightarrow>
    (\<exists>c\<in>set (concat (map snd tiers)). known_time (verdict i now p c) = Some t) \<and>
    (\<forall>c\<in>set (concat (map snd tiers)). \<forall>u. known_time (verdict i now p c) = Some u \<longrightarrow> t \<le> u)"
proof -
  let ?v = "verdict i now p" and ?all = "concat (map snd tiers)"
  have none: "serving_tier ?v True tiers = None"
  proof (cases "serving_tier ?v True tiers")
    case (Some tier)
    then show ?thesis
      using assms(5) serving_tier_Some [of ?v True tiers "fst tier" "snd tier"] by force
  qed
  obtain q' f1 r' where "try_select i now route fallback tiers p f = Some (q', f1, Inr r')"
    "selection_outcome i now route (fallback \<or> has_active_deferral i now tiers p) tiers empty_notes p q' r'"
    using try_select_outcome [OF assms(1-3)] .
  then have "selection_outcome i now route True tiers empty_notes p q r"
    using assms(4,6) by simp
  then have "selection_end (merge_notes empty_notes (map ?v ?all)) = Some r"
    using none by (simp add: selection_outcome_def Let_def)
  from selection_end_wake [OF this] show ?thesis
    by (simp add: min_instant_Some image_iff) (metis (no_types, lifting))
qed

theorem selection_wake_exact_witness:
  "\<exists>q f r. try_select sample_input 7 9 True [(0, [sample_candidate 1])] sample_pool {} = Some (q, f, Inr r) \<and>
     wake_time r = Some 60000000005"
proof -
  let ?tiers = "[(0 :: nat, [sample_candidate 1])]"
  have pre: "visit_room 7 sample_pool (concat (map snd ?tiers))" "distinct (map fst ?tiers)"
    "\<forall>t\<in>set ?tiers. po_cursors sample_pool (9, fst t) \<noteq> None"
    using sample_room by (simp_all add: sample_pool_def visit_room_def)
  obtain q f r where sel: "try_select sample_input 7 9 True ?tiers sample_pool {} = Some (q, f, Inr r)"
    using try_select_outcome [OF pre, of sample_input True "{}"] by metis
  have "\<forall>c\<in>set (concat (map snd ?tiers)). verdict sample_input 7 sample_pool c \<noteq> CV_Available"
    using sample_verdicts by simp
  from selection_wake_exact [OF pre _ this sel, of 60000000005] sel show ?thesis
    using sample_verdicts by auto
qed

text \<open>The cursor after a selection, and where the next scan of the tier starts.\<close>

lemma cursor_after:
  fixes n :: u64
  assumes "k < length cs" "unat n + length cs < 2 ^ 64"
  shows "last (rotate (unat (n + 1 + of_nat k) mod length cs) cs) = cs ! ((unat n + k) mod length cs)"
proof -
  have "n + 1 + of_nat k = (of_nat (unat n + 1 + k) :: u64)" by simp
  also have "unat \<dots> = unat n + 1 + k"
    using assms by (simp only: unat_of_nat) (simp add: take_bit_nat_eq_self)
  finally have m: "unat (n + 1 + of_nat k) = unat n + 1 + k" .
  have "last (rotate j cs) = cs ! ((j + (length cs - 1)) mod length cs)" for j
  proof -
    have "rotate j cs \<noteq> []" using assms(1) by auto
    then show ?thesis using assms(1) by (simp add: last_conv_nth nth_rotate)
  qed
  from this [of "unat n + 1 + k"]
  have "last (rotate (unat n + 1 + k) cs) = cs ! ((unat n + 1 + k + (length cs - 1)) mod length cs)" .
  also have "unat n + 1 + k + (length cs - 1) = unat n + k + length cs"
    using assms(1) by simp
  finally have "last (rotate (unat n + 1 + k) cs) = cs ! ((unat n + k + length cs) mod length cs)" .
  then show ?thesis
    by (simp only: m mod_add_self2 flip: rotate_conv_mod)
qed



text \<open>
  A tier whose candidates all cool down stops the selection with the times of that tier alone: what the
  tiers before it reported as the end of an outage is not part of the answer, while a rate-limited tier
  does include it.
\<close>

lemma cooldown_hides_earlier_tiers:
  assumes "po_cursors p (route, tier) = Some n"
    and "scan_tier i now cs n (p\<lparr>po_cursors := (po_cursors p)((route, tier) \<mapsto> n + 1)\<rparr>) f =
      Some (q, f', TS_Exhausted outage_at (Some t) deferred_at)"
  shows "select_tiers i now route False False ((tier, cs) # tiers) g p f =
    Some (q, f', Inr (GS_TemporarilyUnavailable (case outage_at of None \<Rightarrow> t | Some u \<Rightarrow> min u t)))"
  using assms by (simp add: cursor_reserve_def)

end
