(* ===== verification/Request_Queue.thy ===== *)
theory Request_Queue
  imports Candidate_Selection
begin

text \<open>
  Waiting for a candidate: \<open>crates/runtime/src/routing/queue.rs\<close>, and from
  \<open>crates/runtime/src/public_request/selection/\<close> the wait state and the errors of \<open>selector.rs\<close>,
  the waiting loop of \<open>generation.rs\<close> and the selection of one fixed candidate in \<open>fixed.rs\<close>.

  A request that finds no candidate takes one of a bounded number of tickets and tries again
  whenever the scheduler epoch changes or a known time is reached, until its deadline. A waiting loop
  is given the turns of its surroundings: the readings of the clock, what ended each wait, and what the
  rest of the process did to the shared state meanwhile. A loop that never returns has the value \<open>None\<close>;
  the inner \<open>None\<close> is a panic.
\<close>

section \<open>Policies and errors\<close>

datatype rate_limit_action = RA_Wait | RA_Reject

record queue_policy =
  qp_on_rate_limited :: rate_limit_action
  qp_queue_timeout :: duration
  qp_max_waiting_requests :: nat
  qp_fallback_on_rate_limit :: bool

datatype queue_policy_error = ZeroQueueTimeout | ZeroMaxWaitingRequests

definition queue_policy_new ::
  "rate_limit_action \<Rightarrow> duration \<Rightarrow> nat \<Rightarrow> bool \<Rightarrow> queue_policy_error + queue_policy" where
  "queue_policy_new on_rate_limited queue_timeout max_waiting_requests fallback_on_rate_limit =
     (if queue_timeout = 0 then Inl ZeroQueueTimeout
      else if max_waiting_requests = 0 then Inl ZeroMaxWaitingRequests
      else Inr \<lparr> qp_on_rate_limited = on_rate_limited, qp_queue_timeout = queue_timeout,
                 qp_max_waiting_requests = max_waiting_requests,
                 qp_fallback_on_rate_limit = fallback_on_rate_limit \<rparr>)"

text \<open>The seconds until an instant, rounded up.\<close>

definition seconds_until :: "instant \<Rightarrow> instant \<Rightarrow> nat" where
  "seconds_until retry_at now =
     (let delay = duration_since retry_at now
      in saturating_add_u64 (delay div nanos_per_sec) (if 0 < delay mod nanos_per_sec then 1 else 0))"

definition rate_limit_error :: "string \<Rightarrow> public_error" where
  "rate_limit_error message = public_error_new PE_LocalRateLimit message"

definition rate_limited_error :: "string \<Rightarrow> instant option \<Rightarrow> instant \<Rightarrow> public_error" where
  "rate_limited_error message retry_at now =
     (case retry_at of
        None \<Rightarrow> rate_limit_error message
      | Some retry_at \<Rightarrow> (rate_limit_error message)\<lparr>pe_retry_after_seconds := Some (seconds_until retry_at now)\<rparr>)"

definition no_available_credentials :: public_error where
  "no_available_credentials =
     public_error_new PE_NoAvailableCredential ''no eligible provider credential is available''"

definition temporarily_unavailable :: "instant \<Rightarrow> instant \<Rightarrow> public_error" where
  "temporarily_unavailable retry_at now =
     no_available_credentials\<lparr>pe_retry_after_seconds := Some (seconds_until retry_at now)\<rparr>"

definition RPM_EXHAUSTED :: string where
  "RPM_EXHAUSTED = ''all eligible credentials have exhausted their local RPM''"

section \<open>Tickets\<close>

text \<open>The coordinator's state is the number of waiting requests. A ticket holds the receiver of the epoch.\<close>

record queue_ticket =
  qt_receiver :: nat

definition try_ticket :: "nat \<Rightarrow> scheduler_epoch \<Rightarrow> nat \<Rightarrow> nat \<times> queue_ticket option" where
  "try_ticket waiting e max_waiting_requests =
     (if max_waiting_requests \<le> waiting then (waiting, None)
      else (waiting + 1, Some \<lparr> qt_receiver = ep_published e \<rparr>))"

definition ticket_drop :: "nat \<Rightarrow> nat option" where
  "ticket_drop waiting = checked_sub waiting 1"

record wait_state =
  sw_queue_deadline :: "instant option"
  sw_binding_deadline :: "instant option"
  sw_queue_ticket :: "queue_ticket option"

definition wait_state_default :: wait_state where
  "wait_state_default = \<lparr> sw_queue_deadline = None, sw_binding_deadline = None, sw_queue_ticket = None \<rparr>"

definition wait_queue :: "duration \<Rightarrow> instant \<Rightarrow> wait_state \<Rightarrow> wait_state \<times> instant" where
  "wait_queue timeout now w =
     (case sw_queue_deadline w of
        Some deadline \<Rightarrow> (w, deadline)
      | None \<Rightarrow> (w\<lparr>sw_queue_deadline := Some (now + timeout)\<rparr>, now + timeout))"

definition wait_binding :: "duration \<Rightarrow> instant \<Rightarrow> wait_state \<Rightarrow> wait_state \<times> instant" where
  "wait_binding timeout now w =
     (case sw_binding_deadline w of
        Some deadline \<Rightarrow> (w, deadline)
      | None \<Rightarrow> (w\<lparr>sw_binding_deadline := Some (now + timeout)\<rparr>, now + timeout))"

definition queue_changes ::
  "nat \<Rightarrow> scheduler_epoch \<Rightarrow> nat \<Rightarrow> wait_state \<Rightarrow> nat \<times> wait_state \<times> nat option" where
  "queue_changes waiting e max_waiting_requests w =
     (let (waiting, w) =
            (case sw_queue_ticket w of
               Some _ \<Rightarrow> (waiting, w)
             | None \<Rightarrow> (let (n, ticket) = try_ticket waiting e max_waiting_requests
                        in (n, w\<lparr>sw_queue_ticket := ticket\<rparr>)))
      in (waiting, w, map_option qt_receiver (sw_queue_ticket w)))"

text \<open>Dropping the wait state of a request that has ended.\<close>

definition wait_state_drop :: "nat \<Rightarrow> wait_state \<Rightarrow> nat option" where
  "wait_state_drop waiting w =
     (case sw_queue_ticket w of None \<Rightarrow> Some waiting | Some _ \<Rightarrow> ticket_drop waiting)"

section \<open>Waiting\<close>

text \<open>
  A turn of a waiting loop: the clock when the selection reads it, when the loop compares it with
  the deadline, and when a final selection reads it; what ended the wait; and what happened to the
  shared state during the wait.
\<close>

datatype wait_event = WE_Changed | WE_Closed | WE_Elapsed

record 's wait_turn =
  wt_select_at :: instant
  wt_now :: instant
  wt_event :: wait_event
  wt_world :: "'s \<Rightarrow> 's"
  wt_final_at :: instant

type_synonym 's selector = "'s \<Rightarrow> instant \<Rightarrow> ('s \<times> (public_error + generation_selection)) option"

definition final_selection_or_timeout ::
  "'s selector \<Rightarrow> 's \<Rightarrow> instant \<Rightarrow> ('s \<times> (public_error + selected_candidate)) option" where
  "final_selection_or_timeout select s now =
     do { (s, result) \<leftarrow> select s now;
          Some (s, case result of
                     Inl err \<Rightarrow> Inl err
                   | Inr (GS_Acquired selected) \<Rightarrow> Inr selected
                   | Inr GS_NoCandidates \<Rightarrow> Inl no_available_credentials
                   | Inr (GS_TemporarilyUnavailable retry_at) \<Rightarrow> Inl (temporarily_unavailable retry_at now)
                   | Inr (GS_RetryDeferred retry_at) \<Rightarrow> Inl (temporarily_unavailable retry_at now)
                   | Inr (GS_RateLimited retry_at) \<Rightarrow> Inl (rate_limited_error RPM_EXHAUSTED retry_at now)) }"

text \<open>One turn of the loop: \<open>Inl\<close> is what it returns, \<open>Inr\<close> the state the next turn starts with.\<close>

definition wait_turn_step ::
  "'s selector \<Rightarrow> instant \<Rightarrow> 's wait_turn \<Rightarrow> 's \<Rightarrow>
   ('s \<times> (public_error + selected_candidate)) option + 's" where
  "wait_turn_step select deadline turn s =
     (case select s (wt_select_at turn) of
        None \<Rightarrow> Inl None
      | Some (s, Inl err) \<Rightarrow> Inl (Some (s, Inl err))
      | Some (s, Inr (GS_Acquired selected)) \<Rightarrow> Inl (Some (s, Inr selected))
      | Some (s, Inr GS_NoCandidates) \<Rightarrow> Inl (Some (s, Inl no_available_credentials))
      | Some (s, Inr result) \<Rightarrow>
          (if deadline \<le> wt_now turn
           then Inl (final_selection_or_timeout select s (wt_final_at turn))
           else let s = wt_world turn s
                in case wt_event turn of
                     WE_Closed \<Rightarrow> Inl (Some (s, Inl internal_error))
                   | WE_Changed \<Rightarrow> Inr s
                   | WE_Elapsed \<Rightarrow>
                       (if wake_time result = None
                        then Inl (final_selection_or_timeout select s (wt_final_at turn))
                        else Inr s)))"

partial_function (option) wait_loop ::
  "'s selector \<Rightarrow> instant \<Rightarrow> (nat \<Rightarrow> 's wait_turn) \<Rightarrow> nat \<Rightarrow> 's \<Rightarrow>
   ('s \<times> (public_error + selected_candidate)) option option" where
  "wait_loop select deadline turns n s =
     (case wait_turn_step select deadline (turns n) s of
        Inl result \<Rightarrow> Some result
      | Inr s \<Rightarrow> wait_loop select deadline turns (Suc n) s)"

text \<open>
  \<open>select_with_queue\<close> of \<open>generation.rs\<close> and the part of \<open>wait_for_candidate\<close> before its loop. The
  arguments beside the policy are the number of waiting requests, the epoch, the wait state of the request,
  the clock of the first selection and of the deadline, and the turns.
\<close>

definition wait_for_candidate ::
  "'s selector \<Rightarrow> queue_policy \<Rightarrow> nat \<Rightarrow> scheduler_epoch \<Rightarrow> wait_state \<Rightarrow> instant \<Rightarrow> (nat \<Rightarrow> 's wait_turn) \<Rightarrow> 's \<Rightarrow>
   (nat \<times> wait_state \<times> ('s \<times> (public_error + selected_candidate)) option) option" where
  "wait_for_candidate select policy waiting e w now turns s =
     (case queue_changes waiting e (qp_max_waiting_requests policy) w of
        (waiting, w, None) \<Rightarrow> Some (waiting, w, Some (s, Inl (rate_limit_error ''request queue is full'')))
      | (waiting, w, Some receiver) \<Rightarrow>
          (let (w, deadline) = wait_queue (qp_queue_timeout policy) now w
           in map_option (\<lambda>result. (waiting, w, result)) (wait_loop select deadline turns 0 s)))"

definition select_with_queue ::
  "'s selector \<Rightarrow> queue_policy \<Rightarrow> nat \<Rightarrow> scheduler_epoch \<Rightarrow> wait_state \<Rightarrow> instant \<Rightarrow> instant \<Rightarrow>
   (nat \<Rightarrow> 's wait_turn) \<Rightarrow> 's \<Rightarrow>
   (nat \<times> wait_state \<times> ('s \<times> (public_error + selected_candidate)) option) option" where
  "select_with_queue select policy waiting e w first_at now turns s =
     (case select s first_at of
        None \<Rightarrow> Some (waiting, w, None)
      | Some (s, Inl err) \<Rightarrow> Some (waiting, w, Some (s, Inl err))
      | Some (s, Inr result) \<Rightarrow>
          (case result of
             GS_Acquired selected \<Rightarrow> Some (waiting, w, Some (s, Inr selected))
           | GS_NoCandidates \<Rightarrow> Some (waiting, w, Some (s, Inl no_available_credentials))
           | GS_RetryDeferred retry_at \<Rightarrow> wait_for_candidate select policy waiting e w now turns s
           | GS_TemporarilyUnavailable retry_at \<Rightarrow>
               (if qp_on_rate_limited policy = RA_Reject
                then Some (waiting, w, Some (s, Inl (temporarily_unavailable retry_at first_at)))
                else wait_for_candidate select policy waiting e w now turns s)
           | GS_RateLimited retry_at \<Rightarrow>
               (if qp_on_rate_limited policy = RA_Reject
                then Some (waiting, w, Some (s, Inl (rate_limited_error RPM_EXHAUSTED retry_at first_at)))
                else wait_for_candidate select policy waiting e w now turns s)))"

text \<open>The selector that \<open>select_candidate\<close> passes: rounds over the shared pool with the filters of this
  request.\<close>

definition pool_selector ::
  "selection_input \<Rightarrow> route_id \<Rightarrow> bool \<Rightarrow> (nat \<times> route_candidate list) list \<Rightarrow>
   (routing_pool \<times> filter_recorder) selector" where
  "pool_selector i route fallback tiers s now =
     do { (p, filters, result) \<leftarrow> try_select i now route fallback tiers (fst s) (snd s);
          Some ((p, filters), result) }"

definition select_candidate ::
  "selection_input \<Rightarrow> route_id \<Rightarrow> bool \<Rightarrow> (nat \<times> route_candidate list) list \<Rightarrow> queue_policy \<Rightarrow> nat \<Rightarrow>
   scheduler_epoch \<Rightarrow> wait_state \<Rightarrow> instant \<Rightarrow> instant \<Rightarrow>
   (nat \<Rightarrow> (routing_pool \<times> filter_recorder) wait_turn) \<Rightarrow> routing_pool \<Rightarrow>
   (nat \<times> wait_state \<times> ((routing_pool \<times> filter_recorder) \<times> (public_error + selected_candidate)) option) option" where
  "select_candidate i route fallback tiers policy waiting e w first_at now turns p =
     select_with_queue (pool_selector i route fallback tiers) policy waiting e w first_at now turns (p, {})"

section \<open>A fixed candidate\<close>

datatype fixed_selection_error = FE_QueueFull | FE_Timeout | FE_Unavailable | FE_Internal

fun into_public_error :: "fixed_selection_error \<Rightarrow> public_error" where
  "into_public_error FE_QueueFull = rate_limit_error ''request queue is full''"
| "into_public_error FE_Timeout = rate_limit_error ''bound credential has exhausted its local RPM''"
| "into_public_error FE_Unavailable = public_error_new PE_SessionBindingLost ''session binding is unavailable''"
| "into_public_error FE_Internal = internal_error"

datatype fixed_wait = FW_Health instant | FW_RateLimit "instant option"

datatype fixed_attempt = FA_Acquired selected_candidate | FA_Waiting fixed_wait

fun fixed_retry_at :: "fixed_wait \<Rightarrow> instant option" where
  "fixed_retry_at (FW_Health retry_at) = Some retry_at"
| "fixed_retry_at (FW_RateLimit retry_at) = retry_at"

fun reserves_rpm_slot :: "fixed_wait \<Rightarrow> bool" where
  "reserves_rpm_slot (FW_RateLimit _) = True"
| "reserves_rpm_slot (FW_Health _) = False"

text \<open>What a health refusal means for a pinned request.\<close>

definition fixed_health_error ::
  "route_candidate \<Rightarrow> candidate_health_error \<Rightarrow> routing_pool \<times> filter_recorder \<Rightarrow>
   (routing_pool \<times> filter_recorder) \<times> (fixed_selection_error + fixed_attempt)" where
  "fixed_health_error c err s =
     (recorder_record c (che_kind err) s,
      case che_source err of
        Temporary u \<Rightarrow> Inr (FA_Waiting (FW_Health (tu_until u)))
      | Permanent \<Rightarrow> Inl FE_Unavailable)"

text \<open>\<open>after_reservation\<close> is what happens between the reservation and the acquisition of the health permits.\<close>

definition try_selected_with ::
  "reliability_policy \<Rightarrow> route_candidate \<Rightarrow> (routing_pool \<Rightarrow> routing_pool) \<Rightarrow> instant \<Rightarrow>
   routing_pool \<times> filter_recorder \<Rightarrow>
   ((routing_pool \<times> filter_recorder) \<times> (fixed_selection_error + fixed_attempt)) option" where
  "try_selected_with policy c after_reservation now s =
     (if \<not> admission_active (fst s) c then Some (s, Inl FE_Unavailable)
      else do { (p, available) \<leftarrow> pool_availability (fst s) c policy now;
                case available of
                  Inl err \<Rightarrow> Some (fixed_health_error c err (p, snd s))
                | Inr _ \<Rightarrow>
                    do { (p, reserved) \<leftarrow> pool_try_reserve p c True now;
                         case reserved of
                           Inl (RateLimited retry_at) \<Rightarrow>
                             Some (recorder_record c FK_RateLimit (p, snd s),
                                   Inr (FA_Waiting (FW_RateLimit retry_at)))
                         | Inr permit \<Rightarrow>
                             do { (p, acquired) \<leftarrow>
                                    acquire_health_with_rpm_reservation (after_reservation p) c policy permit now;
                                  case acquired of
                                    Inl err \<Rightarrow> Some (fixed_health_error c err (p, snd s))
                                  | Inr (permit, health) \<Rightarrow>
                                      Some ((record_selection c p, snd s),
                                            Inr (FA_Acquired
                                              \<lparr> sc_candidate = c, sc_permit = permit, sc_health = health \<rparr>)) } } })"

definition try_selected ::
  "reliability_policy \<Rightarrow> route_candidate \<Rightarrow> instant \<Rightarrow> routing_pool \<times> filter_recorder \<Rightarrow>
   ((routing_pool \<times> filter_recorder) \<times> (fixed_selection_error + fixed_attempt)) option" where
  "try_selected policy c now s = try_selected_with policy c (\<lambda>p. p) now s"

definition final_selection ::
  "reliability_policy \<Rightarrow> route_candidate \<Rightarrow> instant \<Rightarrow> routing_pool \<times> filter_recorder \<Rightarrow>
   ((routing_pool \<times> filter_recorder) \<times> (fixed_selection_error + selected_candidate)) option" where
  "final_selection policy c now s =
     do { (s, result) \<leftarrow> try_selected policy c now s;
          Some (s, case result of
                     Inl err \<Rightarrow> Inl err
                   | Inr (FA_Acquired selected) \<Rightarrow> Inr selected
                   | Inr (FA_Waiting _) \<Rightarrow> Inl FE_Timeout) }"

text \<open>The waiter of a pinned request: registered once while a slot is wanted, released when it is not, and when the
  selection returns.\<close>

definition hold_waiter :: "route_candidate \<Rightarrow> bool \<Rightarrow> routing_pool \<Rightarrow> routing_pool option" where
  "hold_waiter c registered p =
     (if registered then Some p
      else do { h \<leftarrow> register_fixed_waiter (handle_at p c); Some (put_handle c h p) })"

definition drop_waiter :: "route_candidate \<Rightarrow> bool \<Rightarrow> routing_pool \<Rightarrow> routing_pool option" where
  "drop_waiter c registered p =
     (if registered
      then do { (e, h) \<leftarrow> release_fixed_waiter (po_epoch p) (handle_at p c);
                Some (put_handle c h (p\<lparr>po_epoch := e\<rparr>)) }
      else Some p)"

definition fixed_return ::
  "route_candidate \<Rightarrow> bool \<Rightarrow>
   ((routing_pool \<times> filter_recorder) \<times> (fixed_selection_error + selected_candidate)) option \<Rightarrow>
   ((routing_pool \<times> filter_recorder) \<times> (fixed_selection_error + selected_candidate)) option" where
  "fixed_return c registered result =
     do { ((p, filters), r) \<leftarrow> result; p \<leftarrow> drop_waiter c registered p; Some ((p, filters), r) }"

definition fixed_turn_step ::
  "reliability_policy \<Rightarrow> route_candidate \<Rightarrow> instant \<Rightarrow> (routing_pool \<times> filter_recorder) wait_turn \<Rightarrow> bool \<Rightarrow>
   routing_pool \<times> filter_recorder \<Rightarrow>
   ((routing_pool \<times> filter_recorder) \<times> (fixed_selection_error + selected_candidate)) option +
   bool \<times> routing_pool \<times> filter_recorder" where
  "fixed_turn_step policy c deadline turn registered s =
     (case try_selected policy c (wt_select_at turn) s of
        None \<Rightarrow> Inl None
      | Some (s, Inl err) \<Rightarrow> Inl (fixed_return c registered (Some (s, Inl err)))
      | Some (s, Inr (FA_Acquired selected)) \<Rightarrow> Inl (fixed_return c registered (Some (s, Inr selected)))
      | Some (s, Inr (FA_Waiting waiting)) \<Rightarrow>
          (let wants = reserves_rpm_slot waiting
           in case (if wants then hold_waiter c registered (fst s) else drop_waiter c registered (fst s)) of
                None \<Rightarrow> Inl None
              | Some p \<Rightarrow>
                  (let s = (p, snd s)
                   in if deadline \<le> wt_now turn
                      then Inl (fixed_return c wants (final_selection policy c (wt_final_at turn) s))
                      else let s = wt_world turn s
                           in case wt_event turn of
                                WE_Closed \<Rightarrow> Inl (fixed_return c wants (Some (s, Inl FE_Internal)))
                              | WE_Changed \<Rightarrow> Inr (wants, s)
                              | WE_Elapsed \<Rightarrow>
                                  (if fixed_retry_at waiting = None
                                   then Inl (fixed_return c wants (final_selection policy c (wt_final_at turn) s))
                                   else Inr (wants, s)))))"

partial_function (option) fixed_loop ::
  "reliability_policy \<Rightarrow> route_candidate \<Rightarrow> instant \<Rightarrow> (nat \<Rightarrow> (routing_pool \<times> filter_recorder) wait_turn) \<Rightarrow> nat \<Rightarrow>
   bool \<times> routing_pool \<times> filter_recorder \<Rightarrow>
   ((routing_pool \<times> filter_recorder) \<times> (fixed_selection_error + selected_candidate)) option option" where
  "fixed_loop policy c deadline turns n hs =
     (case fixed_turn_step policy c deadline (turns n) (fst hs) (snd hs) of
        Inl result \<Rightarrow> Some result
      | Inr hs \<Rightarrow> fixed_loop policy c deadline turns (Suc n) hs)"

definition select_fixed_candidate ::
  "reliability_policy \<Rightarrow> nat \<Rightarrow> duration \<Rightarrow> route_candidate \<Rightarrow> nat \<Rightarrow> scheduler_epoch \<Rightarrow> wait_state \<Rightarrow>
   instant \<Rightarrow> instant \<Rightarrow> (nat \<Rightarrow> (routing_pool \<times> filter_recorder) wait_turn) \<Rightarrow> routing_pool \<Rightarrow>
   (nat \<times> wait_state \<times>
    ((routing_pool \<times> filter_recorder) \<times> (fixed_selection_error + selected_candidate)) option) option" where
  "select_fixed_candidate policy max_waiting_requests wait_timeout c waiting e w first_at now turns p =
     (case try_selected policy c first_at (p, {}) of
        None \<Rightarrow> Some (waiting, w, None)
      | Some (s, Inl err) \<Rightarrow> Some (waiting, w, Some (s, Inl err))
      | Some (s, Inr (FA_Acquired selected)) \<Rightarrow> Some (waiting, w, Some (s, Inr selected))
      | Some (s, Inr (FA_Waiting _)) \<Rightarrow>
          (case queue_changes waiting e max_waiting_requests w of
             (waiting, w, None) \<Rightarrow> Some (waiting, w, Some (s, Inl FE_QueueFull))
           | (waiting, w, Some receiver) \<Rightarrow>
               (let (w, deadline) = wait_binding wait_timeout now w
                in map_option (\<lambda>result. (waiting, w, result))
                     (fixed_loop policy c deadline turns 0 (False, s)))))"

section \<open>Loops that end\<close>

text \<open>
  A loop that returns at the latest in turn \<open>n\<close>: it has a result, and the result does not depend on
  any later turn.
\<close>

definition returns_by :: "nat \<Rightarrow> (nat \<Rightarrow> 't) \<Rightarrow> ((nat \<Rightarrow> 't) \<Rightarrow> 'r option) \<Rightarrow> bool" where
  "returns_by n turns f \<longleftrightarrow> (\<exists>r. \<forall>turns'. (\<forall>m\<le>n. turns' m = turns m) \<longrightarrow> f turns' = Some r)"

lemma returns_by_const [simp]: "returns_by n turns (\<lambda>_. Some r)"
  by (simp add: returns_by_def)

lemma returns_by_map [intro]: "returns_by n turns f \<Longrightarrow> returns_by n turns (\<lambda>t. map_option g (f t))"
  by (auto simp: returns_by_def)

text \<open>The interface of a loop over turns: one step either returns or goes on with the next turn.\<close>

locale turn_loop =
  fixes loop :: "(nat \<Rightarrow> 't) \<Rightarrow> nat \<Rightarrow> 's \<Rightarrow> 'r option"
    and step :: "'t \<Rightarrow> 's \<Rightarrow> 'r + 's"
  assumes unfold: "loop turns m s = (case step (turns m) s of Inl r \<Rightarrow> Some r | Inr s' \<Rightarrow> loop turns (Suc m) s')"
begin

lemma returns:
  assumes last: "\<And>s. \<exists>r. step (turns n) s = Inl r" and "m \<le> n"
  shows "returns_by n turns (\<lambda>t. loop t m s)"
  using \<open>m \<le> n\<close>
proof (induction "n - m" arbitrary: m s)
  case 0
  then have "m = n" by simp
  then obtain r where r: "step (turns m) s = Inl r" using last by blast
  have "loop t m s = Some r" if "\<forall>k\<le>n. t k = turns k" for t
    using r that 0 by (subst unfold) simp
  then show ?case unfolding returns_by_def by blast
next
  case (Suc d)
  show ?case
  proof (cases "step (turns m) s")
    case (Inl r)
    have "loop t m s = Some r" if "\<forall>k\<le>n. t k = turns k" for t
      using Inl that Suc.prems by (subst unfold) simp
    then show ?thesis unfolding returns_by_def by blast
  next
    case (Inr s')
    have "loop t m s = loop t (Suc m) s'" if "\<forall>k\<le>n. t k = turns k" for t
      using Inr that Suc.prems by (subst unfold) simp
    moreover have "returns_by n turns (\<lambda>t. loop t (Suc m) s')"
      using Suc by simp
    ultimately show ?thesis unfolding returns_by_def by metis
  qed
qed

text \<open>What every returned result satisfies, if the states satisfy an invariant.\<close>

lemma result:
  assumes "loop turns m s = Some r" "keeps s" "m \<le> n"
    and "\<And>s. \<exists>r. step (turns n) s = Inl r"
    and go_on: "\<And>k s s'. keeps s \<Longrightarrow> step (turns k) s = Inr s' \<Longrightarrow> keeps s'"
    and finish: "\<And>k s r. keeps s \<Longrightarrow> step (turns k) s = Inl r \<Longrightarrow> Q r"
  shows "Q r"
  using assms(1-3)
proof (induction "n - m" arbitrary: m s)
  case 0
  then obtain r' where "step (turns m) s = Inl r'" using assms(4) [of s] by auto
  then show ?case using 0 finish unfold [of turns m s] by auto
next
  case (Suc d)
  show ?case
  proof (cases "step (turns m) s")
    case (Inl r')
    then show ?thesis using Suc.prems finish unfold [of turns m s] by auto
  next
    case (Inr s')
    then have "loop turns (Suc m) s' = Some r" "keeps s'"
      using Suc.prems unfold [of turns m s] go_on by auto
    then show ?thesis using Suc.hyps(1) [of "Suc m" s'] Suc.hyps(2) by simp
  qed
qed

end

interpretation wl: turn_loop "wait_loop select deadline" "wait_turn_step select deadline"
  for select :: "'s selector" and deadline
  by unfold_locales (rule wait_loop.simps)

interpretation fl: turn_loop "fixed_loop policy c deadline"
  "\<lambda>turn hs. fixed_turn_step policy c deadline turn (fst hs) (snd hs)" for policy c deadline
  by unfold_locales (rule fixed_loop.simps)

lemma wait_turn_step_last:
  "deadline \<le> wt_now turn \<Longrightarrow> \<exists>r. wait_turn_step select deadline turn s = Inl r"
  by (auto simp: wait_turn_step_def Let_def split: option.split sum.split generation_selection.split)

lemma fixed_turn_step_last:
  "deadline \<le> wt_now turn \<Longrightarrow> \<exists>r. fixed_turn_step policy c deadline turn registered s = Inl r"
  by (auto simp: fixed_turn_step_def Let_def split: option.split sum.split fixed_attempt.split)

lemma wait_loop_returns:
  assumes "deadline \<le> wt_now (turns n)"
  shows "returns_by n turns (\<lambda>t. wait_loop select deadline t 0 s)"
  by (rule wl.returns) (use assms in \<open>simp_all add: wait_turn_step_last\<close>)

lemma fixed_loop_returns:
  assumes "deadline \<le> wt_now (turns n)"
  shows "returns_by n turns (\<lambda>t. fixed_loop policy c deadline t 0 hs)"
  by (rule fl.returns) (use assms in \<open>simp_all add: fixed_turn_step_last\<close>)

text \<open>The deadline does not depend on the ticket.\<close>

lemma queue_changes_deadlines:
  "queue_changes waiting e m w = (waiting', w', r) \<Longrightarrow>
   snd (wait_queue timeout now w') = snd (wait_queue timeout now w) \<and>
   snd (wait_binding timeout now w') = snd (wait_binding timeout now w)"
  by (auto simp: queue_changes_def try_ticket_def wait_queue_def wait_binding_def Let_def
      split: option.splits if_splits)

lemma wait_for_candidate_returns:
  assumes "snd (wait_queue (qp_queue_timeout policy) now w) \<le> wt_now (turns n)"
  shows "returns_by n turns (\<lambda>t. wait_for_candidate select policy waiting e w now t s)"
proof -
  obtain waiting' w' r where q: "queue_changes waiting e (qp_max_waiting_requests policy) w = (waiting', w', r)"
    by (metis prod_cases3)
  have "returns_by n turns (\<lambda>t. wait_loop select (snd (wait_queue (qp_queue_timeout policy) now w')) t 0 s)"
    by (rule wait_loop_returns) (use assms queue_changes_deadlines [OF q] in simp)
  then show ?thesis
    by (cases r) (auto simp: wait_for_candidate_def q Let_def case_prod_unfold)
qed

lemma select_with_queue_returns:
  assumes "snd (wait_queue (qp_queue_timeout policy) now w) \<le> wt_now (turns n)"
  shows "returns_by n turns (\<lambda>t. select_with_queue select policy waiting e w first_at now t s)"
proof -
  have wait: "returns_by n turns (\<lambda>t. wait_for_candidate select policy waiting e w now t s')" for s'
    using assms by (rule wait_for_candidate_returns)
  show ?thesis
  proof (cases "select s first_at")
    case (Some x)
    then obtain s' r where x: "select s first_at = Some (s', r)" by (cases x) simp
    show ?thesis
    proof (cases r)
      case (Inr result)
      then show ?thesis
        by (cases result; cases "qp_on_rate_limited policy = RA_Reject")
          (simp_all add: select_with_queue_def x wait)
    qed (simp add: select_with_queue_def x)
  qed (simp add: select_with_queue_def)
qed

section \<open>Waiters of a pinned request\<close>

abbreviation waiters :: "route_candidate \<Rightarrow> routing_pool \<Rightarrow> nat" where
  "waiters c p \<equiv> hd_fixed_waiters (handle_at p c)"

lemma handle_at_put [simp]:
  "handle_at (put_handle c h p) c = h" "handle_at (put_health c s p) d = handle_at p d"
  "handle_at (p\<lparr>po_epoch := e\<rparr>) d = handle_at p d"
  by (simp_all add: handle_at_def put_handle_def put_health_def)

lemma record_waiters [simp]:
  "waiters c (record_filter kind d p) = waiters c p" "waiters c (record_selection d p) = waiters c p"
  "waiters c (fst (recorder_record d kind s)) = waiters c (fst s)"
  by (auto simp: record_filter_def record_selection_def recorder_record_def handle_at_def put_handle_def Let_def
      split: prod.split)

lemma pool_availability_waiters:
  "pool_availability p c policy now = Some (q, r) \<Longrightarrow> waiters c q = waiters c p"
  by (auto simp: pool_availability_def bind_eq_Some_conv)

lemma pool_try_reserve_waiters:
  "pool_try_reserve p c fixed now = Some (q, r) \<Longrightarrow> waiters c q = waiters c p"
  by (auto simp: pool_try_reserve_def bind_eq_Some_conv dest!: reserve_counts)

lemma pool_acquire_waiters:
  assumes "acquire_health_with_rpm_reservation p c policy permit now = Some (q, r)"
  shows "waiters c q = waiters c p"
proof -
  obtain s x where x: "acquire_health (health_at p c) c policy now = Some (s, x)"
    using assms by (auto simp: acquire_health_with_rpm_reservation_def bind_eq_Some_conv)
  show ?thesis
    using assms
    by (cases x) (auto simp: acquire_health_with_rpm_reservation_def x bind_eq_Some_conv Let_def
        dest!: rollback_counts)
qed

lemma fixed_health_error_waiters:
  "fixed_health_error c err s = (s', r) \<Longrightarrow> waiters c (fst s') = waiters c (fst s)"
  by (auto simp: fixed_health_error_def)

lemma try_selected_waiters:
  assumes "try_selected policy c now s = Some (s', r)"
  shows "waiters c (fst s') = waiters c (fst s)"
proof (cases "admission_active (fst s) c")
  case True
  note def = try_selected_def try_selected_with_def
  obtain p available where p: "pool_availability (fst s) c policy now = Some (p, available)"
    using assms True by (auto simp: def bind_eq_Some_conv)
  note w = pool_availability_waiters [OF p]
  show ?thesis
  proof (cases available)
    case (Inl err)
    then show ?thesis
      using assms True w by (auto simp: def p dest!: fixed_health_error_waiters)
  next
    case (Inr u)
    obtain p1 reserved where p1: "pool_try_reserve p c True now = Some (p1, reserved)"
      using assms True Inr by (auto simp: def p bind_eq_Some_conv)
    note w1 = pool_try_reserve_waiters [OF p1]
    show ?thesis
    proof (cases reserved)
      case (Inl limited)
      then show ?thesis using assms True Inr w w1 by (cases limited) (auto simp: def p p1)
    next
      case granted: (Inr permit)
      obtain p2 acquired where p2:
        "acquire_health_with_rpm_reservation p1 c policy permit now = Some (p2, acquired)"
        using assms True Inr granted by (auto simp: def p p1 bind_eq_Some_conv)
      show ?thesis
        using assms True Inr granted w w1 pool_acquire_waiters [OF p2]
        by (cases acquired) (auto simp: def p p1 p2 dest!: fixed_health_error_waiters)
    qed
  qed
qed (use assms in \<open>simp add: try_selected_def try_selected_with_def\<close>)

lemma final_selection_waiters:
  "final_selection policy c now s = Some (s', r) \<Longrightarrow> waiters c (fst s') = waiters c (fst s)"
  by (auto simp: final_selection_def bind_eq_Some_conv dest!: try_selected_waiters)

lemma hold_waiter_count:
  "hold_waiter c registered p = Some q \<Longrightarrow> waiters c p = b + of_bool registered \<Longrightarrow> waiters c q = Suc b"
  by (auto simp: hold_waiter_def handle_ops split: if_splits)

lemma drop_waiter_count:
  "drop_waiter c registered p = Some q \<Longrightarrow> waiters c p = b + of_bool registered \<Longrightarrow> waiters c q = b"
  by (auto simp: drop_waiter_def handle_ops split: if_splits)

lemma fixed_return_count:
  "fixed_return c registered (Some (s, r)) = Some (s', r') \<Longrightarrow> waiters c (fst s) = b + of_bool registered \<Longrightarrow>
   waiters c (fst s') = b \<and> r' = r"
  by (cases s) (auto simp: fixed_return_def bind_eq_Some_conv dest: drop_waiter_count)

lemma fixed_return_final:
  assumes "fixed_return c registered (final_selection policy c now s) = Some (s', r)"
    and "waiters c (fst s) = b + of_bool registered"
  shows "waiters c (fst s') = b"
proof -
  obtain s1 r1 where s1: "final_selection policy c now s = Some (s1, r1)"
    using assms(1) by (auto simp: fixed_return_def bind_eq_Some_conv)
  then show ?thesis
    using assms fixed_return_count [of c registered s1 r1 s' r b] final_selection_waiters [OF s1] by simp
qed

lemma fixed_turn_step_waiters:
  assumes count: "waiters c (fst s) = b + of_bool registered"
    and world: "\<forall>s. waiters c (fst (wt_world turn s)) = waiters c (fst s)"
  shows "fixed_turn_step policy c deadline turn registered s = Inl (Some (s', r)) \<Longrightarrow> waiters c (fst s') = b"
    "fixed_turn_step policy c deadline turn registered s = Inr hs \<Longrightarrow>
       waiters c (fst (snd hs)) = b + of_bool (fst hs)"
proof -
  have "(\<forall>s' r. fixed_turn_step policy c deadline turn registered s = Inl (Some (s', r)) \<longrightarrow> waiters c (fst s') = b) \<and>
      (\<forall>hs. fixed_turn_step policy c deadline turn registered s = Inr hs \<longrightarrow>
         waiters c (fst (snd hs)) = b + of_bool (fst hs))"
  proof (cases "try_selected policy c (wt_select_at turn) s")
    case None
    then show ?thesis by (simp add: fixed_turn_step_def)
  next
    case (Some x)
    obtain s1 r1 where x: "x = (s1, r1)" by fastforce
    have count1: "waiters c (fst s1) = b + of_bool registered"
      using try_selected_waiters [of policy c "wt_select_at turn" s s1 r1] Some x count by simp
    show ?thesis
    proof (cases "\<exists>waiting. r1 = Inr (FA_Waiting waiting)")
      case False
      then show ?thesis
        using count1 Some x
        by (cases r1; cases "projr r1")
          (auto simp: fixed_turn_step_def dest: fixed_return_count)
    next
      case True
      then obtain waiting where r1: "r1 = Inr (FA_Waiting waiting)" by blast
      let ?wants = "reserves_rpm_slot waiting"
      show ?thesis
      proof (cases "if ?wants then hold_waiter c registered (fst s1) else drop_waiter c registered (fst s1)")
        case None
        then show ?thesis using Some x r1 by (simp add: fixed_turn_step_def)
      next
        case (Some p)
        then have p: "waiters c p = b + of_bool ?wants"
          using count1 by (auto split: if_splits dest: hold_waiter_count drop_waiter_count)
        obtain p2 f2 where p2: "wt_world turn (p, snd s1) = (p2, f2)" by fastforce
        have "waiters c p2 = b + of_bool ?wants"
          using world [rule_format, of "(p, snd s1)"] p p2 by simp
        then show ?thesis
          using \<open>try_selected policy c (wt_select_at turn) s = Some x\<close> x r1 Some p
          by (cases "wt_event turn")
            (auto simp: fixed_turn_step_def Let_def p2 dest: fixed_return_count fixed_return_final)
      qed
    qed
  qed
  then show "fixed_turn_step policy c deadline turn registered s = Inl (Some (s', r)) \<Longrightarrow> waiters c (fst s') = b"
    "fixed_turn_step policy c deadline turn registered s = Inr hs \<Longrightarrow>
       waiters c (fst (snd hs)) = b + of_bool (fst hs)"
    by blast+
qed

lemma fixed_loop_waiters:
  assumes loop: "fixed_loop policy c deadline turns 0 (False, s) = Some (Some (s', r))"
    and d: "deadline \<le> wt_now (turns n)"
    and world: "\<forall>m s. waiters c (fst (wt_world (turns m) s)) = waiters c (fst s)"
  shows "waiters c (fst s') = waiters c (fst s)"
proof -
  let ?keeps = "\<lambda>hs. waiters c (fst (snd hs)) = waiters c (fst s) + of_bool (fst hs)"
  let ?Q = "\<lambda>res. \<forall>s' r. res = Some (s', r) \<longrightarrow> waiters c (fst s') = waiters c (fst s)"
  let ?step = "\<lambda>k hs. fixed_turn_step policy c deadline (turns k) (fst hs) (snd hs)"
  have count: "?keeps (False, s)" by simp
  have last: "\<exists>r. ?step n hs = Inl r" for hs
    using d by (rule fixed_turn_step_last)
  have go_on: "?keeps hs'" if "?keeps hs" "?step k hs = Inr hs'" for k hs hs'
    using that(1) _ that(2) by (rule fixed_turn_step_waiters(2)) (use world in blast)
  have finish: "?Q res" if "?keeps hs" "?step k hs = Inl res" for k hs res
  proof (intro allI impI)
    fix s' r assume "res = Some (s', r)"
    with that(2) have "?step k hs = Inl (Some (s', r))" by simp
    with that(1) _ show "waiters c (fst s') = waiters c (fst s)"
      by (rule fixed_turn_step_waiters(1)) (use world in blast)
  qed
  have "?Q (Some (s', r))"
    using loop count _ last go_on finish by (rule fl.result) simp
  then show ?thesis by blast
qed

section \<open>The queue of all requests\<close>

text \<open>
  The coordinator with the wait states of the requests that exist: a request arrives, asks for the
  changes of the queue under the limit of its configuration, sets a deadline, or ends.
\<close>

record queue_run =
  qr_waiting :: nat
  qr_states :: "wait_state list"

inductive queue_step :: "nat \<Rightarrow> queue_run \<Rightarrow> queue_run \<Rightarrow> bool" for limit where
  qs_arrive: "queue_step limit q (q\<lparr>qr_states := qr_states q @ [wait_state_default]\<rparr>)"
| qs_wait: "i < length (qr_states q) \<Longrightarrow> m \<le> limit \<Longrightarrow>
    queue_changes (qr_waiting q) e m (qr_states q ! i) = (n, w, r) \<Longrightarrow>
    queue_step limit q (q\<lparr>qr_waiting := n, qr_states := (qr_states q)[i := w]\<rparr>)"
| qs_queue: "i < length (qr_states q) \<Longrightarrow> wait_queue timeout now (qr_states q ! i) = (w, d) \<Longrightarrow>
    queue_step limit q (q\<lparr>qr_states := (qr_states q)[i := w]\<rparr>)"
| qs_binding: "i < length (qr_states q) \<Longrightarrow> wait_binding timeout now (qr_states q ! i) = (w, d) \<Longrightarrow>
    queue_step limit q (q\<lparr>qr_states := (qr_states q)[i := w]\<rparr>)"
| qs_end: "i < length (qr_states q) \<Longrightarrow> wait_state_drop (qr_waiting q) (qr_states q ! i) = Some n \<Longrightarrow>
    queue_step limit q (q\<lparr>qr_waiting := n,
      qr_states := take i (qr_states q) @ drop (Suc i) (qr_states q)\<rparr>)"

definition tickets :: "wait_state list \<Rightarrow> nat" where
  "tickets ws = length (filter (\<lambda>w. sw_queue_ticket w \<noteq> None) ws)"

lemma tickets_split:
  assumes "i < length ws"
  shows "tickets ws = of_bool (sw_queue_ticket (ws ! i) \<noteq> None) + tickets (take i ws @ drop (Suc i) ws)"
    "tickets (ws[i := w]) = of_bool (sw_queue_ticket w \<noteq> None) + tickets (take i ws @ drop (Suc i) ws)"
proof -
  have "tickets (ys @ w # zs) = of_bool (sw_queue_ticket w \<noteq> None) + tickets (ys @ zs)" for w ys zs
    by (simp add: tickets_def)
  from this [of "take i ws" "ws ! i" "drop (Suc i) ws"] this [of "take i ws" w "drop (Suc i) ws"]
  show "tickets ws = of_bool (sw_queue_ticket (ws ! i) \<noteq> None) + tickets (take i ws @ drop (Suc i) ws)"
    "tickets (ws[i := w]) = of_bool (sw_queue_ticket w \<noteq> None) + tickets (take i ws @ drop (Suc i) ws)"
    using assms by (simp_all add: id_take_nth_drop [OF assms, symmetric] upd_conv_take_nth_drop)
qed

lemma wait_deadline_ticket:
  "wait_queue timeout now w = (w', d) \<Longrightarrow> sw_queue_ticket w' = sw_queue_ticket w"
  "wait_binding timeout now w = (w', d) \<Longrightarrow> sw_queue_ticket w' = sw_queue_ticket w"
  by (auto simp: wait_queue_def wait_binding_def split: option.splits)

lemma queue_step_tickets:
  assumes "queue_step limit q q'" "qr_waiting q = tickets (qr_states q)" "tickets (qr_states q) \<le> limit"
  shows "qr_waiting q' = tickets (qr_states q') \<and> tickets (qr_states q') \<le> limit"
  using assms
proof cases
  case qs_arrive
  then show ?thesis using assms(2,3) by (simp add: tickets_def wait_state_default_def)
next
  case (qs_wait i m e n w r)
  then show ?thesis
    using assms(2,3) tickets_split [OF qs_wait(2)]
    by (auto simp: queue_changes_def try_ticket_def Let_def split: option.splits if_splits)
next
  case (qs_queue i timeout now w d)
  then show ?thesis
    using assms(2,3) tickets_split [OF qs_queue(2)] wait_deadline_ticket(1) [OF qs_queue(3)] by simp
next
  case (qs_binding i timeout now w d)
  then show ?thesis
    using assms(2,3) tickets_split [OF qs_binding(2)] wait_deadline_ticket(2) [OF qs_binding(3)] by simp
next
  case (qs_end i n)
  then show ?thesis
    using assms(2,3) tickets_split(1) [OF qs_end(2)]
    by (auto simp: wait_state_drop_def ticket_drop_def checked_sub_def split: option.splits if_splits)
qed

section \<open>Properties\<close>


definition sample_turn :: "(routing_pool \<times> filter_recorder) wait_turn" where
  "sample_turn =
     \<lparr> wt_select_at = 8, wt_now = 200, wt_event = WE_Changed, wt_world = (\<lambda>s. s), wt_final_at = 201 \<rparr>"

definition sample_queue_policy :: queue_policy where
  "sample_queue_policy =
     \<lparr> qp_on_rate_limited = RA_Wait, qp_queue_timeout = 100, qp_max_waiting_requests = 1,
       qp_fallback_on_rate_limit = True \<rparr>"




text \<open>C18. The queue is bounded and exact: in every reachable state the number of waiting requests is the number of
  requests that hold a ticket and is at most the largest limit in force, and the end of a request never
  panics for want of a ticket to give back.\<close>

theorem queue_tickets_exact:
  assumes "(queue_step limit)\<^sup>*\<^sup>* \<lparr> qr_waiting = 0, qr_states = [] \<rparr> q"
  shows "qr_waiting q = length (filter (\<lambda>w. sw_queue_ticket w \<noteq> None) (qr_states q)) \<and>
    qr_waiting q \<le> limit \<and>
    (\<forall>i<length (qr_states q). wait_state_drop (qr_waiting q) (qr_states q ! i) \<noteq> None)"
proof -
  have inv: "qr_waiting q = tickets (qr_states q) \<and> tickets (qr_states q) \<le> limit"
    using assms
  proof (induction rule: rtranclp_induct)
    case base
    then show ?case by (simp add: tickets_def)
  next
    case (step y z)
    then show ?case using queue_step_tickets by blast
  qed
  then have "wait_state_drop (qr_waiting q) (qr_states q ! i) \<noteq> None" if "i < length (qr_states q)" for i
    using tickets_split(1) [OF that]
    by (simp add: wait_state_drop_def ticket_drop_def checked_sub_def split: option.split)
  then show ?thesis using inv by (simp add: tickets_def)
qed

theorem queue_tickets_exact_witness:
  "\<exists>q. (queue_step 1)\<^sup>*\<^sup>* \<lparr> qr_waiting = 0, qr_states = [] \<rparr> q \<and> qr_waiting q = 1 \<and>
     wait_state_drop (qr_waiting q) (qr_states q ! 0) \<noteq> None"
proof -
  let ?q0 = "\<lparr> qr_waiting = 0, qr_states = [] \<rparr>" and ?q1 = "\<lparr> qr_waiting = 0, qr_states = [wait_state_default] \<rparr>"
  let ?w = "wait_state_default\<lparr>sw_queue_ticket := Some \<lparr> qt_receiver = ep_published epoch_new \<rparr>\<rparr>"
  let ?q2 = "\<lparr> qr_waiting = 1, qr_states = [?w] \<rparr>"
  have "queue_step 1 ?q0 ?q1"
    using qs_arrive [of 1 ?q0] by simp
  moreover have "queue_step 1 ?q1 ?q2"
    using qs_wait [of 0 ?q1 1 1 epoch_new 1 ?w "Some (ep_published epoch_new)"]
    by (simp add: queue_changes_def try_ticket_def wait_state_default_def)
  ultimately have reach: "(queue_step 1)\<^sup>*\<^sup>* ?q0 ?q2" by (meson rtranclp.rtrancl_into_rtrancl r_into_rtranclp)
  show ?thesis
    using queue_tickets_exact [OF reach] reach by (intro exI [of _ ?q2]) simp
qed

end
