(* ===== verification/Spec2Isabelle.thy ===== *)
theory Spec2Isabelle
  imports Payload_Buffer Sse_Decoder Credential_Rate Gateway_Rate Scheduler_Epoch Circuit Upstream_Error
    Candidate_Health Retry_Execution Session_Affinity Sse_Rewrite Process_Lifecycle Request_Queue
begin

text \<open>
  A model of the any2api gateway and proofs about it. The gateway accepts requests in the dialects of
  several model providers, chooses one of many configured provider credentials for each, forwards the
  request, retries elsewhere if it fails, and relays the answer, often as a stream of server-sent
  events (SSE). Paths below are relative to \<open>src/\<close>.

  \<^bold>\<open>The program and its parts.\<close>
  A request passes the limit of its gateway key (\<open>Gateway_Rate\<close>), has its body indexed
  (\<open>Raw_Json\<close>), and is bound to a session if it names one (\<open>Session_Affinity\<close>). Then the retry loop
  (\<open>Retry_Execution\<close>) asks for a candidate: a round of selection (\<open>Candidate_Selection\<close>) goes through the
  tiers of the route and looks at admission, request window, and the health of credential, endpoint and
  proxy; if nothing is free, the request waits (\<open>Request_Queue\<close>) until the scheduler epoch moves or a known
  time comes (\<open>Scheduler_Epoch\<close>, \<open>Wake_Schedule\<close>). The outcome of the attempt is spread over the health of
  what it used (\<open>Attempt_Health\<close>) and decides about the next attempt (\<open>Retry_Decision\<close>, \<open>Retry_Budget\<close>).
  The answer is cut into events (\<open>Sse_Decoder\<close>), understood (\<open>Sse_Event\<close>), and the public
  model name is put back into it (\<open>Sse_Rewrite\<close>). All of this stands under the shutdown protocol of the process
  (\<open>Process_Lifecycle\<close>).

  \<^bold>\<open>Theories, by layer.\<close>

  Foundations.
  \<^item> \<open>Gateway_Prelude\<close>: machine integers, clock, panics, and generic lemmas.
  \<^item> \<open>Domain_Kinds\<close>: \<open>crates/domain/src/kind.rs\<close> and the limits that depend on the kind of a request.
  \<^item> \<open>Sliding_Window\<close>: the contract of a sliding-window limiter, as the locales \<open>sliding_window\<close> and
    \<open>revocable_window\<close>, with the bound over every window of time proved once inside them.

  Bytes and wire formats.
  \<^item> \<open>Payload_Buffer\<close>: \<open>crates/payload-buffer/src/buffer.rs\<close>. Appending is exact or reports why not; the
    locale \<open>bounded_bytes\<close> is what the clients of the buffer rely on.
  \<^item> \<open>Sse_Decoder\<close>: \<open>crates/protocol/src/sse/decoder.rs\<close> and the frame loop that drives it. Decoding does
    not depend on how the body was cut into chunks.
  \<^item> \<open>Sse_Event\<close>: \<open>crates/protocol/src/sse/event.rs\<close>, equal to a line-by-line specification.
  \<^item> \<open>Raw_Json\<close>, \<open>Protocol_Error\<close>: \<open>crates/protocol/src/raw_json.rs\<close> and \<open>error.rs\<close>. Well-formed payloads,
    lookup, forwarding byte for byte, rewriting one field.
  \<^item> \<open>Sse_Rewrite\<close>: \<open>crates/protocol/src/sse/rewrite.rs\<close> and \<open>rewrite_body_model\<close> of \<open>json_codec.rs\<close>. Only the
    model strings change.

  Limits, wake-ups and credentials (\<open>crates/runtime/src/\<close>).
  \<^item> \<open>Credential_Rate\<close>: \<open>credential/runtime/rate_window.rs\<close>; interprets \<open>revocable_window\<close>.
  \<^item> \<open>Gateway_Rate\<close>: \<open>gateway_api_key/rate_limit.rs\<close>; interprets \<open>sliding_window\<close>, and carries the bound over
    all interleavings of configurations and requests.
  \<^item> \<open>Wake_Schedule\<close>, \<open>Scheduler_Epoch\<close>: \<open>routing/epoch.rs\<close> and \<open>routing/epoch/schedule.rs\<close>. The schedule
    implements the locale \<open>wake_queue\<close>; the epoch loses no advance although racing callers coalesce; a turn of the
    worker removes exactly what is due.
  \<^item> \<open>Credential_Runtime\<close>: \<open>credential/runtime/\<close> (handle, binding, generation, permit). The counters equal
    the permits and waiters that exist.
  \<^item> \<open>Route_Admission\<close>: \<open>routing/admission.rs\<close>. Cutover to a configuration, and revocation for good.

  Health (\<open>crates/runtime/src/health/\<close>).
  \<^item> \<open>Circuit\<close>: \<open>circuit.rs\<close>, with \<open>circuit_step\<close> for all histories of its permits.
  \<^item> \<open>Upstream_Error\<close>: how a failure is described (\<open>crates/domain/src/upstream_error.rs\<close> and others).
  \<^item> \<open>Endpoint_Health\<close>, \<open>Credential_Health\<close>, \<open>Attempt_Health\<close>: the files under \<open>runtime/\<close>. Which layers a
    failure blames, when a credential is available, and what a refusal reports.

  Routing and retries (\<open>crates/runtime/src/routing/\<close> and \<open>public_request/\<close>).
  \<^item> \<open>Candidate_State\<close>: what a request remembers (\<open>routing/candidates/identity.rs\<close>).
  \<^item> \<open>Candidate_Health\<close>: the health permits of a candidate are acquired all or not at all.
  \<^item> \<open>Candidate_Pool\<close>: the objects that candidates share, as stores in one record \<open>routing_pool\<close>, and the
    methods of \<open>RouteCandidate\<close> on them. Each operation has a lemma that says what it decides and that the
    pool offers the same to everyone else.
  \<^item> \<open>Candidate_Selection\<close>: \<open>selection/tier.rs\<close>, \<open>selection/filter_recorder.rs\<close> and \<open>try_select\<close> of
    \<open>selection/generation.rs\<close>. \<open>verdict\<close> says what a pool thinks of a candidate; the scan is proved to
    take the best available candidate of the tier that has to serve, and to report the earliest useful time.
  \<^item> \<open>Request_Queue\<close>: \<open>routing/queue.rs\<close>, \<open>selection/selector.rs\<close>, \<open>selection/fixed.rs\<close> and the waiting part of
    \<open>generation.rs\<close>. Both waiting loops are instances of the locale \<open>turn_loop\<close>, in which it is proved that a loop
    whose step returns in turn \<open>n\<close> has returned by then.
  \<^item> \<open>Retry_Budget\<close>, \<open>Retry_Decision\<close>, \<open>Retry_Execution\<close>: \<open>retry/\<close>, \<open>retry.rs\<close> and \<open>upstream/failure.rs\<close>. The
    loop is the step relation \<open>retry_step\<close>; the bounds on attempts, switches and refreshes hold in every run.

  Sessions (\<open>crates/runtime/src/affinity/\<close>).
  \<^item> \<open>Affinity_Bindings\<close>, \<open>Affinity_Registry\<close>: the sharded table, and the registry with its leases.
  \<^item> \<open>Affinity_History\<close>, \<open>Affinity_Safety\<close>: worlds of a registry with the leases in use, the steps of their
    holders, and what every operation keeps; the three insertion loops are instances of the locale \<open>insert_loop\<close>.
  \<^item> \<open>Session_Affinity\<close>: the contract. The table refines a plain map of live bindings, entries under
    construction have one owner, budgets are exact, and waiters are woken.

  Process.
  \<^item> \<open>Process_Lifecycle\<close>: \<open>lifecycle/process.rs\<close>, and the finalization and the memory worker of \<open>app/any2api/\<close>, with
    every atomic access as one step of \<open>lc_step\<close>.

  \<^bold>\<open>How the code is represented.\<close>
  A struct is a record, an enum a datatype, a method a function that takes the object and returns it
  updated. A function that may panic returns an \<open>option\<close> or an \<open>exec\<close>, so that the absence of panics is a
  theorem. Whatever is shared between threads appears in a step relation whose steps are the critical
  sections or atomic accesses of the code. Instants and durations are nanoseconds as natural numbers, and a function
  that reads the clock takes the reading as an argument; within one round of selection all readings are the same.
  Counters that the code lets wrap around are 64-bit words or have the wrap-around written out; the others
  are natural numbers with their bound. A \<open>HashMap\<close> is a map, or an association list in arbitrary order where
  iteration matters.

  \<^bold>\<open>Loops and bounds.\<close>
  The scanning and parsing loops are total functions with a termination proof. Only \<open>drain\<close> of \<open>Sse_Decoder\<close> has
  fuel: one more than the bytes at hand, which is enough because every frame it yields takes at least one byte
  (\<open>drain_spec\<close>); running out is a value of its own, and the specification of decoding never has it. An insertion into the
  affinity table runs at most two rounds, with a reclaim between them. The waiting loops may run forever, so they are partial functions in the option order, given one record per turn for the
  clock, the event that ended the wait and what the rest of the process did. That they return is proved:
  by the turn in which the clock shows the deadline, whatever the other turns contain. A retry run is a
  step relation, and its number of attempts is bounded by the policy.

  \<^bold>\<open>What is assumed of code outside the repository.\<close>
  Each is an argument of the definitions, with documented behaviour as a named hypothesis and an
  instance in the examples: the allocator (\<open>allocator_ok\<close>, \<open>allocator_total\<close>), the JSON scanner of serde_json
  (\<open>json_lib\<close> with \<open>json_lib_ok\<close>), the keyed hash of the affinity keys (an arbitrary function), and the task trackers and notifications
  of tokio (\<open>sync_lib\<close> with \<open>sync_ok\<close>).

  \<^bold>\<open>Not modelled.\<close>
  \<^item> Translation between dialects (\<open>crates/protocol/src/openai_*\<close>, \<open>anthropic_messages\<close>) and the provider
    drivers (\<open>crates/provider\<close>): field-by-field mappings over serde_json values. Their classification
    of an answer is an input of the retry decision.
  \<^item> Planning and execution of an attempt, response bodies, OAuth workers, connectivity probes, transport: asynchronous
    orchestration of network calls; their outcomes are arguments of the steps that consume them.
  \<^item> Publishing of configurations and building of candidate tables from snapshots, settings and their validation,
    the reconciliation of tier cursors: projections of database rows; the reconciliation of handles, limits and
    admissions they trigger is modelled.
  \<^item> Storage, HTTP server, administration, telemetry and inspection views: SQL, routing tables of the web framework,
    counters that no modelled operation reads.
  \<^item> Tokens and digests of gateway keys, self-update, allocator and huge-page calls, the web console and the build
    tooling.
\<close>

end
